(* ===== verification/Prelude.thy ===== *)
theory Prelude
  imports
    Main
    "HOL-Library.AList"
    "HOL-Library.Multiset"
    "HOL-Library.Char_ord"
    "HOL-Library.List_Lexorder"
    "HOL-Library.Signed_Division"
begin

text \<open>
  Shared vocabulary of the development: the theorem collections, the time and integer
  types of Go as the program uses them, and the generic facts about lists, association
  lists and folds on which the component theories rest.

  \<^item> A Go \<open>time.Time\<close> is an instant, written as its signed distance in nanoseconds from
    1970-01-01 UTC. The zero value of the type is January 1 of the year 1; \<open>IsZero\<close> is
    equality with that instant. Locations and monotonic clock readings are not part of
    the value: no operation of the program reads them.
  \<^item> A Go \<open>time.Duration\<close> is an \<open>int64\<close> count of nanoseconds.
  \<^item> A Go map is an association list with distinct keys. The order of the list stands for
    the order in which \<open>range\<close> visits the map, which Go leaves open; results that do not
    depend on it are stated over every permutation.
  \<^item> A Go \<open>string\<close> is its list of bytes; \<open><\<close> on strings is the lexicographic order of
    the bytes.
\<close>

named_theorems go_defs \<open>definitions of the modelled fragment of the Go standard library\<close>
named_theorems state_simps \<open>facts on the lifecycle states and their ranks\<close>
named_theorems store_inv \<open>preservation of the store invariants\<close>

type_synonym gotime = int
type_synonym duration = int
type_synonym ('k, 'v) gomap = "('k \<times> 'v) list"

subsection \<open>Machine integers\<close>

definition int64 :: "int \<Rightarrow> int" where
  "int64 x = signed_take_bit 63 x"

abbreviation (input) maxInt64 :: int where "maxInt64 \<equiv> 9223372036854775807"
abbreviation (input) minInt64 :: int where "minInt64 \<equiv> - 9223372036854775808"

lemma int64_id: "minInt64 \<le> x \<Longrightarrow> x \<le> maxInt64 \<Longrightarrow> int64 x = x"
  by (simp add: int64_def signed_take_bit_int_eq_self)

lemma int64_range: "minInt64 \<le> int64 x \<and> int64 x \<le> maxInt64"
proof -
  have "- (2 ^ 63) \<le> signed_take_bit 63 x" and "signed_take_bit 63 x < 2 ^ 63"
    by (rule signed_take_bit_int_greater_eq_minus_exp, rule signed_take_bit_int_less_exp)
  then show ?thesis by (simp add: int64_def)
qed

subsection \<open>Instants and durations\<close>

definition zeroTime :: gotime where
  "zeroTime = - 62135596800000000000"

definition IsZero :: "gotime \<Rightarrow> bool" where
  "IsZero t \<longleftrightarrow> t = zeroTime"

definition After :: "gotime \<Rightarrow> gotime \<Rightarrow> bool" where
  "After t u \<longleftrightarrow> t > u"

definition Before :: "gotime \<Rightarrow> gotime \<Rightarrow> bool" where
  "Before t u \<longleftrightarrow> t < u"

definition UnixNano :: "gotime \<Rightarrow> int" where
  "UnixNano t = int64 t"

definition UnixMicro :: "gotime \<Rightarrow> int" where
  "UnixMicro t = int64 (t div 1000)"

definition Unix :: "gotime \<Rightarrow> int" where
  "Unix t = int64 (t div 1000000000)"

text \<open>\<open>time.Unix(sec, nsec)\<close> and \<open>time.UnixMicro(us)\<close> build an instant.\<close>

definition time_Unix :: "int \<Rightarrow> int \<Rightarrow> gotime" where
  "time_Unix sec nsec = sec * 1000000000 + nsec"

definition time_UnixMicro :: "int \<Rightarrow> gotime" where
  "time_UnixMicro us = us * 1000"

text \<open>\<open>Time.Sub\<close> (and so \<open>time.Since\<close>) saturates at the ends of \<open>int64\<close>.\<close>

definition time_Sub :: "gotime \<Rightarrow> gotime \<Rightarrow> duration" where
  "time_Sub t u = max minInt64 (min maxInt64 (t - u))"

definition time_Add :: "gotime \<Rightarrow> duration \<Rightarrow> gotime" where
  "time_Add t d = t + d"

abbreviation Microsecond :: duration where "Microsecond \<equiv> 1000"
abbreviation Millisecond :: duration where "Millisecond \<equiv> 1000000"
abbreviation Second :: duration where "Second \<equiv> 1000000000"
abbreviation Minute :: duration where "Minute \<equiv> 60000000000"
abbreviation Hour :: duration where "Hour \<equiv> 3600000000000"

text \<open>\<open>Duration.Microseconds\<close> truncates towards zero, as every integer division of Go.\<close>

definition Microseconds :: "duration \<Rightarrow> int" where
  "Microseconds d = d sdiv 1000"

lemmas go_time_defs =
  IsZero_def After_def Before_def UnixNano_def UnixMicro_def Unix_def
  time_Unix_def time_UnixMicro_def time_Sub_def time_Add_def Microseconds_def

declare go_time_defs [go_defs]

lemma sdiv_nonneg: "0 \<le> a \<Longrightarrow> 0 < b \<Longrightarrow> (a::int) sdiv b = a div b"
  by (cases "a = 0") (simp_all add: signed_divide_int_def)

lemma smod_nonneg: "0 \<le> a \<Longrightarrow> 0 < b \<Longrightarrow> (a::int) smod b = a mod b"
  by (cases "a = 0") (simp_all add: signed_modulo_int_def)

lemma sdiv_neg_le: "a < 0 \<Longrightarrow> 0 < b \<Longrightarrow> (a::int) sdiv b \<le> 0"
  by (simp add: signed_divide_int_def pos_imp_zdiv_nonneg_iff)

lemma not_zeroTime_nonneg [simp]: "0 \<le> t \<Longrightarrow> \<not> IsZero t"
  by (simp add: IsZero_def zeroTime_def)

subsection \<open>Errors and panics\<close>

text \<open>
  A run-time panic of Go (slice bounds, negative capacity, integer division by zero) ends
  the operation without a result: it is a value of the error type beside the errors the
  code returns.
\<close>

datatype go_panic = SliceBounds | MakeSliceCap | DivideByZero | NilMap | NilDeref

subsection \<open>Lists and folds\<close>

lemma fold_invariant:
  "P a \<Longrightarrow> (\<And>x b. x \<in> set xs \<Longrightarrow> P b \<Longrightarrow> P (f x b)) \<Longrightarrow> P (fold f xs a)"
  by (induction xs arbitrary: a) auto

lemma sum_list_length_filter_partition:
  fixes xs :: "'a list" and f :: "'a \<Rightarrow> 'k"
  assumes "distinct ks" and "\<And>x. x \<in> set xs \<Longrightarrow> f x \<in> set ks"
  shows "(\<Sum>k \<leftarrow> ks. length (filter (\<lambda>x. f x = k) xs)) = length xs"
  using assms(2)
proof (induction xs)
  case Nil
  show ?case by (induction ks) auto
next
  case (Cons x xs)
  have "(\<Sum>k \<leftarrow> ks. length (filter (\<lambda>y. f y = k) (x # xs)))
        = (\<Sum>k \<leftarrow> ks. (if f x = k then 1 else 0) + length (filter (\<lambda>y. f y = k) xs))"
    by (rule arg_cong [where f = sum_list]) simp
  also have "\<dots> = (\<Sum>k \<leftarrow> ks. if f x = k then 1 else 0) + length xs"
    using Cons by (simp add: sum_list_addf)
  also have "(\<Sum>k \<leftarrow> ks. if f x = k then 1 else 0) = (1::nat)"
    using assms(1) Cons.prems [of x]
    by (simp add: sum_list_distinct_conv_sum_set)
  finally show ?case by simp
qed

lemma mset_filter_cong: "mset xs = mset ys \<Longrightarrow> mset (filter P xs) = mset (filter P ys)"
  by simp

subsection \<open>Association lists as maps\<close>

abbreviation keys :: "('k, 'v) gomap \<Rightarrow> 'k list" where
  "keys m \<equiv> map fst m"

abbreviation wf_map :: "('k, 'v) gomap \<Rightarrow> bool" where
  "wf_map m \<equiv> distinct (map fst m)"

lemma map_of_update [simp]: "map_of (AList.update k v m) = (map_of m)(k \<mapsto> v)"
  by (rule AList.update_conv')

lemma map_of_delete [simp]: "map_of (AList.delete k m) = (map_of m)(k := None)"
  by (rule AList.delete_conv')

lemma wf_map_update [simp]: "wf_map m \<Longrightarrow> wf_map (AList.update k v m)"
  by (rule AList.distinct_update)

lemma wf_map_delete [simp]: "wf_map m \<Longrightarrow> wf_map (AList.delete k m)"
  by (rule AList.distinct_delete)

lemma wf_map_filter [simp]: "wf_map m \<Longrightarrow> wf_map (filter P m)"
  by (rule distinct_map_filter)

lemma wf_map_lookup: "wf_map m \<Longrightarrow> (k, v) \<in> set m \<longleftrightarrow> map_of m k = Some v"
  by (rule map_of_eq_Some_iff [symmetric])

lemma wf_map_map_of_filter:
  "wf_map m \<Longrightarrow>
   map_of (filter P m) k = (case map_of m k of None \<Rightarrow> None | Some v \<Rightarrow> if P (k, v) then Some v else None)"
proof (induction m)
  case Nil
  show ?case by simp
next
  case (Cons e m)
  obtain k' v' where e: "e = (k', v')" by (cases e)
  show ?case
  proof (cases "k = k'")
    case True
    with Cons.prems e have "map_of m k = None"
      by (simp add: map_of_eq_None_iff)
    with True Cons e show ?thesis by simp
  next
    case False
    with Cons e show ?thesis by simp
  qed
qed

lemma map_of_map_values:
  "map_of (map (\<lambda>(k, v). (k, f k v)) m) k = map_option (f k) (map_of m k)"
  by (induction m) auto

lemma keys_map_values [simp]: "keys (map (\<lambda>(k, v). (k, f k v)) m) = keys m"
  by (induction m) auto

lemma delete_conv_filter: "AList.delete k m = filter (\<lambda>e. fst e \<noteq> k) m"
  unfolding AList.delete_eq by (rule filter_cong) auto

text \<open>
  Two association lists with distinct keys hold the same map exactly when they are
  permutations of each other: the visiting order of \<open>range\<close> is all that can differ.
\<close>

lemma wf_map_perm:
  assumes "wf_map m" "wf_map m'"
  shows "mset m = mset m' \<longleftrightarrow> map_of m = map_of m'"
proof
  assume "mset m = mset m'"
  with assms show "map_of m = map_of m'"
    by (metis map_of_inject_set mset_eq_setD)
next
  assume "map_of m = map_of m'"
  with assms have "set m = set m'"
    by (metis map_of_inject_set)
  moreover have "distinct m" "distinct m'"
    using assms by (auto simp: distinct_map)
  ultimately show "mset m = mset m'"
    by (simp add: set_eq_iff_mset_eq_distinct)
qed

end
