(* ===== verification/Store_Types.thy ===== *)
theory Store_Types
  imports Go_Strings
begin

text \<open>
  The data model of \<open>store/store.go\<close>: lifecycle states and their ranks, jobs, attempts,
  filters, groups, buckets, and the composite row key.

  \<open>type State string\<close> is kept as a string: states arrive from query parameters and from
  cq as arbitrary strings, and \<open>Rank\<close> gives every string it does not know the terminal
  rank. Field names carry the prefix of their struct (\<open>job_\<close>, \<open>att_\<close>, \<open>f_\<close>, \<open>grp_\<close>, \<open>bkt_\<close>).
\<close>

subsection \<open>States\<close>

type_synonym State = string

definition StateCreated :: State where "StateCreated = ''created''"
definition StatePending :: State where "StatePending = ''pending''"
definition StateActive :: State where "StateActive = ''active''"
definition StateFailed :: State where "StateFailed = ''failed''"
definition StateCancelled :: State where "StateCancelled = ''cancelled''"
definition StateCompleted :: State where "StateCompleted = ''completed''"
definition StateDiscarded :: State where "StateDiscarded = ''discarded''"
definition StateAbandoned :: State where "StateAbandoned = ''abandoned''"
definition StateInterrupted :: State where "StateInterrupted = ''interrupted''"

lemmas State_defs =
  StateCreated_def StatePending_def StateActive_def StateFailed_def StateCancelled_def
  StateCompleted_def StateDiscarded_def StateAbandoned_def StateInterrupted_def

definition Rank :: "State \<Rightarrow> nat" where
  "Rank s =
     (if s = StateCreated then 0
      else if s = StatePending then 1
      else if s = StateActive then 2
      else 3)"

definition Terminal :: "State \<Rightarrow> bool" where
  "Terminal s \<longleftrightarrow> Rank s = 3"

definition FailureStates :: "State list" where
  "FailureStates =
     [StateFailed, StateCancelled, StateDiscarded, StateAbandoned, StateInterrupted]"

lemma Rank_le_3 [simp]: "Rank s \<le> 3"
  by (simp add: Rank_def)

lemma Rank_less_3 [state_simps]: "Rank s < 3 \<longleftrightarrow> \<not> Terminal s"
  by (auto simp: Rank_def Terminal_def)

lemma Terminal_iff [state_simps]:
  "Terminal s \<longleftrightarrow> s \<noteq> StateCreated \<and> s \<noteq> StatePending \<and> s \<noteq> StateActive"
  by (simp add: Terminal_def Rank_def)

lemma Rank_states [simp]:
  "Rank StateCreated = 0" "Rank StatePending = 1" "Rank StateActive = 2"
  "Rank StateFailed = 3" "Rank StateCancelled = 3" "Rank StateCompleted = 3"
  "Rank StateDiscarded = 3" "Rank StateAbandoned = 3" "Rank StateInterrupted = 3"
  by (simp_all add: Rank_def State_defs)

lemma Terminal_states [simp]:
  "\<not> Terminal StateCreated" "\<not> Terminal StatePending" "\<not> Terminal StateActive"
  "Terminal StateFailed" "Terminal StateCancelled" "Terminal StateCompleted"
  "Terminal StateDiscarded" "Terminal StateAbandoned" "Terminal StateInterrupted"
  by (simp_all add: Terminal_def)

lemma FailureStates_Terminal: "s \<in> set FailureStates \<Longrightarrow> Terminal s \<and> s \<noteq> StateCompleted"
  by (auto simp: FailureStates_def) (simp_all add: State_defs)

lemma distinct_FailureStates: "distinct FailureStates"
  by (simp add: FailureStates_def State_defs)

subsection \<open>Jobs and attempts\<close>

record job =
  job_Key :: string
  job_ID :: string
  job_Epoch :: string
  job_Queue :: string
  job_Name :: string
  job_State :: State
  job_Err :: string
  job_Pattern :: string
  job_RootID :: string
  job_Parent :: string
  job_Attributes :: "(string, string) gomap"
  job_EnqueuedAt :: gotime
  job_StartedAt :: gotime
  job_FinishedAt :: gotime
  job_WaitUS :: int
  job_ExecUS :: int
  job_Attempt :: int
  job_ProgressCompleted :: int
  job_ProgressTotal :: int
  job_ProgressStage :: string
  job_ProgressAt :: gotime

text \<open>The zero value \<open>store.Job{}\<close>.\<close>

definition zero_job :: job where
  "zero_job =
     \<lparr>job_Key = [], job_ID = [], job_Epoch = [], job_Queue = [], job_Name = [],
      job_State = [], job_Err = [], job_Pattern = [], job_RootID = [], job_Parent = [],
      job_Attributes = [], job_EnqueuedAt = zeroTime, job_StartedAt = zeroTime,
      job_FinishedAt = zeroTime, job_WaitUS = 0, job_ExecUS = 0, job_Attempt = 0,
      job_ProgressCompleted = 0, job_ProgressTotal = 0, job_ProgressStage = [],
      job_ProgressAt = zeroTime\<rparr>"

record attempt =
  att_JobID :: string
  att_Epoch :: string
  att_Queue :: string
  att_Attempt :: int
  att_State :: State
  att_Err :: string
  att_StartedAt :: gotime
  att_FinishedAt :: gotime

definition zero_attempt :: attempt where
  "zero_attempt =
     \<lparr>att_JobID = [], att_Epoch = [], att_Queue = [], att_Attempt = 0, att_State = [],
      att_Err = [], att_StartedAt = zeroTime, att_FinishedAt = zeroTime\<rparr>"

subsection \<open>Filters, groups and buckets\<close>

record job_filter =
  f_Queue :: string
  f_Name :: string
  f_Pattern :: string
  f_States :: "State list"
  f_Search :: string
  f_Before :: gotime
  f_AttrKey :: string
  f_AttrValue :: string
  f_Limit :: int
  f_Offset :: int

definition zero_filter :: job_filter where
  "zero_filter =
     \<lparr>f_Queue = [], f_Name = [], f_Pattern = [], f_States = [], f_Search = [],
      f_Before = zeroTime, f_AttrKey = [], f_AttrValue = [], f_Limit = 0, f_Offset = 0\<rparr>"

definition Active :: "job_filter \<Rightarrow> bool" where
  "Active f \<longleftrightarrow> f_Queue f \<noteq> [] \<or> f_Name f \<noteq> [] \<or> f_Pattern f \<noteq> [] \<or>
     f_Search f \<noteq> [] \<or> f_AttrKey f \<noteq> [] \<or> length (f_States f) > 0"

record group =
  grp_Pattern :: string
  grp_State :: State
  grp_Err :: string
  grp_Count :: nat
  grp_LastSeen :: gotime

record bucket =
  bkt_Start :: gotime
  bkt_Completed :: nat
  bkt_Failed :: nat

type_synonym Counts = "(State, nat) gomap"

subsection \<open>Row identity\<close>

definition KeyFor :: "string \<Rightarrow> string \<Rightarrow> string \<Rightarrow> string" where
  "KeyFor epoch queue id' = epoch @ '':'' @ queue @ '':'' @ id'"

lemma append_sep_inject:
  "c \<notin> set a \<Longrightarrow> c \<notin> set a' \<Longrightarrow> a @ c # b = a' @ c # b' \<longleftrightarrow> a = a' \<and> b = b'"
proof (induction a arbitrary: a')
  case Nil
  then show ?case by (cases a') auto
next
  case (Cons x a)
  then show ?case by (cases a') auto
qed

text \<open>
  The row key separates jobs. Two submissions whose epoch and queue name are free of
  colons get the same key only when they agree in epoch, queue and submission ID, so rows
  of different process runs or of sibling queues never meet.
\<close>

theorem KeyFor_inj:
  assumes "CHR '':'' \<notin> set e" "CHR '':'' \<notin> set e'" "CHR '':'' \<notin> set q" "CHR '':'' \<notin> set q'"
  shows "KeyFor e q i = KeyFor e' q' i' \<longleftrightarrow> e = e' \<and> q = q' \<and> i = i'"
  using assms by (simp add: KeyFor_def append_sep_inject)

theorem KeyFor_inj_witness:
  "KeyFor ''17-4'' ''demo'' ''1'' \<noteq> KeyFor ''17-4'' ''reports'' ''1''"
  using KeyFor_inj [of "''17-4''" "''17-4''" "''demo''" "''reports''" "''1''" "''1''"] by simp

text \<open>
  Colons are not excluded anywhere: a queue named \<open>a:b\<close> and a queue named \<open>a\<close> can share a
  row, and the records of two unrelated jobs are then merged.
\<close>

lemma KeyFor_collision:
  "KeyFor ''17-4'' ''a:b'' ''c'' = KeyFor ''17-4'' ''a'' ''b:c''"
  by (simp add: KeyFor_def)

end
