(* ===== verification/Normalize.thy ===== *)
theory Normalize
  imports Store_Types
begin

text \<open>
  \<open>store/normalize.go\<close>: job names are reduced to patterns by masking the segments that
  look like identifiers. The loop of \<open>NormalizeName\<close> is modelled with its four local
  variables; \<open>segs\<close> and \<open>render\<close> are the reference it is shown to implement.
\<close>

subsection \<open>The code\<close>

fun mask_counts :: "string \<Rightarrow> nat \<Rightarrow> nat \<Rightarrow> nat \<times> nat" where
  "mask_counts [] digits hex = (digits, hex)"
| "mask_counts (c # cs) digits hex =
     (if 48 \<le> byte c \<and> byte c \<le> 57 then mask_counts cs (digits + 1) (hex + 1)
      else if (97 \<le> byte c \<and> byte c \<le> 102) \<or> (65 \<le> byte c \<and> byte c \<le> 70)
      then mask_counts cs digits (hex + 1)
      else mask_counts cs digits hex)"

definition maskSegment :: "string \<Rightarrow> string" where
  "maskSegment segment =
     (if segment = [] then segment
      else let (digits, hex) = mask_counts segment 0 0
           in if digits > 0 then ''*''
              else if hex = length segment \<and> length segment \<ge> 8 then ''*''
              else segment)"

record norm_vars =
  nv_out :: string
  nv_segment :: string
  nv_separator :: char
  nv_hasSep :: bool

definition is_separator :: "char \<Rightarrow> bool" where
  "is_separator c \<longleftrightarrow> c \<in> {CHR ''-'', CHR ''_'', CHR '':'', CHR ''/'', CHR ''.''}"

definition norm_flush :: "norm_vars \<Rightarrow> norm_vars" where
  "norm_flush v =
     v\<lparr>nv_out := nv_out v @ (if nv_hasSep v then [nv_separator v] else []) @
                 maskSegment (nv_segment v),
       nv_segment := []\<rparr>"

definition norm_byte :: "char \<Rightarrow> norm_vars \<Rightarrow> norm_vars" where
  "norm_byte c v =
     (if is_separator c then (norm_flush v)\<lparr>nv_separator := c, nv_hasSep := True\<rparr>
      else v\<lparr>nv_segment := nv_segment v @ [c]\<rparr>)"

definition norm_init :: norm_vars where
  "norm_init = \<lparr>nv_out = [], nv_segment = [], nv_separator = CHR 0x00, nv_hasSep = False\<rparr>"

definition NormalizeName :: "string \<Rightarrow> string" where
  "NormalizeName name =
     (if name = [] then [] else nv_out (norm_flush (fold norm_byte name norm_init)))"

subsection \<open>The reference: segments between separators\<close>

text \<open>A name is its first segment followed by separators, each with the segment after it.\<close>

type_synonym segments = "string \<times> (char \<times> string) list"

fun segs :: "string \<Rightarrow> segments" where
  "segs [] = ([], [])"
| "segs (c # cs) =
     (let (s, r) = segs cs in if is_separator c then ([], (c, s) # r) else (c # s, r))"

fun render :: "segments \<Rightarrow> string" where
  "render (s, r) = s @ concat (map (\<lambda>(c, t). c # t) r)"

fun mask_segs :: "segments \<Rightarrow> segments" where
  "mask_segs (s, r) = (maskSegment s, map (\<lambda>(c, t). (c, maskSegment t)) r)"

definition no_sep :: "string \<Rightarrow> bool" where
  "no_sep s \<longleftrightarrow> list_all (\<lambda>c. \<not> is_separator c) s"

fun wf_segs :: "segments \<Rightarrow> bool" where
  "wf_segs (s, r) \<longleftrightarrow> no_sep s \<and> list_all (\<lambda>(c, t). is_separator c \<and> no_sep t) r"

lemma wf_segs_segs: "wf_segs (segs name)"
  by (induction name) (auto simp: no_sep_def split: prod.splits)

lemma render_segs: "render (segs name) = name"
  by (induction name) (auto split: prod.splits)

lemma segs_no_sep_append:
  "no_sep s \<Longrightarrow> segs (s @ t) = (s @ fst (segs t), snd (segs t))"
  by (induction s) (auto simp: no_sep_def split: prod.splits)

lemma segs_render: "wf_segs p \<Longrightarrow> segs (render p) = p"
proof (cases p)
  case (Pair s r)
  have "segs (concat (map (\<lambda>(c, t). c # t) r)) = ([], r)"
    if "list_all (\<lambda>(c, t). is_separator c \<and> no_sep t) r" for r
    using that by (induction r) (auto simp: segs_no_sep_append)
  then show "wf_segs p \<Longrightarrow> segs (render p) = p"
    using Pair by (simp add: segs_no_sep_append)
qed

subsection \<open>Masking one segment\<close>

definition is_hex :: "char \<Rightarrow> bool" where
  "is_hex c \<longleftrightarrow> is_digit c \<or> (97 \<le> byte c \<and> byte c \<le> 102) \<or> (65 \<le> byte c \<and> byte c \<le> 70)"

lemma mask_counts_eq:
  "mask_counts s d h = (d + length (filter is_digit s), h + length (filter is_hex s))"
  by (induction s d h rule: mask_counts.induct) (auto simp: is_digit_def is_hex_def)

lemma maskSegment_eq:
  "maskSegment s =
     (if list_ex is_digit s \<or> (list_all is_hex s \<and> length s \<ge> 8) then ''*'' else s)"
proof -
  have "length (filter is_digit s) > 0 \<longleftrightarrow> list_ex is_digit s"
    by (auto simp: list_ex_iff filter_empty_conv)
  moreover have "length (filter is_hex s) = length s \<longleftrightarrow> list_all is_hex s"
    by (metis filter_True length_filter_less list_all_iff nat_neq_iff)
  ultimately show ?thesis
    by (auto simp: maskSegment_def mask_counts_eq)
qed

lemma maskSegment_idem: "maskSegment (maskSegment s) = maskSegment s"
  by (simp add: maskSegment_eq is_digit_def byte_def)

lemma maskSegment_Nil [simp]: "maskSegment s = [] \<longleftrightarrow> s = []"
  by (auto simp: maskSegment_eq)

lemma no_sep_maskSegment [simp]: "no_sep s \<Longrightarrow> no_sep (maskSegment s)"
  by (simp add: maskSegment_eq no_sep_def is_separator_def)

lemma maskSegment_no_digit: "\<not> list_ex is_digit (maskSegment s)"
  by (simp add: maskSegment_eq is_digit_def byte_def)

lemma wf_segs_mask [simp]: "wf_segs p \<Longrightarrow> wf_segs (mask_segs p)"
  by (cases p) (auto simp: list_all_iff)

lemma mask_segs_idem: "mask_segs (mask_segs p) = mask_segs p"
  by (cases p) (auto simp: maskSegment_idem)

subsection \<open>The loop implements the reference\<close>

text \<open>What the loop variables stand for: the output so far, with the pending segment masked.\<close>

lemma norm_loop:
  "nv_out (norm_flush (fold norm_byte name v)) =
     nv_out v @ (if nv_hasSep v then [nv_separator v] else []) @
     (let (s, r) = segs name in render (mask_segs (nv_segment v @ s, r)))"
proof (induction name arbitrary: v)
  case Nil
  show ?case by (simp add: norm_flush_def)
next
  case (Cons c name)
  obtain s r where sr: "segs name = (s, r)" by (cases "segs name")
  show ?case
    by (simp add: Cons.IH sr) (simp add: norm_byte_def norm_flush_def)
qed

lemma NormalizeName_render: "NormalizeName name = render (mask_segs (segs name))"
  by (cases "segs name", cases "name = []")
    (simp_all add: NormalizeName_def norm_loop norm_init_def maskSegment_eq)

text \<open>
  C40. \<open>NormalizeName\<close> masks exactly the identifying segments: it cuts the name at the
  separators, replaces every segment that contains a digit or is a run of at least eight
  hexadecimal digits by a star, and puts the pieces back with their own separators.
\<close>

theorem NormalizeName_masks_segments:
  "NormalizeName name =
     render (mask_segs (segs name)) \<and>
   (\<forall>s. maskSegment s =
      (if list_ex is_digit s \<or> (list_all is_hex s \<and> length s \<ge> 8) then ''*'' else s))"
  by (simp add: NormalizeName_render maskSegment_eq)

lemma segs_NormalizeName: "segs (NormalizeName name) = mask_segs (segs name)"
  by (simp add: NormalizeName_render segs_render wf_segs_segs)

lemma NormalizeName_Nil_iff [simp]: "NormalizeName name = [] \<longleftrightarrow> name = []"
proof -
  obtain s r where "segs name = (s, r)" by (cases "segs name")
  then show ?thesis
    using render_segs [of name] by (cases r) (auto simp: NormalizeName_render)
qed

text \<open>
  Normalizing is stable: a pattern is its own pattern, it carries no digit, it has the
  separators of the name in their order, and it is empty only for the empty name.
\<close>

theorem NormalizeName_stable:
  "NormalizeName (NormalizeName name) = NormalizeName name \<and>
   \<not> list_ex is_digit (NormalizeName name) \<and>
   map fst (snd (segs (NormalizeName name))) = map fst (snd (segs name)) \<and>
   (NormalizeName name = [] \<longleftrightarrow> name = [])"
proof -
  obtain s r where sr: "segs name = (s, r)" by (cases "segs name")
  have wf: "wf_segs (s, r)" using wf_segs_segs [of name] by (simp add: sr)
  have "NormalizeName (NormalizeName name) = NormalizeName name"
    by (simp add: NormalizeName_render [of "NormalizeName name"] segs_NormalizeName mask_segs_idem)
      (simp add: NormalizeName_render)
  moreover have "\<not> is_digit c" if "is_separator c" for c
    using that by (auto simp: is_separator_def is_digit_def byte_def)
  then have "\<not> list_ex is_digit (NormalizeName name)"
    using wf maskSegment_no_digit
    by (auto simp: NormalizeName_render sr list_ex_iff list_all_iff)
  moreover have "map fst (snd (segs (NormalizeName name))) = map fst (snd (segs name))"
    by (simp add: segs_NormalizeName sr case_prod_unfold)
  ultimately show ?thesis by simp
qed

end
