(* ===== verification/Memory_Store.thy ===== *)
theory Memory_Store
  imports Normalize
begin

text \<open>
  The write side of \<open>store/memory/memory.go\<close>, the reference implementation of
  \<open>store.Store\<close>: \<open>UpsertJobs\<close> with \<open>merge\<close>, \<open>SaveAttempts\<close>, \<open>Heartbeat\<close>,
  \<open>ReconcileEpoch\<close> and \<open>Prune\<close>.

  Each operation holds the write lock from its first to its last statement, so an operation
  is one step of the model. The clock is an argument (\<open>now\<close>). \<open>maps.Clone\<close> is the identity
  on values. None of these operations can fail, so each returns the new store (and, where
  the code does, the number of rows touched).
\<close>

subsection \<open>The store\<close>

record mem_store =
  ms_jobs :: "(string, job) gomap"
  ms_attempts :: "(string, attempt list) gomap"
  ms_epochs :: "(string, gotime) gomap"

definition mem_Open :: mem_store where
  "mem_Open = \<lparr>ms_jobs = [], ms_attempts = [], ms_epochs = []\<rparr>"

subsection \<open>Upserting jobs\<close>

text \<open>
  Every guard of the Go function reads only the field (or the group of fields) it is about
  to write, so the sequence of conditional assignments is one record update.
\<close>

definition merge :: "job \<Rightarrow> job \<Rightarrow> job" where
  "merge existing incoming =
     existing\<lparr>
       job_State := (if Rank (job_State incoming) > Rank (job_State existing)
                     then job_State incoming else job_State existing),
       job_Queue := (if job_Queue existing = [] then job_Queue incoming else job_Queue existing),
       job_Name := (if job_Name existing = [] then job_Name incoming else job_Name existing),
       job_Pattern := (if job_Name existing = [] then job_Pattern incoming else job_Pattern existing),
       job_Err := (if job_Err incoming \<noteq> [] then job_Err incoming else job_Err existing),
       job_RootID := (if job_RootID existing = [] then job_RootID incoming else job_RootID existing),
       job_Parent := (if job_Parent existing = [] then job_Parent incoming else job_Parent existing),
       job_Attributes := (if length (job_Attributes incoming) > 0
                          then job_Attributes incoming else job_Attributes existing),
       job_EnqueuedAt := (if IsZero (job_EnqueuedAt existing)
                          then job_EnqueuedAt incoming else job_EnqueuedAt existing),
       job_StartedAt := (if IsZero (job_StartedAt existing)
                         then job_StartedAt incoming else job_StartedAt existing),
       job_FinishedAt := (if \<not> IsZero (job_FinishedAt incoming)
                          then job_FinishedAt incoming else job_FinishedAt existing),
       job_WaitUS := (if job_WaitUS incoming \<noteq> 0 then job_WaitUS incoming else job_WaitUS existing),
       job_ExecUS := (if job_ExecUS incoming \<noteq> 0 then job_ExecUS incoming else job_ExecUS existing),
       job_Attempt := (if job_Attempt incoming > job_Attempt existing
                       then job_Attempt incoming else job_Attempt existing),
       job_ProgressCompleted := (if After (job_ProgressAt incoming) (job_ProgressAt existing)
                                 then job_ProgressCompleted incoming else job_ProgressCompleted existing),
       job_ProgressTotal := (if After (job_ProgressAt incoming) (job_ProgressAt existing)
                             then job_ProgressTotal incoming else job_ProgressTotal existing),
       job_ProgressStage := (if After (job_ProgressAt incoming) (job_ProgressAt existing)
                             then job_ProgressStage incoming else job_ProgressStage existing),
       job_ProgressAt := (if After (job_ProgressAt incoming) (job_ProgressAt existing)
                          then job_ProgressAt incoming else job_ProgressAt existing)\<rparr>"

definition record_key :: "job \<Rightarrow> string" where
  "record_key j = KeyFor (job_Epoch j) (job_Queue j) (job_ID j)"

text \<open>The record as it is stored: with its key and its pattern.\<close>

definition stamped :: "job \<Rightarrow> job" where
  "stamped j = j\<lparr>job_Key := record_key j, job_Pattern := NormalizeName (job_Name j)\<rparr>"

definition upsert_job :: "job \<Rightarrow> (string, job) gomap \<Rightarrow> (string, job) gomap" where
  "upsert_job incoming jobs =
     (let key = record_key incoming;
          incoming = stamped incoming
      in case map_of jobs key of
           None \<Rightarrow> AList.update key incoming jobs
         | Some existing \<Rightarrow> AList.update key (merge existing incoming) jobs)"

definition mem_UpsertJobs :: "mem_store \<Rightarrow> job list \<Rightarrow> mem_store" where
  "mem_UpsertJobs s jobs = s\<lparr>ms_jobs := fold upsert_job jobs (ms_jobs s)\<rparr>"

subsection \<open>Saving attempts\<close>

text \<open>The inner loop: the first record of the same attempt number and start is replaced.\<close>

fun save_attempt_in :: "attempt \<Rightarrow> attempt list \<Rightarrow> attempt list" where
  "save_attempt_in incoming [] = [incoming]"
| "save_attempt_in incoming (existing # rest) =
     (if att_Attempt existing \<noteq> att_Attempt incoming \<or>
         att_StartedAt existing \<noteq> att_StartedAt incoming
      then existing # save_attempt_in incoming rest
      else incoming\<lparr>
             att_Err := (if att_Err incoming = [] then att_Err existing else att_Err incoming),
             att_FinishedAt := (if IsZero (att_FinishedAt incoming)
                                then att_FinishedAt existing else att_FinishedAt incoming)\<rparr> # rest)"

definition attempt_key :: "attempt \<Rightarrow> string" where
  "attempt_key a = KeyFor (att_Epoch a) (att_Queue a) (att_JobID a)"

definition attempts_at :: "(string, attempt list) gomap \<Rightarrow> string \<Rightarrow> attempt list" where
  "attempts_at m key = (case map_of m key of None \<Rightarrow> [] | Some as \<Rightarrow> as)"

definition save_attempt ::
    "attempt \<Rightarrow> (string, attempt list) gomap \<Rightarrow> (string, attempt list) gomap" where
  "save_attempt incoming m =
     (let key = attempt_key incoming
      in AList.update key (save_attempt_in incoming (attempts_at m key)) m)"

definition mem_SaveAttempts :: "mem_store \<Rightarrow> attempt list \<Rightarrow> mem_store" where
  "mem_SaveAttempts s attempts = s\<lparr>ms_attempts := fold save_attempt attempts (ms_attempts s)\<rparr>"

subsection \<open>Heartbeats and reconciliation\<close>

definition mem_Heartbeat :: "mem_store \<Rightarrow> string \<Rightarrow> gotime \<Rightarrow> mem_store" where
  "mem_Heartbeat s epoch seenAt = s\<lparr>ms_epochs := AList.update epoch seenAt (ms_epochs s)\<rparr>"

text \<open>A sibling still beating owns its jobs.\<close>

definition still_beating :: "(string, gotime) gomap \<Rightarrow> gotime \<Rightarrow> string \<Rightarrow> bool" where
  "still_beating epochs cutoff e =
     (case map_of epochs e of
        None \<Rightarrow> False
      | Some seen \<Rightarrow> \<not> IsZero seen \<and> \<not> Before seen cutoff)"

fun reconcile_loop ::
    "string \<Rightarrow> gotime \<Rightarrow> (string, gotime) gomap \<Rightarrow> (string, job) gomap \<Rightarrow> (string, job) gomap \<times> nat" where
  "reconcile_loop epoch cutoff epochs [] = ([], 0)"
| "reconcile_loop epoch cutoff epochs ((key, j) # rest) =
     (let (rest', changed) = reconcile_loop epoch cutoff epochs rest
      in if job_Epoch j = epoch \<or> Terminal (job_State j) then ((key, j) # rest', changed)
         else if still_beating epochs cutoff (job_Epoch j) then ((key, j) # rest', changed)
         else ((key, j\<lparr>job_State := StateInterrupted\<rparr>) # rest', changed + 1))"

definition mem_ReconcileEpoch ::
    "gotime \<Rightarrow> mem_store \<Rightarrow> string \<Rightarrow> duration \<Rightarrow> mem_store \<times> nat" where
  "mem_ReconcileEpoch now s epoch staleAfter =
     (let cutoff = time_Add now (- staleAfter);
          (jobs, changed) = reconcile_loop epoch cutoff (ms_epochs s) (ms_jobs s)
      in (s\<lparr>ms_jobs := jobs\<rparr>, changed))"

subsection \<open>Pruning\<close>

definition lastActive :: "job \<Rightarrow> gotime" where
  "lastActive j =
     (if After (job_FinishedAt j) (job_EnqueuedAt j) then job_FinishedAt j else job_EnqueuedAt j)"

fun prune_entry ::
    "gotime \<Rightarrow> State list \<Rightarrow> string \<times> job \<Rightarrow>
     (string, job) gomap \<times> (string, attempt list) gomap \<times> nat \<Rightarrow>
     (string, job) gomap \<times> (string, attempt list) gomap \<times> nat" where
  "prune_entry before wanted (key, j) (jobs, attempts, removed) =
     (if \<not> Terminal (job_State j) \<or> \<not> Before (lastActive j) before then (jobs, attempts, removed)
      else if length wanted > 0 \<and> job_State j \<notin> set wanted then (jobs, attempts, removed)
      else (AList.delete key jobs, AList.delete key attempts, removed + 1))"

definition mem_Prune :: "mem_store \<Rightarrow> gotime \<Rightarrow> State list \<Rightarrow> mem_store \<times> nat" where
  "mem_Prune s before states =
     (if IsZero before then (s, 0)
      else let (jobs, attempts, removed) =
                 fold (prune_entry before states) (ms_jobs s) (ms_jobs s, ms_attempts s, 0)
           in (s\<lparr>ms_jobs := jobs, ms_attempts := attempts\<rparr>, removed))"

lemma lastActive_max: "lastActive j = max (job_FinishedAt j) (job_EnqueuedAt j)"
  by (simp add: lastActive_def After_def)

subsection \<open>Merging is a band\<close>

lemma merge_assoc: "merge (merge a b) c = merge a (merge b c)"
  by (rule job.equality) (auto simp: merge_def After_def)

lemma merge_idem: "merge a a = a"
  by (rule job.equality) (auto simp: merge_def After_def)

lemma merge_keeps [simp]:
  "job_Key (merge a b) = job_Key a"
  "job_ID (merge a b) = job_ID a"
  "job_Epoch (merge a b) = job_Epoch a"
  by (simp_all add: merge_def)

lemma merge_Rank: "Rank (job_State (merge a b)) = max (Rank (job_State a)) (Rank (job_State b))"
  by (simp add: merge_def)

lemma merge_Pattern:
  "job_Pattern a = NormalizeName (job_Name a) \<Longrightarrow> job_Pattern b = NormalizeName (job_Name b) \<Longrightarrow>
   job_Pattern (merge a b) = NormalizeName (job_Name (merge a b))"
  by (simp add: merge_def)

end
