(* ===== verification/Memory_Laws.thy ===== *)
theory Memory_Laws
  imports Memory_Store
begin

text \<open>
  What the write operations of the in-memory store guarantee: how batches of records
  combine, that nothing a job has reached is ever undone, which rows reconciliation and
  pruning touch, and the well-formedness invariant of every reachable store.
\<close>

subsection \<open>A batch acts on each key separately\<close>

definition absorb :: "job \<Rightarrow> job option \<Rightarrow> job option" where
  "absorb incoming stored =
     Some (case stored of None \<Rightarrow> stamped incoming | Some existing \<Rightarrow> merge existing (stamped incoming))"

abbreviation records_for :: "string \<Rightarrow> job list \<Rightarrow> job list" where
  "records_for k \<equiv> filter (\<lambda>j. record_key j = k)"

lemma map_of_upsert_job:
  "map_of (upsert_job j m) k = (if k = record_key j then absorb j (map_of m k) else map_of m k)"
  by (simp add: upsert_job_def absorb_def Let_def split: option.splits)

lemma map_of_fold_upsert:
  "map_of (fold upsert_job js m) k = fold absorb (records_for k js) (map_of m k)"
  by (induction js arbitrary: m) (auto simp: map_of_upsert_job)

lemma UpsertJobs_lookup:
  "map_of (ms_jobs (mem_UpsertJobs s js)) k = fold absorb (records_for k js) (map_of (ms_jobs s) k)"
  by (simp add: mem_UpsertJobs_def map_of_fold_upsert)

text \<open>Since merging is associative, the records of one key can be merged among themselves first.\<close>

abbreviation merge_all :: "job list \<Rightarrow> job \<Rightarrow> job" where
  "merge_all \<equiv> fold (\<lambda>j e. merge e (stamped j))"

definition coalesce :: "job \<Rightarrow> job list \<Rightarrow> job" where
  "coalesce x xs = merge_all xs (stamped x)"

lemma fold_absorb_Some:
  "fold absorb xs (Some e) = Some (merge_all xs e)"
  by (induction xs arbitrary: e) (auto simp: absorb_def)

lemma fold_merge_assoc:
  "merge_all xs (merge a b) = merge a (merge_all xs b)"
  by (induction xs arbitrary: b) (auto simp: merge_assoc)

lemma fold_absorb_coalesce:
  "fold absorb (x # xs) None = Some (coalesce x xs)"
  "fold absorb (x # xs) (Some e) = Some (merge e (coalesce x xs))"
  by (simp_all add: absorb_def coalesce_def fold_absorb_Some fold_merge_assoc)

lemma fold_absorb_replay: "fold absorb xs (fold absorb xs st) = fold absorb xs st"
proof (cases xs)
  case Nil
  then show ?thesis by simp
next
  case (Cons x xs')
  show ?thesis
    by (cases st) (simp_all only: Cons fold_absorb_coalesce merge_assoc merge_idem)
qed

text \<open>
  Replaying a batch changes nothing. A batch that reaches the store twice (a retried
  write) leaves every row as the first delivery left it.
\<close>

theorem UpsertJobs_replay:
  "map_of (ms_jobs (mem_UpsertJobs (mem_UpsertJobs s js) js)) = map_of (ms_jobs (mem_UpsertJobs s js))"
  by (rule ext) (simp add: UpsertJobs_lookup fold_absorb_replay)

text \<open>
  Only the order of the records of one job matters. Two batches that give each key the
  same sequence of records, however the jobs are interleaved, leave the same rows.
\<close>

theorem UpsertJobs_interleaving:
  assumes "\<And>k. records_for k xs = records_for k ys"
  shows "map_of (ms_jobs (mem_UpsertJobs s xs)) = map_of (ms_jobs (mem_UpsertJobs s ys))"
  by (rule ext) (simp add: UpsertJobs_lookup assms)

theorem UpsertJobs_interleaving_witness:
  "map_of (ms_jobs (mem_UpsertJobs mem_Open
     [zero_job\<lparr>job_ID := ''1''\<rparr>, zero_job\<lparr>job_ID := ''2''\<rparr>])) =
   map_of (ms_jobs (mem_UpsertJobs mem_Open
     [zero_job\<lparr>job_ID := ''2''\<rparr>, zero_job\<lparr>job_ID := ''1''\<rparr>]))"
  by (rule UpsertJobs_interleaving) (auto simp: record_key_def KeyFor_def zero_job_def)

subsection \<open>States only advance\<close>

lemma Rank_inj: "\<not> Terminal s \<Longrightarrow> Rank s = Rank t \<Longrightarrow> s = t"
  by (auto simp: Rank_def Terminal_def split: if_splits)

lemma stamped_simps [simp]:
  "job_State (stamped j) = job_State j" "job_Key (stamped j) = record_key j"
  "job_Name (stamped j) = job_Name j" "job_Pattern (stamped j) = NormalizeName (job_Name j)"
  "job_ID (stamped j) = job_ID j" "job_Epoch (stamped j) = job_Epoch j"
  "job_Queue (stamped j) = job_Queue j"
  by (simp_all add: stamped_def)

text \<open>
  The state a run of merges ends in: one of the states involved, of the highest rank, and
  the stored one if that was terminal.
\<close>

lemma merge_State_cases:
  "job_State (merge a b) = job_State a \<and> Rank (job_State b) \<le> Rank (job_State a) \<or>
   job_State (merge a b) = job_State b \<and> \<not> Terminal (job_State a) \<and>
     Rank (job_State a) < Rank (job_State b)"
  using Rank_le_3 [of "job_State b"] by (auto simp: merge_def Terminal_def simp del: Rank_le_3)

lemma merge_State_mem: "job_State (merge a b) = job_State a \<or> job_State (merge a b) = job_State b"
  using merge_State_cases [of a b] by blast

lemma merge_State_upper:
  "Rank (job_State a) \<le> Rank (job_State (merge a b)) \<and> Rank (job_State b) \<le> Rank (job_State (merge a b))"
  by (simp add: merge_Rank)

lemma merge_State_terminal: "Terminal (job_State a) \<Longrightarrow> job_State (merge a b) = job_State a"
  using merge_State_cases [of a b] by blast

lemma merge_all_State_mem: "job_State (merge_all rs e) \<in> insert (job_State e) (job_State ` set rs)"
proof (induction rs arbitrary: e)
  case (Cons r rs)
  show ?case
    using Cons.IH [of "merge e (stamped r)"] merge_State_mem [of e "stamped r"] by auto
qed simp

lemma merge_all_State_upper:
  "r \<in> insert e (set rs) \<Longrightarrow> Rank (job_State r) \<le> Rank (job_State (merge_all rs e))"
proof (induction rs arbitrary: e r)
  case (Cons x rs)
  have "Rank (job_State r) \<le> Rank (job_State (merge e (stamped x)))" if "r = e \<or> r = x"
    using that merge_State_upper [of e "stamped x"] by auto
  also have "\<dots> \<le> Rank (job_State (merge_all rs (merge e (stamped x))))"
    by (rule Cons.IH) simp
  finally show ?case using Cons.prems Cons.IH [of r "merge e (stamped x)"] by auto
qed simp

lemma merge_all_State_terminal:
  "Terminal (job_State e) \<Longrightarrow> job_State (merge_all rs e) = job_State e"
  by (induction rs arbitrary: e) (simp_all add: merge_State_terminal)

lemma fold_merge_State_order_free:
  assumes perm: "mset rs = mset rs'"
    and one: "\<And>a b. a \<in> set rs \<Longrightarrow> b \<in> set rs \<Longrightarrow> Terminal (job_State a) \<Longrightarrow>
                 Terminal (job_State b) \<Longrightarrow> job_State a = job_State b"
  shows "job_State (merge_all rs e) =
         job_State (merge_all rs' e)"
    (is "job_State ?j = job_State ?j'")
proof (cases "Terminal (job_State e)")
  case True
  then show ?thesis by (simp add: merge_all_State_terminal)
next
  case False
  have set_eq: "set rs = set rs'" using perm by (rule mset_eq_setD)
  note mem = merge_all_State_mem [of rs e] merge_all_State_mem [of rs' e]
  have "Rank (job_State ?j) = Rank (job_State ?j')"
    using mem merge_all_State_upper [of _ e rs] merge_all_State_upper [of _ e rs']
    unfolding set_eq by (intro antisym) auto
  moreover have "job_State ?j = job_State ?j'"
    if "Terminal (job_State ?j)" "Terminal (job_State ?j')"
    using mem that False one unfolding set_eq by auto
  ultimately show ?thesis
    using Rank_inj by (metis Terminal_def)
qed

lemma fold_absorb_State_order_free:
  assumes "mset rs = mset rs'"
    and "\<And>a b. a \<in> set rs \<Longrightarrow> b \<in> set rs \<Longrightarrow> Terminal (job_State a) \<Longrightarrow>
                 Terminal (job_State b) \<Longrightarrow> job_State a = job_State b"
  shows "map_option job_State (fold absorb rs st) = map_option job_State (fold absorb rs' st)"
proof (cases st)
  case (Some e)
  then show ?thesis
    using fold_merge_State_order_free [OF assms] by (simp add: fold_absorb_Some)
next
  case None
  show ?thesis
  proof (cases rs)
    case Nil
    with assms(1) show ?thesis by simp
  next
    case (Cons x xs)
    with assms(1) obtain y ys where rs': "rs' = y # ys" by (cases rs') auto
    text \<open>An absent row behaves as a blank row in the lowest state.\<close>
    let ?e = "zero_job\<lparr>job_State := StateCreated\<rparr>"
    have blank: "job_State (merge ?e (stamped z)) = job_State z" for z
      using merge_State_cases [of ?e "stamped z"] Rank_inj [of "job_State z" StateCreated]
      by (auto simp: Terminal_def)
    have eq: "job_State (merge_all zs a) =
              job_State (merge_all zs b)"
      if "job_State a = job_State b" for zs a b
      using that by (induction zs arbitrary: a b) (auto simp: merge_def)
    show ?thesis
      using fold_merge_State_order_free [OF assms, of ?e]
        eq [of "merge ?e (stamped x)" "stamped x" xs] eq [of "merge ?e (stamped y)" "stamped y" ys]
      by (simp add: None Cons rs' absorb_def fold_absorb_Some blank)
  qed
qed

text \<open>
  C31. Hook delivery may be unordered. Whatever order the records of a batch arrive in, a
  job ends in the same state, provided the batch does not carry two different terminal
  outcomes for it (then the first one delivered is kept).
\<close>

theorem UpsertJobs_state_order_free:
  assumes "mset js' = mset js"
    and "\<And>a b. a \<in> set js \<Longrightarrow> b \<in> set js \<Longrightarrow> record_key a = k \<Longrightarrow> record_key b = k \<Longrightarrow>
           Terminal (job_State a) \<Longrightarrow> Terminal (job_State b) \<Longrightarrow> job_State a = job_State b"
  shows "map_option job_State (map_of (ms_jobs (mem_UpsertJobs s js')) k) =
         map_option job_State (map_of (ms_jobs (mem_UpsertJobs s js)) k)"
  unfolding UpsertJobs_lookup
proof (rule fold_absorb_State_order_free [symmetric])
  from assms(1) show "mset (records_for k js) = mset (records_for k js')" by simp
qed (use assms(2) in auto)

theorem UpsertJobs_state_order_free_witness:
  "map_option job_State (map_of (ms_jobs (mem_UpsertJobs mem_Open
     [zero_job\<lparr>job_State := StateCompleted\<rparr>, zero_job\<lparr>job_State := StateCreated\<rparr>])) ''::'') =
   map_option job_State (map_of (ms_jobs (mem_UpsertJobs mem_Open
     [zero_job\<lparr>job_State := StateCreated\<rparr>, zero_job\<lparr>job_State := StateCompleted\<rparr>])) ''::'')"
  by (rule UpsertJobs_state_order_free) (auto simp: add_mset_commute)

subsection \<open>Reconciliation\<close>

definition orphaned :: "string \<Rightarrow> gotime \<Rightarrow> (string, gotime) gomap \<Rightarrow> job \<Rightarrow> bool" where
  "orphaned epoch cutoff epochs j \<longleftrightarrow>
     \<not> Terminal (job_State j) \<and> job_Epoch j \<noteq> epoch \<and> \<not> still_beating epochs cutoff (job_Epoch j)"

definition interrupt :: "string \<Rightarrow> gotime \<Rightarrow> (string, gotime) gomap \<Rightarrow> job \<Rightarrow> job" where
  "interrupt epoch cutoff epochs j =
     (if orphaned epoch cutoff epochs j then j\<lparr>job_State := StateInterrupted\<rparr> else j)"

lemma reconcile_loop_eq:
  "reconcile_loop epoch cutoff epochs m =
     (map (\<lambda>(k, j). (k, interrupt epoch cutoff epochs j)) m,
      length (filter (\<lambda>(k, j). orphaned epoch cutoff epochs j) m))"
  by (induction m) (auto simp: interrupt_def orphaned_def split: prod.splits)

lemma ReconcileEpoch_eq:
  "mem_ReconcileEpoch now s epoch staleAfter =
     (s\<lparr>ms_jobs := map (\<lambda>(k, j). (k, interrupt epoch (now - staleAfter) (ms_epochs s) j)) (ms_jobs s)\<rparr>,
      length (filter (\<lambda>(k, j). orphaned epoch (now - staleAfter) (ms_epochs s) j) (ms_jobs s)))"
  by (simp add: mem_ReconcileEpoch_def reconcile_loop_eq time_Add_def Let_def)

lemma ReconcileEpoch_lookup:
  "map_of (ms_jobs (fst (mem_ReconcileEpoch now s epoch staleAfter))) k =
     map_option (interrupt epoch (now - staleAfter) (ms_epochs s)) (map_of (ms_jobs s) k)"
  by (simp add: ReconcileEpoch_eq map_of_map_values)

lemma interrupt_not_orphaned:
  "\<not> orphaned epoch cutoff epochs (interrupt epoch cutoff epochs j)"
  by (cases "orphaned epoch cutoff epochs j") (simp_all add: interrupt_def orphaned_def)

lemma length_filter_wf_map:
  "wf_map m \<Longrightarrow> length (filter (\<lambda>(k, v). P v) m) = card {k. \<exists>v. map_of m k = Some v \<and> P v}"
proof -
  assume wf: "wf_map m"
  have "length (filter (\<lambda>(k, v). P v) m) = length (map fst (filter (\<lambda>(k, v). P v) m))" by simp
  also have "\<dots> = card (set (map fst (filter (\<lambda>(k, v). P v) m)))"
    using wf by (intro distinct_card [symmetric]) (rule distinct_map_filter)
  also have "set (map fst (filter (\<lambda>(k, v). P v) m)) = {k. \<exists>v. map_of m k = Some v \<and> P v}"
    using wf by (force simp: map_of_eq_Some_iff)
  finally show ?thesis .
qed

text \<open>The contract's reading of abandoned work, over the heartbeats themselves.\<close>

definition abandoned :: "gotime \<Rightarrow> duration \<Rightarrow> string \<Rightarrow> mem_store \<Rightarrow> job \<Rightarrow> bool" where
  "abandoned now staleAfter epoch s j \<longleftrightarrow>
     \<not> Terminal (job_State j) \<and> job_Epoch j \<noteq> epoch \<and>
     \<not> (\<exists>seen. map_of (ms_epochs s) (job_Epoch j) = Some seen \<and>
             seen \<noteq> zeroTime \<and> now - staleAfter \<le> seen)"

lemma orphaned_iff:
  "orphaned epoch (now - staleAfter) (ms_epochs s) j \<longleftrightarrow> abandoned now staleAfter epoch s j"
  unfolding orphaned_def abandoned_def still_beating_def
  by (auto simp: IsZero_def Before_def split: option.splits)

text \<open>
  C7. Reconciliation interrupts exactly the abandoned work. A row changes only when it is
  unfinished, belongs to another epoch, and that epoch has no heartbeat at or after the
  cutoff (none at all, a retired one, or a stale one); then only its state changes, to
  interrupted. The returned number is the number of rows changed, and running the same
  reconciliation again finds nothing left to do.
\<close>

theorem ReconcileEpoch_exact:
  assumes "wf_map (ms_jobs s)"
  shows "map_of (ms_jobs (fst (mem_ReconcileEpoch now s epoch staleAfter))) k =
           map_option (\<lambda>j. if abandoned now staleAfter epoch s j then j\<lparr>job_State := StateInterrupted\<rparr> else j)
             (map_of (ms_jobs s) k) \<and>
         snd (mem_ReconcileEpoch now s epoch staleAfter) =
           card {k. \<exists>j. map_of (ms_jobs s) k = Some j \<and> abandoned now staleAfter epoch s j} \<and>
         snd (mem_ReconcileEpoch now (fst (mem_ReconcileEpoch now s epoch staleAfter)) epoch staleAfter) = 0"
proof -
  have "snd (mem_ReconcileEpoch now (fst (mem_ReconcileEpoch now s epoch staleAfter)) epoch staleAfter) = 0"
    by (auto simp: ReconcileEpoch_eq filter_empty_conv interrupt_not_orphaned)
  moreover have "snd (mem_ReconcileEpoch now s epoch staleAfter) =
      card {k. \<exists>j. map_of (ms_jobs s) k = Some j \<and> abandoned now staleAfter epoch s j}"
    using length_filter_wf_map [OF assms, of "abandoned now staleAfter epoch s"]
    by (simp add: ReconcileEpoch_eq orphaned_iff)
  ultimately show ?thesis
    by (simp add: ReconcileEpoch_lookup interrupt_def orphaned_iff cong: option.map_cong)
qed

theorem ReconcileEpoch_exact_witness:
  "map_of (ms_jobs (fst (mem_ReconcileEpoch 0 (mem_UpsertJobs mem_Open
     [zero_job\<lparr>job_Epoch := ''a'', job_State := StateActive\<rparr>]) ''b'' 60))) ''a::'' =
   Some (stamped (zero_job\<lparr>job_Epoch := ''a'', job_State := StateActive\<rparr>)
           \<lparr>job_State := StateInterrupted\<rparr>)"
proof -
  let ?s = "mem_UpsertJobs mem_Open [zero_job\<lparr>job_Epoch := ''a'', job_State := StateActive\<rparr>]"
  have "wf_map (ms_jobs ?s)"
    by (simp add: mem_UpsertJobs_def mem_Open_def upsert_job_def)
  from ReconcileEpoch_exact [OF this, of 0 "''b''" 60 "''a::''"] show ?thesis
    by (simp add: abandoned_def mem_UpsertJobs_def mem_Open_def upsert_job_def record_key_def KeyFor_def zero_job_def)
qed

text \<open>
  A live sibling keeps its work. Once an epoch has recorded a heartbeat, no other
  process that reconciles within the staleness window touches a row of that epoch, and a
  retired epoch (a heartbeat of the zero time) protects nothing.
\<close>

theorem Heartbeat_protects_sibling:
  assumes "map_of (ms_jobs s) k = Some j" "job_Epoch j = e" "e \<noteq> other" "\<not> Terminal (job_State j)"
  shows "(seenAt \<noteq> zeroTime \<and> now - staleAfter \<le> seenAt \<longrightarrow>
           map_of (ms_jobs (fst (mem_ReconcileEpoch now (mem_Heartbeat s e seenAt) other staleAfter))) k
             = Some j) \<and>
         map_of (ms_jobs (fst (mem_ReconcileEpoch now (mem_Heartbeat s e zeroTime) other staleAfter))) k
             = Some (j\<lparr>job_State := StateInterrupted\<rparr>)"
  using assms
  by (auto simp: ReconcileEpoch_lookup interrupt_def orphaned_def still_beating_def
      mem_Heartbeat_def IsZero_def Before_def)

theorem Heartbeat_protects_sibling_witness:
  "let s = mem_UpsertJobs mem_Open [zero_job\<lparr>job_Epoch := ''a'', job_State := StateActive\<rparr>]
   in map_of (ms_jobs (fst (mem_ReconcileEpoch 100 (mem_Heartbeat s ''a'' 50) ''b'' 60))) ''a::'' =
      map_of (ms_jobs s) ''a::''"
  using Heartbeat_protects_sibling
    [of "mem_UpsertJobs mem_Open [zero_job\<lparr>job_Epoch := ''a'', job_State := StateActive\<rparr>]" "''a::''"
        "stamped (zero_job\<lparr>job_Epoch := ''a'', job_State := StateActive\<rparr>)" "''a''" "''b''" 50 100 60]
  by (simp add: mem_UpsertJobs_def mem_Open_def upsert_job_def record_key_def KeyFor_def
      zero_job_def stamped_def zeroTime_def)

subsection \<open>Pruning\<close>

definition prunable :: "gotime \<Rightarrow> State list \<Rightarrow> job \<Rightarrow> bool" where
  "prunable before states j \<longleftrightarrow>
     Terminal (job_State j) \<and> max (job_FinishedAt j) (job_EnqueuedAt j) < before \<and>
     (states = [] \<or> job_State j \<in> set states)"

lemma prune_entry_eq:
  "prune_entry before states (k, j) (jobs, attempts, n) =
     (if prunable before states j then (AList.delete k jobs, AList.delete k attempts, n + 1)
      else (jobs, attempts, n))"
  by (auto simp: prunable_def lastActive_max Before_def)

declare prune_entry.simps [simp del]

definition doomed :: "gotime \<Rightarrow> State list \<Rightarrow> (string, job) gomap \<Rightarrow> string set" where
  "doomed before states es = fst ` set (filter (\<lambda>(k, j). prunable before states j) es)"

lemma doomed_simps [simp]:
  "doomed before states [] = {}"
  "doomed before states ((k, j) # es) =
     (if prunable before states j then insert k (doomed before states es)
      else doomed before states es)"
  by (simp_all add: doomed_def)

lemma doomed_iff:
  "wf_map es \<Longrightarrow>
   k \<in> doomed before states es \<longleftrightarrow> (\<exists>j. map_of es k = Some j \<and> prunable before states j)"
  by (force simp: doomed_def map_of_eq_Some_iff)

lemma fold_prune_entry:
  "fold (prune_entry before states) es (jobs, attempts, n) =
     (filter (\<lambda>e. fst e \<notin> doomed before states es) jobs,
      filter (\<lambda>e. fst e \<notin> doomed before states es) attempts,
      n + length (filter (\<lambda>(k, j). prunable before states j) es))"
proof (induction es arbitrary: jobs attempts n)
  case Nil
  show ?case by simp
next
  case (Cons e es)
  obtain k j where e: "e = (k, j)" by (cases e)
  show ?case
    by (simp add: e prune_entry_eq Cons.IH delete_conv_filter)
qed

lemma Prune_eq:
  assumes "\<not> IsZero before"
  shows "mem_Prune s before states =
     (s\<lparr>ms_jobs := filter (\<lambda>e. fst e \<notin> doomed before states (ms_jobs s)) (ms_jobs s),
        ms_attempts := filter (\<lambda>e. fst e \<notin> doomed before states (ms_jobs s)) (ms_attempts s)\<rparr>,
      length (filter (\<lambda>(k, j). prunable before states j) (ms_jobs s)))"
  using assms by (simp add: mem_Prune_def fold_prune_entry Let_def)

text \<open>
  C9. Pruning removes exactly the aged terminal rows. A row goes when it is terminal, was
  last active before the cutoff and is in one of the wanted states (any, when none are
  named); its attempts go with it, every other row and every other key's attempts stay, and
  the returned number counts the rows removed. A zero cutoff removes nothing.
\<close>

theorem Prune_exact:
  assumes "wf_map (ms_jobs s)" "wf_map (ms_attempts s)"
  shows "map_of (ms_jobs (fst (mem_Prune s before states))) k =
           (case map_of (ms_jobs s) k of
              None \<Rightarrow> None
            | Some j \<Rightarrow> if before \<noteq> zeroTime \<and> prunable before states j then None else Some j) \<and>
         map_of (ms_attempts (fst (mem_Prune s before states))) k =
           (case map_of (ms_jobs s) k of
              None \<Rightarrow> map_of (ms_attempts s) k
            | Some j \<Rightarrow> if before \<noteq> zeroTime \<and> prunable before states j then None
                       else map_of (ms_attempts s) k) \<and>
         snd (mem_Prune s before states) =
           (if before = zeroTime then 0
            else card {k. \<exists>j. map_of (ms_jobs s) k = Some j \<and> prunable before states j})"
proof (cases "before = zeroTime")
  case True
  then show ?thesis by (simp add: mem_Prune_def IsZero_def split: option.splits)
next
  case False
  then have nz: "\<not> IsZero before" by (simp add: IsZero_def)
  note count = length_filter_wf_map [OF assms(1), of "prunable before states"]
  show ?thesis
    using False
    by (simp add: Prune_eq [OF nz] wf_map_map_of_filter assms doomed_iff count
        del: map_of_eq_Some_iff split: option.splits)
qed

theorem Prune_exact_witness:
  "map_of (ms_jobs (fst (mem_Prune (mem_UpsertJobs mem_Open
     [zero_job\<lparr>job_State := StateCompleted, job_FinishedAt := 5\<rparr>]) 10 []))) ''::'' = None"
proof -
  let ?s = "mem_UpsertJobs mem_Open [zero_job\<lparr>job_State := StateCompleted, job_FinishedAt := 5\<rparr>]"
  have "wf_map (ms_jobs ?s)" "wf_map (ms_attempts ?s)"
    by (simp_all add: mem_UpsertJobs_def mem_Open_def upsert_job_def)
  from Prune_exact [OF this, of 10 "[]" "''::''"] show ?thesis
    by (simp add: mem_UpsertJobs_def mem_Open_def upsert_job_def record_key_def KeyFor_def
        zero_job_def zeroTime_def prunable_def stamped_def)
qed

subsection \<open>Attempts\<close>

text \<open>An attempt is identified within its job by its number and its start.\<close>

definition slot :: "attempt \<Rightarrow> int \<times> gotime" where
  "slot a = (att_Attempt a, att_StartedAt a)"

definition find_slot :: "int \<times> gotime \<Rightarrow> attempt list \<Rightarrow> attempt option" where
  "find_slot p as = find (\<lambda>a. slot a = p) as"

text \<open>A later record of the same attempt wins, but does not erase an error or a finish time.\<close>

definition attempt_after :: "attempt option \<Rightarrow> attempt \<Rightarrow> attempt" where
  "attempt_after prev a =
     (case prev of
        None \<Rightarrow> a
      | Some p \<Rightarrow> a\<lparr>att_Err := (if att_Err a = [] then att_Err p else att_Err a),
                    att_FinishedAt := (if att_FinishedAt a = zeroTime
                                       then att_FinishedAt p else att_FinishedAt a)\<rparr>)"

lemma slot_save_attempt_in:
  "map slot (save_attempt_in a as) = (if slot a \<in> slot ` set as then map slot as else map slot as @ [slot a])"
  by (induction as) (auto simp: slot_def)

lemma distinct_save_attempt_in:
  "distinct (map slot as) \<Longrightarrow> distinct (map slot (save_attempt_in a as))"
  by (simp add: slot_save_attempt_in)

lemma find_save_attempt_in:
  "find_slot p (save_attempt_in a as) =
     (if p = slot a then Some (attempt_after (find_slot p as) a) else find_slot p as)"
  by (induction as) (auto simp: find_slot_def slot_def attempt_after_def IsZero_def)

lemma attempts_at_save_attempt:
  "attempts_at (save_attempt a m) k =
     (if k = attempt_key a then save_attempt_in a (attempts_at m k) else attempts_at m k)"
  by (simp add: save_attempt_def attempts_at_def Let_def)

lemma attempts_at_fold:
  "attempts_at (fold save_attempt as m) k =
     fold save_attempt_in (filter (\<lambda>a. attempt_key a = k) as) (attempts_at m k)"
  by (induction as arbitrary: m) (auto simp: attempts_at_save_attempt)

lemma distinct_fold_save_attempt_in:
  "distinct (map slot xs) \<Longrightarrow> distinct (map slot (fold save_attempt_in as xs))"
  by (induction as arbitrary: xs) (auto simp: distinct_save_attempt_in)

lemma find_fold_save_attempt_in:
  "find_slot p (fold save_attempt_in as xs) =
     fold (\<lambda>a prev. Some (attempt_after prev a)) (filter (\<lambda>a. slot a = p) as) (find_slot p xs)"
  by (induction as arbitrary: xs) (auto simp: find_save_attempt_in)

text \<open>
  Attempts are kept once each. After \<open>SaveAttempts\<close> the list of a job still has at
  most one record per attempt number and start, and the record found there is the last one
  delivered, with the error and finish time of an earlier one where it carries none itself.
\<close>

theorem SaveAttempts_one_per_slot:
  assumes "distinct (map slot (attempts_at (ms_attempts s) k))"
  shows "distinct (map slot (attempts_at (ms_attempts (mem_SaveAttempts s as)) k)) \<and>
         find_slot p (attempts_at (ms_attempts (mem_SaveAttempts s as)) k) =
           fold (\<lambda>a prev. Some (attempt_after prev a))
             (filter (\<lambda>a. attempt_key a = k \<and> slot a = p) as)
             (find_slot p (attempts_at (ms_attempts s) k))"
  using assms
  by (simp add: mem_SaveAttempts_def attempts_at_fold distinct_fold_save_attempt_in
      find_fold_save_attempt_in conj_commute)

theorem SaveAttempts_one_per_slot_witness:
  "find_slot (0, 7) (attempts_at (ms_attempts (mem_SaveAttempts mem_Open
     [zero_attempt\<lparr>att_StartedAt := 7, att_Err := ''boom''\<rparr>,
      zero_attempt\<lparr>att_StartedAt := 7, att_State := StateFailed\<rparr>])) ''::'') =
   Some (zero_attempt\<lparr>att_StartedAt := 7, att_State := StateFailed, att_Err := ''boom''\<rparr>)"
proof -
  have "distinct (map slot (attempts_at (ms_attempts mem_Open) ''::''))"
    by (simp add: mem_Open_def attempts_at_def)
  from SaveAttempts_one_per_slot [OF this, of
      "[zero_attempt\<lparr>att_StartedAt := 7, att_Err := ''boom''\<rparr>,
        zero_attempt\<lparr>att_StartedAt := 7, att_State := StateFailed\<rparr>]" "(0, 7)"]
  show ?thesis
    by (simp add: attempt_key_def KeyFor_def slot_def zero_attempt_def attempt_after_def
        mem_Open_def attempts_at_def find_slot_def)
qed

subsection \<open>Histories of the store\<close>

datatype store_op =
    OpUpsert "job list"
  | OpAttempts "attempt list"
  | OpHeartbeat string gotime
  | OpReconcile gotime string duration
  | OpPrune gotime "State list"

fun apply_op :: "store_op \<Rightarrow> mem_store \<Rightarrow> mem_store" where
  "apply_op (OpUpsert js) s = mem_UpsertJobs s js"
| "apply_op (OpAttempts as) s = mem_SaveAttempts s as"
| "apply_op (OpHeartbeat e t) s = mem_Heartbeat s e t"
| "apply_op (OpReconcile now e d) s = fst (mem_ReconcileEpoch now s e d)"
| "apply_op (OpPrune t sts) s = fst (mem_Prune s t sts)"

text \<open>
  The well-formedness of a store: its maps have each key once, a job is stored under its
  own key with the pattern of its name, and a job's attempts have distinct slots and belong
  to that job.
\<close>

definition mem_inv :: "mem_store \<Rightarrow> bool" where
  "mem_inv s \<longleftrightarrow>
     wf_map (ms_jobs s) \<and> wf_map (ms_attempts s) \<and> wf_map (ms_epochs s) \<and>
     (\<forall>(k, j) \<in> set (ms_jobs s). job_Key j = k \<and> job_Pattern j = NormalizeName (job_Name j)) \<and>
     (\<forall>(k, as) \<in> set (ms_attempts s).
        distinct (map slot as) \<and> (\<forall>a \<in> set as. attempt_key a = k))"

definition job_entry_ok :: "string \<times> job \<Rightarrow> bool" where
  "job_entry_ok = (\<lambda>(k, j). job_Key j = k \<and> job_Pattern j = NormalizeName (job_Name j))"

definition att_entry_ok :: "string \<times> attempt list \<Rightarrow> bool" where
  "att_entry_ok = (\<lambda>(k, as). distinct (map slot as) \<and> (\<forall>a \<in> set as. attempt_key a = k))"

lemma mem_inv_alt:
  "mem_inv s \<longleftrightarrow>
     wf_map (ms_jobs s) \<and> wf_map (ms_attempts s) \<and> wf_map (ms_epochs s) \<and>
     list_all job_entry_ok (ms_jobs s) \<and> list_all att_entry_ok (ms_attempts s)"
  by (simp add: mem_inv_def job_entry_ok_def att_entry_ok_def list_all_iff)

lemma set_update_subset: "set (AList.update k v m) \<subseteq> insert (k, v) (set m)"
  by (induction m) auto

lemma list_all_update:
  assumes "list_all P m" "P (k, v)"
  shows "list_all P (AList.update k v m)"
  using assms set_update_subset [of k v m] unfolding list_all_iff by blast

lemma list_all_lookup: "list_all P m \<Longrightarrow> map_of m k = Some v \<Longrightarrow> P (k, v)"
  using map_of_SomeD [of m k v] by (simp add: list_all_iff)

lemma mem_inv_Open [store_inv]: "mem_inv mem_Open"
  by (simp add: mem_inv_def mem_Open_def)

lemma upsert_job_alt:
  "upsert_job j m = AList.update (record_key j) (the (absorb j (map_of m (record_key j)))) m"
  by (simp add: upsert_job_def absorb_def Let_def split: option.splits)

lemma upsert_job_ok:
  assumes "list_all job_entry_ok m"
  shows "list_all job_entry_ok (upsert_job j m)"
  unfolding upsert_job_alt
proof (rule list_all_update [OF assms], cases "map_of m (record_key j)")
  case None
  then show "job_entry_ok (record_key j, the (absorb j (map_of m (record_key j))))"
    by (simp add: absorb_def job_entry_ok_def)
next
  case (Some e)
  with assms have e: "job_Key e = record_key j" "job_Pattern e = NormalizeName (job_Name e)"
    by (auto simp: job_entry_ok_def dest: list_all_lookup)
  then show "job_entry_ok (record_key j, the (absorb j (map_of m (record_key j))))"
    using Some merge_Pattern [OF e(2), of "stamped j"] by (simp add: absorb_def job_entry_ok_def)
qed

lemma wf_map_upsert_job: "wf_map m \<Longrightarrow> wf_map (upsert_job j m)"
  by (simp add: upsert_job_alt)

lemma fold_upsert_ok:
  "wf_map m \<Longrightarrow> wf_map (fold upsert_job js m)"
  "list_all job_entry_ok m \<Longrightarrow> list_all job_entry_ok (fold upsert_job js m)"
  by (rule fold_invariant, assumption, rule wf_map_upsert_job, assumption)
    (rule fold_invariant, assumption, rule upsert_job_ok, assumption)

lemma mem_inv_UpsertJobs [store_inv]: "mem_inv s \<Longrightarrow> mem_inv (mem_UpsertJobs s js)"
  by (simp add: mem_inv_alt mem_UpsertJobs_def fold_upsert_ok)

lemma attempt_key_update [simp]:
  "attempt_key (x\<lparr>att_Err := e\<rparr>) = attempt_key x"
  "attempt_key (x\<lparr>att_FinishedAt := t\<rparr>) = attempt_key x"
  by (simp_all add: attempt_key_def)

lemma save_attempt_in_key:
  "\<forall>a \<in> set as. attempt_key a = attempt_key x \<Longrightarrow>
   \<forall>a \<in> set (save_attempt_in x as). attempt_key a = attempt_key x"
  by (induction as) simp_all

lemma save_attempt_ok:
  assumes "list_all att_entry_ok m"
  shows "list_all att_entry_ok (save_attempt a m)"
  unfolding save_attempt_def Let_def
proof (rule list_all_update [OF assms])
  have "att_entry_ok (attempt_key a, attempts_at m (attempt_key a))"
  proof (cases "map_of m (attempt_key a)")
    case None
    then show ?thesis by (simp add: attempts_at_def att_entry_ok_def)
  next
    case (Some as)
    from list_all_lookup [OF assms Some] show ?thesis by (simp add: attempts_at_def Some)
  qed
  then show "att_entry_ok (attempt_key a, save_attempt_in a (attempts_at m (attempt_key a)))"
    unfolding att_entry_ok_def case_prod_conv
    using distinct_save_attempt_in save_attempt_in_key by blast
qed

lemma wf_map_save_attempt: "wf_map m \<Longrightarrow> wf_map (save_attempt a m)"
  by (simp add: save_attempt_def Let_def)

lemma fold_save_ok:
  "wf_map m \<Longrightarrow> wf_map (fold save_attempt as m)"
  "list_all att_entry_ok m \<Longrightarrow> list_all att_entry_ok (fold save_attempt as m)"
  by (rule fold_invariant, assumption, rule wf_map_save_attempt, assumption)
    (rule fold_invariant, assumption, rule save_attempt_ok, assumption)

lemma mem_inv_SaveAttempts [store_inv]: "mem_inv s \<Longrightarrow> mem_inv (mem_SaveAttempts s as)"
  by (simp add: mem_inv_alt mem_SaveAttempts_def fold_save_ok)

lemma mem_inv_Heartbeat [store_inv]: "mem_inv s \<Longrightarrow> mem_inv (mem_Heartbeat s e t)"
  by (simp add: mem_inv_alt mem_Heartbeat_def)

lemma mem_inv_ReconcileEpoch [store_inv]:
  "mem_inv s \<Longrightarrow> mem_inv (fst (mem_ReconcileEpoch now s e d))"
proof -
  assume inv: "mem_inv s"
  have "job_entry_ok (k, interrupt e' c es j)" if "job_entry_ok (k, j)" for k j e' c es
    using that by (simp add: job_entry_ok_def interrupt_def)
  with inv show ?thesis
    by (auto simp: mem_inv_alt ReconcileEpoch_eq list_all_iff simp del: map_map)
qed

lemma mem_inv_Prune [store_inv]: "mem_inv s \<Longrightarrow> mem_inv (fst (mem_Prune s t sts))"
proof (cases "IsZero t")
  case False
  then show "mem_inv s \<Longrightarrow> mem_inv (fst (mem_Prune s t sts))"
    by (simp add: mem_inv_alt Prune_eq list_all_iff)
qed (simp add: mem_Prune_def)

inductive mem_reachable :: "mem_store \<Rightarrow> bool" where
  opened: "mem_reachable mem_Open"
| step: "mem_reachable s \<Longrightarrow> mem_reachable (apply_op opn s)"

text \<open>
  C32. Every store reachable from a fresh one, by any sequence of its write operations, is
  well formed.
\<close>

theorem mem_reachable_inv: "mem_reachable s \<Longrightarrow> mem_inv s"
proof (induction rule: mem_reachable.induct)
  case opened
  show ?case by (rule mem_inv_Open)
next
  case (step s opn)
  then show ?case by (cases opn) (simp_all add: store_inv)
qed

theorem mem_reachable_inv_witness:
  "mem_inv (mem_UpsertJobs mem_Open [zero_job\<lparr>job_Name := ''import-8471''\<rparr>])"
  using mem_reachable_inv [OF mem_reachable.step [OF mem_reachable.opened,
    of "OpUpsert [zero_job\<lparr>job_Name := ''import-8471''\<rparr>]"]] by simp

subsection \<open>Nothing a job has reached is undone\<close>

definition keeps :: "'a \<Rightarrow> 'a \<Rightarrow> 'a \<Rightarrow> bool" where
  "keeps blank x y \<longleftrightarrow> (x \<noteq> blank \<longrightarrow> y = x)"

definition advances :: "job \<Rightarrow> job \<Rightarrow> bool" where
  "advances j j' \<longleftrightarrow>
     job_Key j' = job_Key j \<and> job_ID j' = job_ID j \<and> job_Epoch j' = job_Epoch j \<and>
     Rank (job_State j) \<le> Rank (job_State j') \<and>
     (Terminal (job_State j) \<longrightarrow> job_State j' = job_State j) \<and>
     keeps [] (job_Queue j) (job_Queue j') \<and>
     keeps [] (job_Name j) (job_Name j') \<and> (job_Name j \<noteq> [] \<longrightarrow> job_Pattern j' = job_Pattern j) \<and>
     keeps [] (job_RootID j) (job_RootID j') \<and> keeps [] (job_Parent j) (job_Parent j') \<and>
     keeps zeroTime (job_EnqueuedAt j) (job_EnqueuedAt j') \<and>
     keeps zeroTime (job_StartedAt j) (job_StartedAt j') \<and>
     (job_Err j \<noteq> [] \<longrightarrow> job_Err j' \<noteq> []) \<and>
     (job_FinishedAt j \<noteq> zeroTime \<longrightarrow> job_FinishedAt j' \<noteq> zeroTime) \<and>
     (job_Attributes j \<noteq> [] \<longrightarrow> job_Attributes j' \<noteq> []) \<and>
     job_Attempt j \<le> job_Attempt j' \<and> job_ProgressAt j \<le> job_ProgressAt j'"

lemma advances_refl: "advances j j"
  by (simp add: advances_def keeps_def)

lemma keeps_trans: "keeps b x y \<Longrightarrow> keeps b y z \<Longrightarrow> keeps b x z"
  by (auto simp: keeps_def)

lemma advances_trans: "advances a b \<Longrightarrow> advances b c \<Longrightarrow> advances a c"
  unfolding advances_def
  by (elim conjE, intro conjI)
    (erule (1) keeps_trans | erule (1) order_trans | metis keeps_def)+

lemma advances_merge: "advances a (merge a b)"
  using merge_State_terminal [of a b] merge_State_upper [of a b]
  by (simp add: advances_def keeps_def merge_def IsZero_def After_def)

lemma advances_interrupt: "advances j (interrupt epoch cutoff epochs j)"
  by (simp add: interrupt_def orphaned_def advances_def keeps_def)

lemma advances_merge_all: "advances e (merge_all rs e)"
proof (induction rs arbitrary: e)
  case Nil
  show ?case by (simp add: advances_refl)
next
  case (Cons r rs)
  from advances_merge [of e "stamped r"] Cons.IH [of "merge e (stamped r)"] show ?case
    by (simp add: advances_trans)
qed

definition is_prune :: "store_op \<Rightarrow> bool" where
  "is_prune opn \<longleftrightarrow> (case opn of OpPrune _ _ \<Rightarrow> True | _ \<Rightarrow> False)"

lemma apply_op_advances:
  assumes "\<not> is_prune opn" "map_of (ms_jobs s) k = Some j"
  shows "\<exists>j'. map_of (ms_jobs (apply_op opn s)) k = Some j' \<and> advances j j'"
  using assms
  by (cases opn)
    (simp_all add: is_prune_def UpsertJobs_lookup fold_absorb_Some advances_merge_all
      mem_SaveAttempts_def mem_Heartbeat_def ReconcileEpoch_lookup advances_interrupt advances_refl)

text \<open>
  C4. Nothing a job has reached is undone. Through any sequence of upserts, attempt
  writes, heartbeats and reconciliations, a stored job keeps its identity, its rank never
  falls, a terminal state is final, and a name, root, parent, enqueue or start time once
  filled in is never replaced; error, finish time, attempt number and progress never go
  back to less than was known.
\<close>

theorem history_never_regresses:
  assumes "list_all (\<lambda>opn. \<not> is_prune opn) ops" "map_of (ms_jobs s) k = Some j"
  shows "\<exists>j'. map_of (ms_jobs (fold apply_op ops s)) k = Some j' \<and> advances j j'"
  using assms
proof (induction ops arbitrary: s j)
  case Nil
  then show ?case by (simp add: advances_refl)
next
  case (Cons opn ops)
  then obtain j1 where "map_of (ms_jobs (apply_op opn s)) k = Some j1" "advances j j1"
    using apply_op_advances by fastforce
  with Cons.IH [of "apply_op opn s" j1] Cons.prems(1) show ?case
    by (auto intro: advances_trans)
qed

theorem history_never_regresses_witness:
  "\<exists>j'. map_of (ms_jobs (fold apply_op
       [OpUpsert [zero_job\<lparr>job_State := StateCreated\<rparr>], OpReconcile 0 ''other'' 60]
       (mem_UpsertJobs mem_Open [zero_job\<lparr>job_State := StateCompleted\<rparr>]))) ''::'' = Some j' \<and>
     advances (stamped (zero_job\<lparr>job_State := StateCompleted\<rparr>)) j'"
  by (rule history_never_regresses)
    (simp_all add: is_prune_def mem_UpsertJobs_def mem_Open_def upsert_job_def record_key_def
      KeyFor_def zero_job_def)

end
