(* ===== verification/Store_Contract.thy ===== *)
theory Store_Contract
  imports Memory_Laws
begin

text \<open>
  The interface \<open>store.Store\<close> as its clients see it: the record of operations a backend
  provides (\<open>store_impl\<close>), and the laws \<open>store/store.go\<close> promises of them, as the locale
  \<open>store_contract\<close>. The sink is proved against the laws; every backend discharges them for
  its own operations. An operation that reports an error may have failed anywhere, but the
  contract requires that it left no trace.

  The laws speak of a backend through three observations: the row stored under a key, the
  last heartbeat of an epoch, and the attempts stored under a key. \<open>canon\<close>, \<open>canon_att\<close> and
  \<open>tick\<close> are what the backend keeps of a record, an attempt and an instant (its resolution of
  time); \<open>good\<close>, \<open>good_att\<close> and \<open>good_time\<close> are those it can represent. The in-memory store
  keeps everything whole. A reconciliation that reports an error may have been made all the
  same (the driver of a database can fail after the statement).
\<close>

type_synonym store_error = string

record 's store_impl =
  si_Migrate :: "'s \<Rightarrow> store_error option \<times> 's"
  si_UpsertJobs :: "'s \<Rightarrow> job list \<Rightarrow> store_error option \<times> 's"
  si_SaveAttempts :: "'s \<Rightarrow> attempt list \<Rightarrow> store_error option \<times> 's"
  si_Heartbeat :: "'s \<Rightarrow> string \<Rightarrow> gotime \<Rightarrow> store_error option \<times> 's"
  si_ReconcileEpoch :: "gotime \<Rightarrow> 's \<Rightarrow> string \<Rightarrow> duration \<Rightarrow> (store_error + nat) \<times> 's"
  si_Prune :: "'s \<Rightarrow> gotime \<Rightarrow> State list \<Rightarrow> (store_error + nat) \<times> 's"

text \<open>A row after a reconciliation, given the heartbeats, the caller's epoch and the cutoff.\<close>

definition taken_over ::
    "(string \<Rightarrow> gotime option) \<Rightarrow> string \<Rightarrow> gotime \<Rightarrow> job option \<Rightarrow> job option" where
  "taken_over beats ep cutoff r =
     map_option (\<lambda>j. if \<not> Terminal (job_State j) \<and> job_Epoch j \<noteq> ep \<and>
                        \<not> (\<exists>t. beats (job_Epoch j) = Some t \<and> t \<noteq> zeroTime \<and> cutoff \<le> t)
                     then j\<lparr>job_State := StateInterrupted\<rparr> else j) r"

locale store_contract =
  fixes impl :: "'s store_impl"
    and inv :: "'s \<Rightarrow> bool"
    and row :: "'s \<Rightarrow> string \<Rightarrow> job option"
    and beat :: "'s \<Rightarrow> string \<Rightarrow> gotime option"
    and tries :: "'s \<Rightarrow> string \<Rightarrow> attempt list"
    and canon :: "job \<Rightarrow> job"
    and canon_att :: "attempt \<Rightarrow> attempt"
    and tick :: "gotime \<Rightarrow> gotime"
    and good :: "job \<Rightarrow> bool"
    and good_att :: "attempt \<Rightarrow> bool"
    and good_time :: "gotime \<Rightarrow> bool"
  assumes migrate:
      "inv s \<Longrightarrow> si_Migrate impl s = (res, s') \<Longrightarrow>
       inv s' \<and> row s' = row s \<and> beat s' = beat s \<and> tries s' = tries s"
    and upsert:
      "inv s \<Longrightarrow> list_all good js \<Longrightarrow> si_UpsertJobs impl s js = (None, s') \<Longrightarrow>
       inv s' \<and> beat s' = beat s \<and> tries s' = tries s \<and>
       row s' = (\<lambda>k. fold absorb (records_for k (map canon js)) (row s k))"
    and save:
      "inv s \<Longrightarrow> list_all good_att as \<Longrightarrow> si_SaveAttempts impl s as = (None, s') \<Longrightarrow>
       inv s' \<and> row s' = row s \<and> beat s' = beat s \<and>
       tries s' = (\<lambda>k. fold save_attempt_in (map canon_att (filter (\<lambda>a. attempt_key a = k) as)) (tries s k))"
    and heartbeat:
      "inv s \<Longrightarrow> si_Heartbeat impl s ep t = (None, s') \<Longrightarrow>
       inv s' \<and> row s' = row s \<and> tries s' = tries s \<and> beat s' = (beat s)(ep \<mapsto> tick t)"
    and reconcile_keeps:
      "inv s \<Longrightarrow> si_ReconcileEpoch impl now s ep d = (r, s') \<Longrightarrow>
       inv s' \<and> beat s' = beat s \<and> tries s' = tries s"
    and reconcile_rows:
      "inv s \<Longrightarrow> good_time (now - d) \<Longrightarrow> si_ReconcileEpoch impl now s ep d = (Inr n, s') \<Longrightarrow>
       row s' = (\<lambda>k. taken_over (beat s) ep (tick (now - d)) (row s k))"
    and failed_upsert:
      "inv s \<Longrightarrow> si_UpsertJobs impl s js = (Some err, s') \<Longrightarrow>
       inv s' \<and> row s' = row s \<and> beat s' = beat s \<and> tries s' = tries s"
    and failed_save:
      "inv s \<Longrightarrow> si_SaveAttempts impl s as = (Some err, s') \<Longrightarrow>
       inv s' \<and> row s' = row s \<and> beat s' = beat s \<and> tries s' = tries s"
    and failed_heartbeat:
      "inv s \<Longrightarrow> si_Heartbeat impl s ep t = (Some err, s') \<Longrightarrow>
       inv s' \<and> row s' = row s \<and> beat s' = beat s \<and> tries s' = tries s"
    and failed_reconcile:
      "inv s \<Longrightarrow> good_time (now - d) \<Longrightarrow> si_ReconcileEpoch impl now s ep d = (Inl err, s') \<Longrightarrow>
       row s' = row s \<or> row s' = (\<lambda>k. taken_over (beat s) ep (tick (now - d)) (row s k))"
begin

lemma upsert_inv: "inv s \<Longrightarrow> list_all good js \<Longrightarrow> si_UpsertJobs impl s js = (e, s') \<Longrightarrow> inv s'"
  using upsert failed_upsert by (cases e) blast+

lemma save_inv: "inv s \<Longrightarrow> list_all good_att as \<Longrightarrow> si_SaveAttempts impl s as = (e, s') \<Longrightarrow> inv s'"
  using save failed_save by (cases e) blast+

lemma heartbeat_inv: "inv s \<Longrightarrow> si_Heartbeat impl s ep t = (e, s') \<Longrightarrow> inv s'"
  using heartbeat failed_heartbeat by (cases e) blast+

text \<open>A stored job only advances, whichever of these operations runs and however it ends.\<close>

lemma fold_absorb_advances:
  "\<exists>j'. fold absorb rs (Some j) = Some j' \<and> advances j j'"
  by (simp add: fold_absorb_Some advances_merge_all)

lemma upsert_advances:
  assumes "inv s" "list_all good js" "si_UpsertJobs impl s js = (e, s')" "row s k = Some j"
  shows "\<exists>j'. row s' k = Some j' \<and> advances j j'"
proof (cases e)
  case None
  with assms upsert [of s js s'] show ?thesis by (simp add: fold_absorb_advances)
next
  case (Some err)
  with assms failed_upsert [of s js err s'] show ?thesis by (auto intro: advances_refl)
qed

text \<open>An epoch that has just beaten is spared by whoever reconciles within the window.\<close>

lemma beating_epoch_spared:
  assumes "inv s" "si_Heartbeat impl s e t = (None, s1)" "tick t \<noteq> zeroTime" "good_time (now - d)"
    and "si_ReconcileEpoch impl now s1 other d = (r, s2)" "tick (now - d) \<le> tick t"
    and "row s k = Some j" "job_Epoch j = e"
  shows "row s2 k = Some j"
proof -
  from heartbeat [OF assms(1,2)] assms(7)
  have s1: "inv s1" "row s1 k = Some j" "beat s1 e = Some (tick t)" by auto
  then have "taken_over (beat s1) other (tick (now - d)) (row s1 k) = Some j"
    using assms(3,6,8) by (auto simp: taken_over_def)
  then show ?thesis
    using s1 assms(5) reconcile_rows [OF s1(1) assms(4), of other _ s2] failed_reconcile [OF s1(1) assms(4), of other _ s2]
    by (cases r) auto
qed

end

end
