(* ===== verification/Sink.thy ===== *)
theory Sink
  imports Store_Contract "HOL-Library.Word"
begin

text \<open>
  The recorder of \<open>sink/sink.go\<close>: its options, the records it makes of cq events, and the
  operations of the \<open>Sink\<close> type up to the goroutines that run them (\<open>Sink_Steps\<close>).

  A store is any value of type \<open>'s store_impl\<close> over a state \<open>'s\<close>; a store that fails now
  and then keeps its schedule of faults in \<open>'s\<close>. The clock readings and the process ID are
  arguments. cq is not part of the repository: its events are records of the fields the
  sink reads, the two attribute names it defines are the parameter \<open>cq_consts\<close>, and an error
  is its text together with whether \<open>errors.Is\<close> finds \<open>cq.ErrJobCancelled\<close> in it.
\<close>

subsection \<open>Options\<close>

record sink_conf =
  sc_buffer :: int
  sc_batchSize :: int
  sc_flushTick :: duration
  sc_onError :: bool
  sc_heartbeat :: duration
  sc_staleAfter :: duration
  sc_retentionAge :: duration
  sc_retentionTick :: duration
  sc_retentionStates :: "State list"

definition default_conf :: sink_conf where
  "default_conf =
     \<lparr>sc_buffer = 4096, sc_batchSize = 200, sc_flushTick = 250 * Millisecond, sc_onError = False,
      sc_heartbeat = 15 * Second, sc_staleAfter = 60 * Second,
      sc_retentionAge = 0, sc_retentionTick = 0, sc_retentionStates = []\<rparr>"

definition WithBuffer :: "int \<Rightarrow> sink_conf \<Rightarrow> sink_conf" where
  "WithBuffer n c = (if n > 0 then c\<lparr>sc_buffer := n\<rparr> else c)"

definition WithBatchSize :: "int \<Rightarrow> sink_conf \<Rightarrow> sink_conf" where
  "WithBatchSize n c = (if n > 0 then c\<lparr>sc_batchSize := n\<rparr> else c)"

definition WithFlushTick :: "duration \<Rightarrow> sink_conf \<Rightarrow> sink_conf" where
  "WithFlushTick tt c = (if tt > 0 then c\<lparr>sc_flushTick := tt\<rparr> else c)"

definition WithErrorHandler :: "bool \<Rightarrow> sink_conf \<Rightarrow> sink_conf" where
  "WithErrorHandler given c = c\<lparr>sc_onError := given\<rparr>"

definition WithHeartbeat :: "duration \<Rightarrow> duration \<Rightarrow> sink_conf \<Rightarrow> sink_conf" where
  "WithHeartbeat interval staleAfter c =
     (let c = (if interval > 0 then c\<lparr>sc_heartbeat := interval\<rparr> else c)
      in if staleAfter > 0 then c\<lparr>sc_staleAfter := staleAfter\<rparr> else c)"

definition WithRetention :: "duration \<Rightarrow> duration \<Rightarrow> State list \<Rightarrow> sink_conf \<Rightarrow> sink_conf" where
  "WithRetention age interval states c =
     (if age \<le> 0 \<or> interval \<le> 0 then c
      else c\<lparr>sc_retentionAge := age, sc_retentionTick := interval, sc_retentionStates := states\<rparr>)"

datatype sink_option =
    OptBuffer int
  | OptBatchSize int
  | OptFlushTick duration
  | OptErrorHandler bool
  | OptHeartbeat duration duration
  | OptRetention duration duration "State list"

fun apply_option :: "sink_option \<Rightarrow> sink_conf \<Rightarrow> sink_conf" where
  "apply_option (OptBuffer n) = WithBuffer n"
| "apply_option (OptBatchSize n) = WithBatchSize n"
| "apply_option (OptFlushTick tt) = WithFlushTick tt"
| "apply_option (OptErrorHandler given) = WithErrorHandler given"
| "apply_option (OptHeartbeat interval staleAfter) = WithHeartbeat interval staleAfter"
| "apply_option (OptRetention age interval states) = WithRetention age interval states"

text \<open>
  The ranges the goroutines rely on: a ticker with a period that is not positive panics, a
  channel of negative capacity too.
\<close>

definition conf_ok :: "sink_conf \<Rightarrow> bool" where
  "conf_ok c \<longleftrightarrow> 0 < sc_buffer c \<and> 0 < sc_batchSize c \<and> 0 < sc_flushTick c \<and>
     0 < sc_heartbeat c \<and> 0 < sc_staleAfter c \<and>
     (0 < sc_retentionAge c \<longrightarrow> 0 < sc_retentionTick c)"

lemma conf_ok_default: "conf_ok default_conf"
  by (simp add: conf_ok_def default_conf_def)

lemma conf_ok_option: "conf_ok c \<Longrightarrow> conf_ok (apply_option opt c)"
  by (cases opt)
    (auto simp: conf_ok_def WithBuffer_def WithBatchSize_def WithFlushTick_def WithErrorHandler_def
      WithHeartbeat_def WithRetention_def)

lemma conf_ok_options: "conf_ok (fold apply_option opts default_conf)"
  by (rule fold_invariant) (simp_all add: conf_ok_default conf_ok_option)

subsection \<open>cq events as records\<close>

record cq_consts =
  cq_RootID :: string
  cq_ParentID :: string

record cq_error =
  err_text :: string
  err_cancelled :: bool

record cq_event =
  ev_ID :: string
  ev_Name :: string
  ev_QueueName :: string
  ev_Attributes :: "(string, string) gomap"
  ev_EnqueuedAt :: gotime
  ev_StartedAt :: gotime
  ev_FinishedAt :: gotime
  ev_WaitDuration :: duration
  ev_ExecutionDuration :: duration
  ev_Attempt :: int
  ev_Err :: "cq_error option"

record cq_meta =
  meta_ID :: string
  meta_Name :: string
  meta_Attributes :: "(string, string) gomap"
  meta_EnqueuedAt :: gotime
  meta_Attempt :: int

record cq_progress =
  prg_Completed :: int
  prg_Total :: int
  prg_Stage :: string

text \<open>Reading an absent key of a string map gives the empty string.\<close>

definition attr_of :: "(string, string) gomap \<Rightarrow> string \<Rightarrow> string" where
  "attr_of m k = (case map_of m k of None \<Rightarrow> [] | Some v \<Rightarrow> v)"

record sink_record =
  rec_job :: job
  rec_attempt :: attempt
  rec_isJob :: bool

definition job_record :: "job \<Rightarrow> sink_record" where
  "job_record j = \<lparr>rec_job = j, rec_attempt = zero_attempt, rec_isJob = True\<rparr>"

definition attempt_record :: "attempt \<Rightarrow> sink_record" where
  "attempt_record a = \<lparr>rec_job = zero_job, rec_attempt = a, rec_isJob = False\<rparr>"

definition newEpoch :: "gotime \<Rightarrow> nat \<Rightarrow> string" where
  "newEpoch now pid = FormatInt (UnixNano now) @ ''-'' @ FormatInt (int pid)"

definition rootID :: "cq_consts \<Rightarrow> string \<Rightarrow> (string, string) gomap \<Rightarrow> string" where
  "rootID cq id' attributes =
     (let root = attr_of attributes (cq_RootID cq) in if root \<noteq> [] then root else id')"

definition failureState :: "cq_event \<Rightarrow> State" where
  "failureState e =
     (case ev_Err e of
        None \<Rightarrow> StateFailed
      | Some err \<Rightarrow> if err_cancelled err then StateCancelled else StateFailed)"

definition err_string :: "cq_error option \<Rightarrow> string" where
  "err_string err = (case err of None \<Rightarrow> [] | Some err \<Rightarrow> err_text err)"

definition offerJob :: "cq_consts \<Rightarrow> string \<Rightarrow> cq_event \<Rightarrow> State \<Rightarrow> sink_record list" where
  "offerJob cq epoch e state =
     [job_record (zero_job
        \<lparr>job_ID := ev_ID e, job_Epoch := epoch, job_Queue := ev_QueueName e, job_Name := ev_Name e,
         job_State := state, job_Attributes := ev_Attributes e,
         job_RootID := rootID cq (ev_ID e) (ev_Attributes e),
         job_Parent := attr_of (ev_Attributes e) (cq_ParentID cq),
         job_EnqueuedAt := ev_EnqueuedAt e, job_StartedAt := ev_StartedAt e,
         job_FinishedAt := ev_FinishedAt e,
         job_WaitUS := Microseconds (ev_WaitDuration e),
         job_ExecUS := Microseconds (ev_ExecutionDuration e),
         job_Attempt := ev_Attempt e,
         job_Err := err_string (ev_Err e)\<rparr>)]"

definition offerAttempt :: "cq_consts \<Rightarrow> string \<Rightarrow> cq_event \<Rightarrow> State \<Rightarrow> sink_record list" where
  "offerAttempt cq epoch e state =
     [job_record (zero_job
        \<lparr>job_ID := ev_ID e, job_Epoch := epoch, job_Queue := ev_QueueName e,
         job_State := StateActive,
         job_RootID := rootID cq (ev_ID e) (ev_Attributes e),
         job_Attempt := ev_Attempt e\<rparr>),
      attempt_record
        \<lparr>att_JobID = ev_ID e, att_Epoch = epoch, att_Queue = ev_QueueName e,
         att_Attempt = ev_Attempt e, att_State = state, att_Err = err_string (ev_Err e),
         att_StartedAt = ev_StartedAt e, att_FinishedAt = ev_FinishedAt e\<rparr>]"

definition ReportProgress ::
    "cq_consts \<Rightarrow> string \<Rightarrow> string \<Rightarrow> cq_meta \<Rightarrow> cq_progress \<Rightarrow> gotime \<Rightarrow> sink_record list" where
  "ReportProgress cq epoch queue meta progress now =
     [job_record (zero_job
        \<lparr>job_ID := meta_ID meta, job_Epoch := epoch, job_Queue := queue, job_Name := meta_Name meta,
         job_State := StateActive, job_Attributes := meta_Attributes meta,
         job_RootID := rootID cq (meta_ID meta) (meta_Attributes meta),
         job_Parent := attr_of (meta_Attributes meta) (cq_ParentID cq),
         job_EnqueuedAt := meta_EnqueuedAt meta, job_Attempt := meta_Attempt meta,
         job_ProgressCompleted := prg_Completed progress, job_ProgressTotal := prg_Total progress,
         job_ProgressStage := prg_Stage progress, job_ProgressAt := now\<rparr>)]"

datatype hook =
    OnEnqueue | OnStart | OnSuccess | OnFailure | OnDiscard | OnAbandon
  | OnAttemptStart | OnAttemptSuccess | OnAttemptFailure

fun Hooks :: "cq_consts \<Rightarrow> string \<Rightarrow> hook \<Rightarrow> cq_event \<Rightarrow> sink_record list" where
  "Hooks cq epoch OnEnqueue e = offerJob cq epoch e StateCreated"
| "Hooks cq epoch OnStart e = offerJob cq epoch e StateActive"
| "Hooks cq epoch OnSuccess e = offerJob cq epoch e StateCompleted"
| "Hooks cq epoch OnFailure e = offerJob cq epoch e (failureState e)"
| "Hooks cq epoch OnDiscard e = offerJob cq epoch e StateDiscarded"
| "Hooks cq epoch OnAbandon e = offerJob cq epoch e StateAbandoned"
| "Hooks cq epoch OnAttemptStart e = offerAttempt cq epoch e StateActive"
| "Hooks cq epoch OnAttemptSuccess e = offerAttempt cq epoch e StateCompleted"
| "Hooks cq epoch OnAttemptFailure e = offerAttempt cq epoch e StateFailed"

text \<open>What a call from cq hands to \<open>offer\<close>, in order.\<close>

datatype sink_call =
    HookCall hook cq_event
  | ProgressCall string cq_meta cq_progress gotime

fun call_records :: "cq_consts \<Rightarrow> string \<Rightarrow> sink_call \<Rightarrow> sink_record list" where
  "call_records cq epoch (HookCall h e) = Hooks cq epoch h e"
| "call_records cq epoch (ProgressCall queue meta progress now) =
     ReportProgress cq epoch queue meta progress now"

fun rec_key :: "sink_record \<Rightarrow> string" where
  "rec_key r = (if rec_isJob r then record_key (rec_job r) else attempt_key (rec_attempt r))"

fun call_key :: "string \<Rightarrow> sink_call \<Rightarrow> string" where
  "call_key epoch (HookCall h e) = KeyFor epoch (ev_QueueName e) (ev_ID e)"
| "call_key epoch (ProgressCall queue meta progress now) = KeyFor epoch queue (meta_ID meta)"

end
