(* ===== verification/Sink_Steps.thy ===== *)
theory Sink_Steps
  imports Sink
begin

text \<open>
  The \<open>Sink\<close> itself: its state, its operations, and the goroutines of \<open>sink/sink.go\<close> as a
  transition system. The callers of the hooks, the writer (\<open>run\<close>), the heartbeat (\<open>beat\<close>),
  the retention loop (\<open>retain\<close>) and the closer (\<open>Close\<close>) interleave freely: an action names
  which of them moves, \<open>sink_do\<close> says what the move does, and \<open>None\<close> that it is not enabled.

  \<open>offer\<close> is two moves, because the two \<open>select\<close> statements of its body are: first the test
  of \<open>done\<close>, then the send or the shedding. \<open>Close\<close> is three: reading \<open>started\<close>, closing
  \<open>done\<close>, and returning. One pass of a loop body is one move otherwise; a select with several
  ready cases is one action per case. \<open>Start\<close> runs under the mutex and is one move.

  The fields with the prefix \<open>h_\<close> are history: they record what happened and no move reads
  them.
\<close>

subsection \<open>State\<close>

datatype writer = WriterOff | WriterRun "sink_record list" | WriterDrain "sink_record list" | WriterExit
datatype beater = BeatOff | BeatRun | BeatExit
datatype retainer = RetainOff | RetainFirst | RetainRun | RetainExit
datatype closer = CloseOff | CloseRead bool | CloseWait bool | CloseReturned bool

text \<open>A caller: whether it passed the test of \<open>done\<close> for its first record, and the records left.\<close>

type_synonym caller = "bool \<times> sink_record list"

record 's sink =
  sk_conf :: sink_conf
  sk_store :: 's
  sk_epoch :: string
  sk_events :: "sink_record list"
  sk_dropped :: "64 word"
  sk_written :: "64 word"
  sk_pruned :: "64 word"
  sk_started :: bool
  sk_done :: bool
  sk_stopped :: bool
  sk_reported :: "store_error list"
  sk_callers :: "caller list"
  sk_writer :: writer
  sk_beater :: beater
  sk_retainer :: retainer
  sk_closer :: closer
  h_offered :: "sink_record list"
  h_accepted :: "sink_record list"
  h_shed :: "sink_record list"
  h_flushed :: "sink_record list"
  h_jobs :: "job list"
  h_attempts :: "attempt list"
  h_inflight :: "sink_record list"
  h_late :: "sink_record list"

definition sink_New :: "'s \<Rightarrow> gotime \<Rightarrow> nat \<Rightarrow> sink_option list \<Rightarrow> 's sink" where
  "sink_New st now pid opts =
     \<lparr>sk_conf = fold apply_option opts default_conf, sk_store = st, sk_epoch = newEpoch now pid,
      sk_events = [], sk_dropped = 0, sk_written = 0, sk_pruned = 0,
      sk_started = False, sk_done = False, sk_stopped = False, sk_reported = [],
      sk_callers = [], sk_writer = WriterOff, sk_beater = BeatOff, sk_retainer = RetainOff,
      sk_closer = CloseOff,
      h_offered = [], h_accepted = [], h_shed = [], h_flushed = [], h_jobs = [], h_attempts = [],
      h_inflight = [], h_late = []\<rparr>"

subsection \<open>Operations\<close>

text \<open>What the dashboard reads of a running sink.\<close>

definition sink_Epoch :: "'s sink \<Rightarrow> string" where "sink_Epoch s = sk_epoch s"
definition sink_Dropped :: "'s sink \<Rightarrow> 64 word" where "sink_Dropped s = sk_dropped s"
definition sink_Written :: "'s sink \<Rightarrow> 64 word" where "sink_Written s = sk_written s"
definition sink_Pruned :: "'s sink \<Rightarrow> 64 word" where "sink_Pruned s = sk_pruned s"

definition reportError :: "store_error \<Rightarrow> 's sink \<Rightarrow> 's sink" where
  "reportError err s = (if sc_onError (sk_conf s) then s\<lparr>sk_reported := sk_reported s @ [err]\<rparr> else s)"

definition batch_jobs :: "sink_record list \<Rightarrow> job list" where
  "batch_jobs batch = map rec_job (filter rec_isJob batch)"

definition batch_attempts :: "sink_record list \<Rightarrow> attempt list" where
  "batch_attempts batch = map rec_attempt (filter (\<lambda>r. \<not> rec_isJob r) batch)"

definition flush_jobs :: "'s store_impl \<Rightarrow> job list \<Rightarrow> 's sink \<Rightarrow> 's sink" where
  "flush_jobs impl jobs s =
     (case si_UpsertJobs impl (sk_store s) jobs of
        (Some err, st) \<Rightarrow> reportError err (s\<lparr>sk_store := st\<rparr>)
      | (None, st) \<Rightarrow> s\<lparr>sk_store := st, sk_written := sk_written s + of_nat (length jobs),
                        h_jobs := h_jobs s @ jobs\<rparr>)"

definition flush_attempts :: "'s store_impl \<Rightarrow> attempt list \<Rightarrow> 's sink \<Rightarrow> 's sink" where
  "flush_attempts impl attempts s =
     (case si_SaveAttempts impl (sk_store s) attempts of
        (Some err, st) \<Rightarrow> reportError err (s\<lparr>sk_store := st\<rparr>)
      | (None, st) \<Rightarrow> s\<lparr>sk_store := st, sk_written := sk_written s + of_nat (length attempts),
                        h_attempts := h_attempts s @ attempts\<rparr>)"

text \<open>The returned slice is empty on either branch; the callers below set it so.\<close>

definition flush :: "'s store_impl \<Rightarrow> sink_record list \<Rightarrow> 's sink \<Rightarrow> 's sink" where
  "flush impl batch s =
     (if length batch = 0 then s
      else (flush_attempts impl (batch_attempts batch) (flush_jobs impl (batch_jobs batch) s))
             \<lparr>h_flushed := h_flushed s @ batch\<rparr>)"

definition sink_Start ::
    "'s store_impl \<Rightarrow> gotime \<Rightarrow> gotime \<Rightarrow> 's sink \<Rightarrow> (store_error + nat) \<times> 's sink" where
  "sink_Start impl now now' s =
     (if sk_started s then (Inr 0, s)
      else if sk_done s then (Inl ''sink: closed'', s)
      else case si_Migrate impl (sk_store s) of
        (Some err, st) \<Rightarrow> (Inl err, s\<lparr>sk_store := st\<rparr>)
      | (None, st) \<Rightarrow>
          (case si_Heartbeat impl st (sk_epoch s) now of
             (Some err, st) \<Rightarrow> (Inl err, s\<lparr>sk_store := st\<rparr>)
           | (None, st) \<Rightarrow>
               (case si_ReconcileEpoch impl now' st (sk_epoch s) (sc_staleAfter (sk_conf s)) of
                  (Inl err, st) \<Rightarrow> (Inl err, s\<lparr>sk_store := st\<rparr>)
                | (Inr reconciled, st) \<Rightarrow>
                    (Inr reconciled,
                     s\<lparr>sk_store := st, sk_started := True, sk_writer := WriterRun [],
                       sk_beater := BeatRun,
                       sk_retainer := (if sc_retentionAge (sk_conf s) > 0 then RetainFirst
                                       else RetainOff)\<rparr>))))"

definition sink_beat :: "'s store_impl \<Rightarrow> gotime \<Rightarrow> 's sink \<Rightarrow> 's sink" where
  "sink_beat impl seenAt s =
     (case si_Heartbeat impl (sk_store s) (sk_epoch s) seenAt of
        (Some err, st) \<Rightarrow> reportError err (s\<lparr>sk_store := st\<rparr>)
      | (None, st) \<Rightarrow> s\<lparr>sk_store := st\<rparr>)"

definition sink_prune :: "'s store_impl \<Rightarrow> gotime \<Rightarrow> 's sink \<Rightarrow> 's sink" where
  "sink_prune impl now s =
     (case si_Prune impl (sk_store s) (time_Add now (- sc_retentionAge (sk_conf s)))
             (sc_retentionStates (sk_conf s)) of
        (Inl err, st) \<Rightarrow> reportError err (s\<lparr>sk_store := st\<rparr>)
      | (Inr removed, st) \<Rightarrow> s\<lparr>sk_store := st, sk_pruned := sk_pruned s + of_nat removed\<rparr>)"

text \<open>The two selects of \<open>offer\<close>, for the caller at position \<open>i\<close>.\<close>

definition drop_record :: "sink_record \<Rightarrow> 's sink \<Rightarrow> 's sink" where
  "drop_record r s = s\<lparr>sk_dropped := sk_dropped s + 1, h_shed := h_shed s @ [r]\<rparr>"

definition offer_check :: "nat \<Rightarrow> 's sink \<Rightarrow> 's sink option" where
  "offer_check i s =
     (if i < length (sk_callers s) then
        (case sk_callers s ! i of
           (False, r # rest) \<Rightarrow>
             Some (if sk_done s then (drop_record r s)\<lparr>sk_callers := (sk_callers s)[i := (False, rest)]\<rparr>
                   else s\<lparr>sk_callers := (sk_callers s)[i := (True, r # rest)]\<rparr>)
         | _ \<Rightarrow> None)
      else None)"

definition offer_send :: "nat \<Rightarrow> 's sink \<Rightarrow> 's sink option" where
  "offer_send i s =
     (if i < length (sk_callers s) then
        (case sk_callers s ! i of
           (True, r # rest) \<Rightarrow>
             Some ((if int (length (sk_events s)) < sc_buffer (sk_conf s)
                    then s\<lparr>sk_events := sk_events s @ [r], h_accepted := h_accepted s @ [r],
                           h_late := (if sk_done s then h_late s @ [r] else h_late s)\<rparr>
                    else drop_record r s)
                   \<lparr>sk_callers := (sk_callers s)[i := (False, rest)]\<rparr>)
         | _ \<Rightarrow> None)
      else None)"

text \<open>Appending to the batch, which is written out when it is full.\<close>

definition take_event :: "'s store_impl \<Rightarrow> (sink_record list \<Rightarrow> writer) \<Rightarrow> sink_record list \<Rightarrow>
    's sink \<Rightarrow> 's sink option" where
  "take_event impl pc batch s =
     (case sk_events s of
        [] \<Rightarrow> None
      | r # rest \<Rightarrow>
          (let s = s\<lparr>sk_events := rest\<rparr>; batch = batch @ [r]
           in Some (if int (length batch) \<ge> sc_batchSize (sk_conf s)
                    then (flush impl batch s)\<lparr>sk_writer := pc []\<rparr>
                    else s\<lparr>sk_writer := pc batch\<rparr>)))"

text \<open>The records of callers that passed the test of \<open>done\<close> and have yet to send.\<close>

definition poised :: "caller list \<Rightarrow> sink_record list" where
  "poised callers = map (\<lambda>c. hd (snd c)) (filter (\<lambda>c. fst c \<and> snd c \<noteq> []) callers)"

subsection \<open>Moves\<close>

datatype sink_action =
    Start gotime gotime
  | Call sink_call
  | OfferCheck nat
  | OfferSend nat
  | RunRecv
  | RunTick
  | RunDone
  | DrainRecv
  | DrainEnd
  | BeatTick gotime
  | BeatDone
  | RetainStart gotime
  | RetainTick gotime
  | RetainDone
  | CloseEnter
  | CloseSignal
  | CloseReturn

fun sink_do :: "'s store_impl \<Rightarrow> cq_consts \<Rightarrow> sink_action \<Rightarrow> 's sink \<Rightarrow> 's sink option" where
  "sink_do impl cq (Start now now') s = Some (snd (sink_Start impl now now' s))"
| "sink_do impl cq (Call c) s =
     (let rs = call_records cq (sk_epoch s) c
      in Some (s\<lparr>sk_callers := sk_callers s @ [(False, rs)], h_offered := h_offered s @ rs\<rparr>))"
| "sink_do impl cq (OfferCheck i) s = offer_check i s"
| "sink_do impl cq (OfferSend i) s = offer_send i s"
| "sink_do impl cq RunRecv s =
     (case sk_writer s of WriterRun batch \<Rightarrow> take_event impl WriterRun batch s | _ \<Rightarrow> None)"
| "sink_do impl cq RunTick s =
     (case sk_writer s of
        WriterRun batch \<Rightarrow> Some ((flush impl batch s)\<lparr>sk_writer := WriterRun []\<rparr>)
      | _ \<Rightarrow> None)"
| "sink_do impl cq RunDone s =
     (case sk_writer s of
        WriterRun batch \<Rightarrow> if sk_done s then Some (s\<lparr>sk_writer := WriterDrain batch\<rparr>) else None
      | _ \<Rightarrow> None)"
| "sink_do impl cq DrainRecv s =
     (case sk_writer s of WriterDrain batch \<Rightarrow> take_event impl WriterDrain batch s | _ \<Rightarrow> None)"
| "sink_do impl cq DrainEnd s =
     (case sk_writer s of
        WriterDrain batch \<Rightarrow>
          if sk_events s = []
          then Some ((flush impl batch s)\<lparr>sk_writer := WriterExit, sk_stopped := True\<rparr>) else None
      | _ \<Rightarrow> None)"
| "sink_do impl cq (BeatTick now) s =
     (if sk_beater s = BeatRun then Some (sink_beat impl now s) else None)"
| "sink_do impl cq BeatDone s =
     (if sk_beater s = BeatRun \<and> sk_done s
      then Some ((sink_beat impl zeroTime s)\<lparr>sk_beater := BeatExit\<rparr>) else None)"
| "sink_do impl cq (RetainStart now) s =
     (if sk_retainer s = RetainFirst then Some ((sink_prune impl now s)\<lparr>sk_retainer := RetainRun\<rparr>) else None)"
| "sink_do impl cq (RetainTick now) s =
     (if sk_retainer s = RetainRun then Some (sink_prune impl now s) else None)"
| "sink_do impl cq RetainDone s =
     (if sk_retainer s = RetainRun \<and> sk_done s then Some (s\<lparr>sk_retainer := RetainExit\<rparr>) else None)"
| "sink_do impl cq CloseEnter s =
     (if sk_closer s = CloseOff then Some (s\<lparr>sk_closer := CloseRead (sk_started s)\<rparr>) else None)"
| "sink_do impl cq CloseSignal s =
     (case sk_closer s of
        CloseRead started \<Rightarrow>
          Some (s\<lparr>sk_done := True, sk_closer := CloseWait started, h_inflight := poised (sk_callers s)\<rparr>)
      | _ \<Rightarrow> None)"
| "sink_do impl cq CloseReturn s =
     (case sk_closer s of
        CloseWait started \<Rightarrow>
          if started \<longrightarrow> sk_stopped s then Some (s\<lparr>sk_closer := CloseReturned started\<rparr>) else None
      | _ \<Rightarrow> None)"

fun sink_run :: "'s store_impl \<Rightarrow> cq_consts \<Rightarrow> sink_action list \<Rightarrow> 's sink \<Rightarrow> 's sink option" where
  "sink_run impl cq [] s = Some s"
| "sink_run impl cq (a # as) s =
     (case sink_do impl cq a s of None \<Rightarrow> None | Some s' \<Rightarrow> sink_run impl cq as s')"

inductive sink_reach :: "'s store_impl \<Rightarrow> cq_consts \<Rightarrow> 's sink \<Rightarrow> 's sink \<Rightarrow> bool"
  for impl :: "'s store_impl" and cq :: cq_consts and s0 :: "'s sink" where
  here: "sink_reach impl cq s0 s0"
| move: "sink_reach impl cq s0 s \<Longrightarrow> sink_do impl cq a s = Some s' \<Longrightarrow> sink_reach impl cq s0 s'"

lemma sink_run_append:
  "sink_run impl cq (as @ bs) s =
     (case sink_run impl cq as s of None \<Rightarrow> None | Some s' \<Rightarrow> sink_run impl cq bs s')"
  by (induction as arbitrary: s) (auto split: option.split)

lemma sink_reach_trans:
  assumes "sink_reach impl cq s1 s2" "sink_reach impl cq s0 s1"
  shows "sink_reach impl cq s0 s2"
  using assms by (induction rule: sink_reach.induct) (auto intro: sink_reach.move)

lemma sink_run_reach:
  "sink_run impl cq as s = Some s' \<Longrightarrow> sink_reach impl cq s s'"
proof (induction as arbitrary: s)
  case Nil
  then show ?case by (simp add: sink_reach.here)
next
  case (Cons a as)
  then obtain s1 where "sink_do impl cq a s = Some s1" "sink_run impl cq as s1 = Some s'"
    by (auto split: option.splits)
  with Cons.IH show ?case
    by (meson sink_reach.here sink_reach.move sink_reach_trans)
qed

end
