(* ===== verification/Memory_Impl.thy ===== *)
theory Memory_Impl
  imports Store_Contract
begin

text \<open>
  The in-memory store as an implementation of \<open>store.Store\<close>. Its operations never report an
  error. The interpretation discharges the contract for them.
\<close>

definition mem_Migrate :: "mem_store \<Rightarrow> store_error option" where
  "mem_Migrate s = None"

definition mem_impl :: "mem_store store_impl" where
  "mem_impl =
     \<lparr>si_Migrate = (\<lambda>s. (mem_Migrate s, s)),
      si_UpsertJobs = (\<lambda>s js. (None, mem_UpsertJobs s js)),
      si_SaveAttempts = (\<lambda>s as. (None, mem_SaveAttempts s as)),
      si_Heartbeat = (\<lambda>s e t. (None, mem_Heartbeat s e t)),
      si_ReconcileEpoch = (\<lambda>now s e d. (let (s', n) = mem_ReconcileEpoch now s e d in (Inr n, s'))),
      si_Prune = (\<lambda>s before states. (let (s', n) = mem_Prune s before states in (Inr n, s')))\<rparr>"

definition mem_row :: "mem_store \<Rightarrow> string \<Rightarrow> job option" where
  "mem_row s = map_of (ms_jobs s)"

definition mem_beat :: "mem_store \<Rightarrow> string \<Rightarrow> gotime option" where
  "mem_beat s = map_of (ms_epochs s)"

definition mem_tries :: "mem_store \<Rightarrow> string \<Rightarrow> attempt list" where
  "mem_tries s = attempts_at (ms_attempts s)"

lemmas mem_view_defs = mem_row_def mem_beat_def mem_tries_def

lemma mem_reconcile_row:
  "map_of (ms_jobs (fst (mem_ReconcileEpoch now s e d))) k =
     (case map_of (ms_jobs s) k of
        None \<Rightarrow> None
      | Some j \<Rightarrow> Some (if abandoned now d e s j then j\<lparr>job_State := StateInterrupted\<rparr> else j))"
  by (simp add: ReconcileEpoch_lookup interrupt_def orphaned_iff split: option.splits)

lemma mem_reconcile_frame:
  "ms_epochs (fst (mem_ReconcileEpoch now s e d)) = ms_epochs s"
  "ms_attempts (fst (mem_ReconcileEpoch now s e d)) = ms_attempts s"
  by (simp_all add: ReconcileEpoch_eq)

interpretation mem: store_contract mem_impl mem_inv mem_row mem_beat mem_tries id id id
    "\<lambda>_. True" "\<lambda>_. True" "\<lambda>_. True"
proof
  show "mem_inv s' \<and> mem_row s' = mem_row s \<and> mem_beat s' = mem_beat s \<and> mem_tries s' = mem_tries s"
    if "mem_inv s" "si_Migrate mem_impl s = (e, s')" for s e s'
    using that by (simp add: mem_impl_def)
  show "mem_inv s' \<and> mem_beat s' = mem_beat s \<and> mem_tries s' = mem_tries s \<and>
        mem_row s' = (\<lambda>k. fold absorb (records_for k (map id js)) (mem_row s k))"
    if "mem_inv s" "si_UpsertJobs mem_impl s js = (None, s')" for s js s'
    using that
    by (auto simp: mem_impl_def mem_inv_UpsertJobs mem_view_defs UpsertJobs_lookup fun_eq_iff)
      (simp_all add: mem_UpsertJobs_def)
  show "mem_inv s' \<and> mem_row s' = mem_row s \<and> mem_beat s' = mem_beat s \<and>
        mem_tries s' = (\<lambda>k. fold save_attempt_in (map id (filter (\<lambda>a. attempt_key a = k) as)) (mem_tries s k))"
    if "mem_inv s" "si_SaveAttempts mem_impl s as = (None, s')" for s as s'
    using that mem_inv_SaveAttempts [of s as]
    by (auto simp: mem_impl_def mem_view_defs mem_SaveAttempts_def attempts_at_fold fun_eq_iff)
  show "mem_inv s' \<and> mem_row s' = mem_row s \<and> mem_tries s' = mem_tries s \<and>
        mem_beat s' = (mem_beat s)(e \<mapsto> id t)"
    if "mem_inv s" "si_Heartbeat mem_impl s e t = (None, s')" for s e t s'
    using that mem_inv_Heartbeat [of s e t]
    by (auto simp: mem_impl_def mem_view_defs mem_Heartbeat_def)
  have reconcile: "s' = fst (mem_ReconcileEpoch now s e d)"
    if "si_ReconcileEpoch mem_impl now s e d = (r, s')" for s now e d r s'
    using that by (simp add: mem_impl_def split: prod.splits)
  show "mem_inv s' \<and> mem_beat s' = mem_beat s \<and> mem_tries s' = mem_tries s"
    if "mem_inv s" "si_ReconcileEpoch mem_impl now s e d = (r, s')" for s now e d r s'
    using that(1) unfolding reconcile [OF that(2)]
    by (simp add: mem_view_defs mem_inv_ReconcileEpoch mem_reconcile_frame)
  show "mem_row s' = (\<lambda>k. taken_over (mem_beat s) e (id (now - d)) (mem_row s k))"
    if "mem_inv s" "si_ReconcileEpoch mem_impl now s e d = (Inr n, s')" for s now e d n s'
    unfolding reconcile [OF that(2)]
    by (simp add: mem_view_defs mem_reconcile_row abandoned_def taken_over_def fun_eq_iff split: option.split)
qed (simp_all add: mem_impl_def split: prod.splits)

end
