(* ===== verification/Sink_Laws.thy ===== *)
theory Sink_Laws
  imports Sink_Steps Memory_Impl
begin

text \<open>
  What holds of the sink in every interleaving of its goroutines: no record is lost or
  duplicated between \<open>offer\<close> and the store except those counted as dropped, buffers keep
  their bounds, Close drains, and what a store holds is the fold of what the writer handed
  to it. Conservation needs no law of the store; the statements about the store's contents
  are proved in the locale \<open>store_contract\<close> and instantiated for the in-memory store.
\<close>

subsection \<open>Frames\<close>

lemma reportError_simps [simp]:
  "sk_conf (reportError err s) = sk_conf s" "sk_store (reportError err s) = sk_store s"
  "sk_epoch (reportError err s) = sk_epoch s" "sk_events (reportError err s) = sk_events s"
  "sk_dropped (reportError err s) = sk_dropped s" "sk_written (reportError err s) = sk_written s"
  "sk_started (reportError err s) = sk_started s" "sk_done (reportError err s) = sk_done s"
  "sk_stopped (reportError err s) = sk_stopped s" "sk_callers (reportError err s) = sk_callers s"
  "sk_writer (reportError err s) = sk_writer s" "sk_beater (reportError err s) = sk_beater s"
  "sk_retainer (reportError err s) = sk_retainer s" "sk_closer (reportError err s) = sk_closer s"
  "h_offered (reportError err s) = h_offered s" "h_accepted (reportError err s) = h_accepted s"
  "h_shed (reportError err s) = h_shed s" "h_flushed (reportError err s) = h_flushed s"
  "h_jobs (reportError err s) = h_jobs s" "h_attempts (reportError err s) = h_attempts s"
  "h_inflight (reportError err s) = h_inflight s" "h_late (reportError err s) = h_late s"
  by (simp_all add: reportError_def)

lemma reportError_mono: "length (sk_reported s) \<le> length (sk_reported (reportError err s))"
  by (simp add: reportError_def)

lemma flush_jobs_frame:
  "sk_conf (flush_jobs impl js s) = sk_conf s" "sk_epoch (flush_jobs impl js s) = sk_epoch s"
  "sk_events (flush_jobs impl js s) = sk_events s" "sk_dropped (flush_jobs impl js s) = sk_dropped s"
  "sk_started (flush_jobs impl js s) = sk_started s" "sk_done (flush_jobs impl js s) = sk_done s"
  "sk_stopped (flush_jobs impl js s) = sk_stopped s" "sk_callers (flush_jobs impl js s) = sk_callers s"
  "sk_writer (flush_jobs impl js s) = sk_writer s" "sk_beater (flush_jobs impl js s) = sk_beater s"
  "sk_retainer (flush_jobs impl js s) = sk_retainer s" "sk_closer (flush_jobs impl js s) = sk_closer s"
  "h_offered (flush_jobs impl js s) = h_offered s" "h_accepted (flush_jobs impl js s) = h_accepted s"
  "h_shed (flush_jobs impl js s) = h_shed s" "h_attempts (flush_jobs impl js s) = h_attempts s"
  "h_inflight (flush_jobs impl js s) = h_inflight s" "h_late (flush_jobs impl js s) = h_late s"
  by (simp_all add: flush_jobs_def split: prod.split option.split)

lemma flush_attempts_frame:
  "sk_conf (flush_attempts impl as s) = sk_conf s" "sk_epoch (flush_attempts impl as s) = sk_epoch s"
  "sk_events (flush_attempts impl as s) = sk_events s" "sk_dropped (flush_attempts impl as s) = sk_dropped s"
  "sk_started (flush_attempts impl as s) = sk_started s" "sk_done (flush_attempts impl as s) = sk_done s"
  "sk_stopped (flush_attempts impl as s) = sk_stopped s" "sk_callers (flush_attempts impl as s) = sk_callers s"
  "sk_writer (flush_attempts impl as s) = sk_writer s" "sk_beater (flush_attempts impl as s) = sk_beater s"
  "sk_retainer (flush_attempts impl as s) = sk_retainer s" "sk_closer (flush_attempts impl as s) = sk_closer s"
  "h_offered (flush_attempts impl as s) = h_offered s" "h_accepted (flush_attempts impl as s) = h_accepted s"
  "h_shed (flush_attempts impl as s) = h_shed s" "h_jobs (flush_attempts impl as s) = h_jobs s"
  "h_inflight (flush_attempts impl as s) = h_inflight s" "h_late (flush_attempts impl as s) = h_late s"
  by (simp_all add: flush_attempts_def split: prod.split option.split)

lemma flush_frame [simp]:
  "sk_conf (flush impl b s) = sk_conf s" "sk_epoch (flush impl b s) = sk_epoch s"
  "sk_events (flush impl b s) = sk_events s" "sk_dropped (flush impl b s) = sk_dropped s"
  "sk_started (flush impl b s) = sk_started s" "sk_done (flush impl b s) = sk_done s"
  "sk_stopped (flush impl b s) = sk_stopped s" "sk_callers (flush impl b s) = sk_callers s"
  "sk_writer (flush impl b s) = sk_writer s" "sk_beater (flush impl b s) = sk_beater s"
  "sk_retainer (flush impl b s) = sk_retainer s" "sk_closer (flush impl b s) = sk_closer s"
  "h_offered (flush impl b s) = h_offered s" "h_accepted (flush impl b s) = h_accepted s"
  "h_shed (flush impl b s) = h_shed s" "h_inflight (flush impl b s) = h_inflight s"
  "h_late (flush impl b s) = h_late s" "h_flushed (flush impl b s) = h_flushed s @ b"
  by (simp_all add: flush_def flush_attempts_frame flush_jobs_frame)

text \<open>The written counter and the records the store took move together.\<close>

definition written_ok :: "'s sink \<Rightarrow> bool" where
  "written_ok s \<longleftrightarrow> sk_written s = of_nat (length (h_jobs s) + length (h_attempts s))"

lemma written_ok_flush: "written_ok s \<Longrightarrow> written_ok (flush impl b s)"
  by (auto simp: written_ok_def flush_def flush_attempts_def flush_jobs_def algebra_simps
      split: prod.split option.split)

lemma written_ok_irrelevant [simp]:
  "written_ok (s\<lparr>sk_events := e\<rparr>) = written_ok s" "written_ok (s\<lparr>sk_writer := w\<rparr>) = written_ok s"
  "written_ok (s\<lparr>sk_stopped := b\<rparr>) = written_ok s" "written_ok (s\<lparr>sk_callers := cs\<rparr>) = written_ok s"
  by (simp_all add: written_ok_def)

lemma sink_beat_frame [simp]:
  "sk_conf (sink_beat impl t s) = sk_conf s" "sk_epoch (sink_beat impl t s) = sk_epoch s"
  "sk_events (sink_beat impl t s) = sk_events s" "sk_dropped (sink_beat impl t s) = sk_dropped s"
  "sk_written (sink_beat impl t s) = sk_written s"
  "sk_started (sink_beat impl t s) = sk_started s" "sk_done (sink_beat impl t s) = sk_done s"
  "sk_stopped (sink_beat impl t s) = sk_stopped s" "sk_callers (sink_beat impl t s) = sk_callers s"
  "sk_writer (sink_beat impl t s) = sk_writer s" "sk_retainer (sink_beat impl t s) = sk_retainer s"
  "sk_beater (sink_beat impl t s) = sk_beater s"
  "sk_closer (sink_beat impl t s) = sk_closer s" "h_offered (sink_beat impl t s) = h_offered s"
  "h_accepted (sink_beat impl t s) = h_accepted s" "h_shed (sink_beat impl t s) = h_shed s"
  "h_flushed (sink_beat impl t s) = h_flushed s" "h_jobs (sink_beat impl t s) = h_jobs s"
  "h_attempts (sink_beat impl t s) = h_attempts s" "h_inflight (sink_beat impl t s) = h_inflight s"
  "h_late (sink_beat impl t s) = h_late s"
  by (simp_all add: sink_beat_def split: prod.split option.split)

lemma sink_prune_frame [simp]:
  "sk_conf (sink_prune impl t s) = sk_conf s" "sk_epoch (sink_prune impl t s) = sk_epoch s"
  "sk_events (sink_prune impl t s) = sk_events s" "sk_dropped (sink_prune impl t s) = sk_dropped s"
  "sk_written (sink_prune impl t s) = sk_written s"
  "sk_started (sink_prune impl t s) = sk_started s" "sk_done (sink_prune impl t s) = sk_done s"
  "sk_stopped (sink_prune impl t s) = sk_stopped s" "sk_callers (sink_prune impl t s) = sk_callers s"
  "sk_writer (sink_prune impl t s) = sk_writer s" "sk_beater (sink_prune impl t s) = sk_beater s"
  "sk_retainer (sink_prune impl t s) = sk_retainer s"
  "sk_closer (sink_prune impl t s) = sk_closer s" "h_offered (sink_prune impl t s) = h_offered s"
  "h_accepted (sink_prune impl t s) = h_accepted s" "h_shed (sink_prune impl t s) = h_shed s"
  "h_flushed (sink_prune impl t s) = h_flushed s" "h_jobs (sink_prune impl t s) = h_jobs s"
  "h_attempts (sink_prune impl t s) = h_attempts s" "h_inflight (sink_prune impl t s) = h_inflight s"
  "h_late (sink_prune impl t s) = h_late s"
  by (simp_all add: sink_prune_def split: prod.split sum.split)

text \<open>A Start either changes the store only, or launches the goroutines.\<close>

lemma sink_Start_cases:
  obtains (store) r st where "sink_Start impl now now' s = (r, s\<lparr>sk_store := st\<rparr>)"
  | (launch) n st where
      "\<not> sk_started s" "\<not> sk_done s"
      "sink_Start impl now now' s =
         (Inr n, s\<lparr>sk_store := st, sk_started := True, sk_writer := WriterRun [], sk_beater := BeatRun,
                   sk_retainer := (if sc_retentionAge (sk_conf s) > 0 then RetainFirst else RetainOff)\<rparr>)"
proof -
  have same: "s = s\<lparr>sk_store := sk_store s\<rparr>" by simp
  show thesis
  proof (cases "sk_started s \<or> sk_done s")
    case True
    then have "sink_Start impl now now' s = (if sk_started s then Inr 0 else Inl ''sink: closed'', s)"
      unfolding sink_Start_def by (elim disjE) simp_all
    with same show thesis by (metis store)
  next
    case False
    then have fresh: "\<not> sk_started s" "\<not> sk_done s" by simp_all
    obtain m st1 where m: "si_Migrate impl (sk_store s) = (m, st1)" by fastforce
    obtain h st2 where h: "si_Heartbeat impl st1 (sk_epoch s) now = (h, st2)" by fastforce
    obtain r st3 where r: "si_ReconcileEpoch impl now' st2 (sk_epoch s) (sc_staleAfter (sk_conf s)) = (r, st3)"
      by fastforce
    note eq = sink_Start_def [of impl now now' s] fresh m h r
    show thesis
    proof (cases "m = None \<and> h = None \<and> (\<exists>n. r = Inr n)")
      case True
      then obtain n where "m = None" "h = None" "r = Inr n" by blast
      with fresh show thesis by (intro launch [of n st3]) (simp_all add: eq)
    next
      case False
      then show thesis
        by (cases m; cases h; cases r) (auto simp: eq intro: store)
    qed
  qed
qed

lemma sink_Start_success:
  assumes "sink_Start impl now now' s = (Inr n, s')" "\<not> sk_started s"
  obtains st where "\<not> sk_done s"
    "s' = s\<lparr>sk_store := st, sk_started := True, sk_writer := WriterRun [], sk_beater := BeatRun,
             sk_retainer := (if sc_retentionAge (sk_conf s) > 0 then RetainFirst else RetainOff)\<rparr>"
proof -
  have "\<not> sk_done s" using assms by (auto simp: sink_Start_def)
  with assms that show thesis
    unfolding sink_Start_def by (auto split: prod.splits option.splits sum.splits)
qed

subsection \<open>Conservation\<close>

fun held :: "writer \<Rightarrow> sink_record list" where
  "held (WriterRun batch) = batch"
| "held (WriterDrain batch) = batch"
| "held _ = []"

definition waiting :: "caller list \<Rightarrow> sink_record list" where
  "waiting callers = concat (map snd callers)"

definition conserve :: "'s sink \<Rightarrow> bool" where
  "conserve s \<longleftrightarrow>
     h_accepted s = h_flushed s @ held (sk_writer s) @ sk_events s \<and>
     mset (h_offered s) = mset (waiting (sk_callers s)) + mset (h_accepted s) + mset (h_shed s) \<and>
     sk_dropped s = of_nat (length (h_shed s)) \<and>
     (sk_writer s = WriterOff \<longleftrightarrow> \<not> sk_started s)"

lemma waiting_append [simp]: "waiting (cs @ [(b, rs)]) = waiting cs @ rs"
  by (simp add: waiting_def)

lemma mset_waiting_update:
  assumes "i < length cs" "cs ! i = (b, rs)"
  shows "mset (waiting (cs[i := (b', rs')])) + mset rs = mset (waiting cs) + mset rs'"
proof -
  define u v where "u = take i cs" and "v = drop (Suc i) cs"
  have "cs = u @ (b, rs) # v" and "cs[i := (b', rs')] = u @ (b', rs') # v"
    using assms unfolding u_def v_def by (metis id_take_nth_drop, simp add: upd_conv_take_nth_drop)
  then show ?thesis by (simp add: waiting_def)
qed

lemma waiting_same: "i < length cs \<Longrightarrow> cs ! i = (b, rs) \<Longrightarrow> waiting (cs[i := (b', rs)]) = waiting cs"
  unfolding waiting_def by (metis list_update_id map_update snd_conv)

lemma mset_waiting_pop:
  assumes "i < length cs" "cs ! i = (b, r # rest)"
  shows "mset (waiting cs) = add_mset r (mset (waiting (cs[i := (b', rest)])))"
  using mset_waiting_update [OF assms, of b' rest] by simp

text \<open>Case rules of the two halves of \<open>offer\<close> and of the receive.\<close>

lemma offer_check_cases:
  assumes "offer_check i s = Some s'"
  obtains (dropped) r rest where "i < length (sk_callers s)" "sk_callers s ! i = (False, r # rest)" "sk_done s"
      "s' = (drop_record r s)\<lparr>sk_callers := (sk_callers s)[i := (False, rest)]\<rparr>"
  | (passed) r rest where "i < length (sk_callers s)" "sk_callers s ! i = (False, r # rest)" "\<not> sk_done s"
      "s' = s\<lparr>sk_callers := (sk_callers s)[i := (True, r # rest)]\<rparr>"
  using assms by (auto simp: offer_check_def split: if_splits prod.splits list.splits bool.splits)

lemma offer_send_cases:
  assumes "offer_send i s = Some s'"
  obtains (sent) r rest where "i < length (sk_callers s)" "sk_callers s ! i = (True, r # rest)"
      "int (length (sk_events s)) < sc_buffer (sk_conf s)"
      "s' = s\<lparr>sk_events := sk_events s @ [r], h_accepted := h_accepted s @ [r],
              h_late := (if sk_done s then h_late s @ [r] else h_late s),
              sk_callers := (sk_callers s)[i := (False, rest)]\<rparr>"
  | (shed) r rest where "i < length (sk_callers s)" "sk_callers s ! i = (True, r # rest)"
      "s' = (drop_record r s)\<lparr>sk_callers := (sk_callers s)[i := (False, rest)]\<rparr>"
  using assms by (auto simp: offer_send_def split: if_splits prod.splits list.splits bool.splits)

lemma take_event_cases:
  assumes "take_event impl pc batch s = Some s'"
  obtains (full) r rest where "sk_events s = r # rest" "int (length (batch @ [r])) \<ge> sc_batchSize (sk_conf s)"
      "s' = (flush impl (batch @ [r]) (s\<lparr>sk_events := rest\<rparr>))\<lparr>sk_writer := pc []\<rparr>"
  | (more) r rest where "sk_events s = r # rest" "int (length (batch @ [r])) < sc_batchSize (sk_conf s)"
      "s' = s\<lparr>sk_events := rest, sk_writer := pc (batch @ [r])\<rparr>"
  using assms by (auto simp: take_event_def Let_def split: list.splits if_splits)

lemma drop_record_simps [simp]:
  "sk_conf (drop_record r s) = sk_conf s" "sk_store (drop_record r s) = sk_store s"
  "sk_epoch (drop_record r s) = sk_epoch s" "sk_events (drop_record r s) = sk_events s"
  "sk_dropped (drop_record r s) = sk_dropped s + 1" "sk_written (drop_record r s) = sk_written s"
  "sk_started (drop_record r s) = sk_started s" "sk_done (drop_record r s) = sk_done s"
  "sk_stopped (drop_record r s) = sk_stopped s" "sk_callers (drop_record r s) = sk_callers s"
  "sk_writer (drop_record r s) = sk_writer s" "sk_beater (drop_record r s) = sk_beater s"
  "sk_retainer (drop_record r s) = sk_retainer s" "sk_closer (drop_record r s) = sk_closer s"
  "h_offered (drop_record r s) = h_offered s" "h_accepted (drop_record r s) = h_accepted s"
  "h_shed (drop_record r s) = h_shed s @ [r]" "h_flushed (drop_record r s) = h_flushed s"
  "h_jobs (drop_record r s) = h_jobs s" "h_attempts (drop_record r s) = h_attempts s"
  "h_inflight (drop_record r s) = h_inflight s" "h_late (drop_record r s) = h_late s"
  by (simp_all add: drop_record_def)

lemma conserve_offer_check: "offer_check i s = Some s' \<Longrightarrow> conserve s \<Longrightarrow> conserve s'"
  by (erule offer_check_cases)
    (auto simp: conserve_def waiting_same dest: mset_waiting_pop [where b' = False])

lemma conserve_offer_send: "offer_send i s = Some s' \<Longrightarrow> conserve s \<Longrightarrow> conserve s'"
  by (erule offer_send_cases)
    (auto simp: conserve_def dest: mset_waiting_pop [where b' = False])

lemma conserve_take_event:
  assumes "take_event impl pc batch s = Some s'" "conserve s" "sk_writer s = pc batch"
    and "\<And>b. held (pc b) = b" "\<And>b. pc b \<noteq> WriterOff"
  shows "conserve s'"
  using assms by (cases rule: take_event_cases [OF assms(1)]) (auto simp: conserve_def)

lemma conserve_Start: "conserve s \<Longrightarrow> conserve (snd (sink_Start impl now now' s))"
  by (cases impl now now' s rule: sink_Start_cases) (auto simp: conserve_def)

lemma conserve_step:
  assumes "sink_do impl cq a s = Some s'" "conserve s"
  shows "conserve s'"
proof (cases a)
  case RunRecv
  with assms show ?thesis
    by (auto split: writer.splits intro: conserve_take_event [of impl WriterRun])
next
  case DrainRecv
  with assms show ?thesis
    by (auto split: writer.splits intro: conserve_take_event [of impl WriterDrain])
qed (use assms in \<open>auto simp: conserve_Start Let_def intro: conserve_offer_check conserve_offer_send\<close>,
     auto simp: conserve_def split: writer.splits closer.splits if_splits)

subsection \<open>Shape, bounds, and what is late\<close>

definition shape :: "'s sink \<Rightarrow> bool" where
  "shape s \<longleftrightarrow>
     conf_ok (sk_conf s) \<and>
     int (length (sk_events s)) \<le> sc_buffer (sk_conf s) \<and>
     int (length (held (sk_writer s))) < sc_batchSize (sk_conf s) \<and>
     (sk_started s \<longleftrightarrow> sk_writer s \<noteq> WriterOff) \<and>
     (sk_stopped s \<longleftrightarrow> sk_writer s = WriterExit) \<and>
     (sk_writer s = WriterExit \<or> (\<exists>b. sk_writer s = WriterDrain b) \<longrightarrow> sk_done s) \<and>
     (case sk_closer s of
        CloseOff \<Rightarrow> \<not> sk_done s
      | CloseRead started \<Rightarrow> \<not> sk_done s \<and> (started \<longrightarrow> sk_started s)
      | CloseWait started \<Rightarrow> sk_done s \<and> (started \<longrightarrow> sk_started s)
      | CloseReturned started \<Rightarrow> sk_done s \<and> (started \<longrightarrow> sk_stopped s))"

lemma shape_conf: "shape s \<Longrightarrow> 0 < sc_batchSize (sk_conf s) \<and> 0 < sc_buffer (sk_conf s)"
  by (simp add: shape_def conf_ok_def)

lemma shape_offer_check: "offer_check i s = Some s' \<Longrightarrow> shape s \<Longrightarrow> shape s'"
  by (erule offer_check_cases) (auto simp: shape_def cong: closer.case_cong)

lemma shape_offer_send: "offer_send i s = Some s' \<Longrightarrow> shape s \<Longrightarrow> shape s'"
  by (erule offer_send_cases) (auto simp: shape_def cong: closer.case_cong)

lemma shape_take_event:
  assumes "take_event impl pc batch s = Some s'" "shape s" "sk_writer s = pc batch"
    and "pc = WriterRun \<or> pc = WriterDrain"
  shows "shape s'"
  using assms(2-4) shape_conf [OF assms(2)]
  by (cases rule: take_event_cases [OF assms(1)]) (auto simp: shape_def cong: closer.case_cong)

lemma shape_Start: "shape s \<Longrightarrow> shape (snd (sink_Start impl now now' s))"
  by (cases impl now now' s rule: sink_Start_cases)
    (auto simp: shape_def conf_ok_def split: closer.splits)

lemma shape_step:
  assumes "sink_do impl cq a s = Some s'" "shape s"
  shows "shape s'"
proof (cases a)
  case RunRecv
  with assms show ?thesis
    by (auto split: writer.splits intro: shape_take_event [of impl WriterRun])
next
  case DrainRecv
  with assms show ?thesis
    by (auto split: writer.splits intro: shape_take_event [of impl WriterDrain])
next
  case RunTick
  with assms shape_conf [OF assms(2)] show ?thesis
    by (auto simp: shape_def split: writer.splits cong: closer.case_cong)
next
  case RunDone
  with assms show ?thesis
    by (auto simp: shape_def split: writer.splits if_splits cong: closer.case_cong)
next
  case DrainEnd
  with assms shape_conf [OF assms(2)] show ?thesis
    by (cases "sk_closer s") (auto simp: shape_def split: writer.splits if_splits)
next
  case CloseEnter
  with assms show ?thesis by (auto simp: shape_def split: if_splits)
next
  case CloseSignal
  with assms show ?thesis by (auto simp: shape_def split: closer.splits)
next
  case CloseReturn
  with assms show ?thesis by (auto simp: shape_def split: closer.splits if_splits)
qed (use assms in \<open>auto simp: shape_Start Let_def intro: shape_offer_check shape_offer_send\<close>,
     auto simp: shape_def split: if_splits cong: closer.case_cong)

text \<open>
  \<open>h_inflight\<close> are the records whose callers had passed the test of \<open>done\<close> when it was
  closed; \<open>h_late\<close> those of them that entered the buffer afterwards.
\<close>

definition lateness :: "'s sink \<Rightarrow> bool" where
  "lateness s \<longleftrightarrow>
     (if sk_done s then mset (poised (sk_callers s)) + mset (h_late s) \<subseteq># mset (h_inflight s)
      else h_late s = []) \<and>
     (sk_writer s = WriterExit \<longrightarrow> mset (sk_events s) \<subseteq># mset (h_late s))"

lemma poised_append [simp]: "poised (cs @ [(False, rs)]) = poised cs"
  by (simp add: poised_def)

lemma poised_split:
  "poised (u @ c # v) = poised u @ poised [c] @ poised v"
  by (simp add: poised_def)

lemma poised_update:
  assumes "i < length cs"
  shows "mset (poised (cs[i := c])) + mset (poised [cs ! i]) = mset (poised cs) + mset (poised [c])"
proof -
  define u v where "u = take i cs" and "v = drop (Suc i) cs"
  have 1: "cs = u @ (cs ! i) # v" and 2: "cs[i := c] = u @ c # v"
    using assms unfolding u_def v_def by (metis id_take_nth_drop, simp add: upd_conv_take_nth_drop)
  have "mset (poised cs) = mset (poised u) + mset (poised [cs ! i]) + mset (poised v)"
    by (subst 1) (simp add: poised_split)
  then show ?thesis by (simp add: 2 poised_split)
qed

lemma poised_drop:
  assumes "i < length cs" "cs ! i = (False, r # rest)"
  shows "mset (poised (cs[i := (False, rest)])) = mset (poised cs)"
  using poised_update [OF assms(1), of "(False, rest)"] assms(2) by (simp add: poised_def)

lemma poised_send:
  assumes "i < length cs" "cs ! i = (True, r # rest)"
  shows "mset (poised cs) = add_mset r (mset (poised (cs[i := (False, rest)])))"
  using poised_update [OF assms(1), of "(False, rest)"] assms(2) by (simp add: poised_def)

lemma lateness_offer_check: "offer_check i s = Some s' \<Longrightarrow> lateness s \<Longrightarrow> lateness s'"
  by (erule offer_check_cases) (auto simp: lateness_def poised_drop)

lemma add_mset_subset: "add_mset x A \<subseteq># B \<Longrightarrow> A \<subseteq># B"
  by (meson mset_subset_eq_insertD subset_mset.less_imp_le)

lemma lateness_offer_send:
  assumes "offer_send i s = Some s'" "lateness s" "sk_writer s = WriterExit \<longrightarrow> sk_done s"
  shows "lateness s'"
  using assms(1)
proof (cases rule: offer_send_cases)
  case (sent r rest)
  with assms(2,3) poised_send [OF sent(1,2)] show ?thesis by (auto simp: lateness_def)
next
  case (shed r rest)
  with assms(2) poised_send [OF shed(1,2)] show ?thesis
    by (auto simp: lateness_def dest: add_mset_subset)
qed

lemma lateness_take_event:
  assumes "take_event impl pc batch s = Some s'" "lateness s" "sk_writer s = pc batch"
    and "\<And>b. pc b \<noteq> WriterExit"
  shows "lateness s'"
  using assms(2-4) by (cases rule: take_event_cases [OF assms(1)]) (auto simp: lateness_def)

lemma lateness_Start: "lateness s \<Longrightarrow> lateness (snd (sink_Start impl now now' s))"
  by (cases impl now now' s rule: sink_Start_cases) (auto simp: lateness_def)

lemma lateness_step:
  assumes "sink_do impl cq a s = Some s'" "lateness s" "shape s"
  shows "lateness s'"
proof (cases a)
  case RunRecv
  with assms show ?thesis
    by (auto split: writer.splits intro: lateness_take_event [of impl WriterRun])
next
  case DrainRecv
  with assms show ?thesis
    by (auto split: writer.splits intro: lateness_take_event [of impl WriterDrain])
next
  case (OfferSend i)
  with assms show ?thesis by (auto simp: shape_def intro: lateness_offer_send)
next
  case CloseSignal
  with assms show ?thesis by (auto simp: lateness_def shape_def split: closer.splits)
qed (use assms in \<open>auto simp: lateness_Start Let_def intro: lateness_offer_check\<close>,
     auto simp: lateness_def split: writer.splits closer.splits if_splits)

lemma written_ok_step:
  assumes "sink_do impl cq a s = Some s'" "written_ok s"
  shows "written_ok s'"
proof (cases a)
  case (Start now now')
  with assms show ?thesis
    by (cases impl now now' s rule: sink_Start_cases) (auto simp: written_ok_def)
next
  case (OfferCheck i)
  with assms show ?thesis by (auto simp: written_ok_def elim!: offer_check_cases)
next
  case (OfferSend i)
  with assms show ?thesis by (auto simp: written_ok_def elim!: offer_send_cases)
next
  case RunRecv
  with assms show ?thesis by (auto simp: written_ok_flush split: writer.splits elim!: take_event_cases)
next
  case DrainRecv
  with assms show ?thesis by (auto simp: written_ok_flush split: writer.splits elim!: take_event_cases)
next
  case RunTick
  with assms show ?thesis by (auto simp: written_ok_flush split: writer.splits)
next
  case DrainEnd
  with assms show ?thesis by (auto simp: written_ok_flush split: writer.splits if_splits)
qed (use assms in \<open>auto simp: Let_def written_ok_def split: writer.splits closer.splits if_splits\<close>)

subsection \<open>Every interleaving\<close>

definition sink_inv :: "'s sink \<Rightarrow> bool" where
  "sink_inv s \<longleftrightarrow> conserve s \<and> shape s \<and> lateness s \<and> written_ok s"

lemma sink_inv_New: "sink_inv (sink_New st now pid opts)"
  using conf_ok_options [of opts]
  by (simp add: sink_inv_def conserve_def shape_def lateness_def written_ok_def sink_New_def
      waiting_def conf_ok_def)

lemma sink_inv_step: "sink_do impl cq a s = Some s' \<Longrightarrow> sink_inv s \<Longrightarrow> sink_inv s'"
  unfolding sink_inv_def
  by (blast intro: conserve_step shape_step lateness_step written_ok_step)

lemma sink_reach_inv: "sink_reach impl cq s0 s \<Longrightarrow> sink_inv s0 \<Longrightarrow> sink_inv s"
  by (induction rule: sink_reach.induct) (auto intro: sink_inv_step)

lemmas sink_inv_reachable = sink_reach_inv [OF _ sink_inv_New]

text \<open>A concrete run for the witnesses: one enqueue recorded by a sink over the in-memory store.\<close>

definition demo_cq :: cq_consts where
  "demo_cq = \<lparr>cq_RootID = ''root'', cq_ParentID = ''parent''\<rparr>"

definition demo_event :: cq_event where
  "demo_event =
     \<lparr>ev_ID = ''1'', ev_Name = ''mail'', ev_QueueName = ''demo'', ev_Attributes = [],
      ev_EnqueuedAt = 7, ev_StartedAt = zeroTime, ev_FinishedAt = zeroTime, ev_WaitDuration = 0,
      ev_ExecutionDuration = 0, ev_Attempt = 0, ev_Err = None\<rparr>"

definition demo_sink :: "mem_store sink" where
  "demo_sink = sink_New mem_Open 3 4 [OptBuffer 1, OptBatchSize 2]"

lemmas demo_defs =
  demo_cq_def demo_event_def demo_sink_def sink_New_def default_conf_def WithBuffer_def
  WithBatchSize_def sink_Start_def mem_impl_def mem_Migrate_def mem_Heartbeat_def
  mem_ReconcileEpoch_def mem_Open_def offer_check_def offer_send_def take_event_def flush_def
  flush_jobs_def flush_attempts_def batch_jobs_def batch_attempts_def drop_record_def
  offerJob_def offerAttempt_def job_record_def attempt_record_def poised_def Let_def

text \<open>
  C1. No record is lost silently or written twice while the writer runs. In every
  interleaving of callers, writer, heartbeat, retention and Close, the records the channel
  accepted are exactly, and in order, those handed to the store, then those in the writer's
  batch, then those in the channel; every record offered is still with its caller, accepted,
  or shed; and the dropped counter is the number shed (modulo \<open>2\<^sup>6\<^sup>4\<close>).
\<close>

theorem sink_conservation:
  assumes "sink_reach impl cq (sink_New st now pid opts) s"
  shows "h_accepted s = h_flushed s @ held (sk_writer s) @ sk_events s \<and>
         mset (h_offered s) = mset (waiting (sk_callers s)) + mset (h_accepted s) + mset (h_shed s) \<and>
         sk_dropped s = of_nat (length (h_shed s)) \<and>
         sk_written s = of_nat (length (h_jobs s) + length (h_attempts s))"
  using sink_inv_reachable [OF assms] by (simp add: sink_inv_def conserve_def written_ok_def)

theorem sink_conservation_witness:
  "\<exists>s. sink_run mem_impl demo_cq
         [Start 5 5, Call (HookCall OnEnqueue demo_event), OfferCheck 0, OfferSend 0,
          Call (HookCall OnStart demo_event), OfferCheck 1, OfferSend 1, RunRecv, RunTick] demo_sink = Some s \<and>
       sk_dropped s = of_nat (length (h_shed s)) \<and> length (h_shed s) = 1 \<and>
       h_accepted s = h_flushed s @ held (sk_writer s) @ sk_events s \<and> length (h_flushed s) = 1"
proof -
  obtain s where run: "sink_run mem_impl demo_cq
         [Start 5 5, Call (HookCall OnEnqueue demo_event), OfferCheck 0, OfferSend 0,
          Call (HookCall OnStart demo_event), OfferCheck 1, OfferSend 1, RunRecv, RunTick] demo_sink = Some s"
      and "length (h_shed s) = 1" "length (h_flushed s) = 1"
    by (simp add: demo_defs)
  with sink_conservation [OF sink_run_reach [OF run [unfolded demo_sink_def]]] show ?thesis by blast
qed

text \<open>
  C33. The buffers keep their bounds in every interleaving: the channel never holds more than
  the configured buffer, the writer's batch is always short of the batch size when the writer
  waits, so no transaction is larger than the batch size, and the options can only produce
  positive sizes and periods.
\<close>

theorem sink_bounds:
  assumes "sink_reach impl cq (sink_New st now pid opts) s"
  shows "int (length (sk_events s)) \<le> sc_buffer (sk_conf s) \<and>
         int (length (held (sk_writer s))) < sc_batchSize (sk_conf s) \<and>
         0 < sc_buffer (sk_conf s) \<and> 0 < sc_flushTick (sk_conf s) \<and> 0 < sc_heartbeat (sk_conf s) \<and>
         (0 < sc_retentionAge (sk_conf s) \<longrightarrow> 0 < sc_retentionTick (sk_conf s))"
  using sink_inv_reachable [OF assms] by (simp add: sink_inv_def shape_def conf_ok_def)

theorem sink_bounds_witness:
  "\<exists>s. sink_run mem_impl demo_cq
         [Start 5 5, Call (HookCall OnEnqueue demo_event), OfferCheck 0, OfferSend 0, RunRecv] demo_sink = Some s \<and>
       int (length (held (sk_writer s))) < sc_batchSize (sk_conf s) \<and> length (held (sk_writer s)) = 1"
proof -
  obtain s where run: "sink_run mem_impl demo_cq
         [Start 5 5, Call (HookCall OnEnqueue demo_event), OfferCheck 0, OfferSend 0, RunRecv] demo_sink = Some s"
      and "length (held (sk_writer s)) = 1"
    by (simp add: demo_defs)
  with sink_bounds [OF sink_run_reach [OF run [unfolded demo_sink_def]]] show ?thesis by blast
qed

subsection \<open>Closing\<close>

text \<open>
  C15. A Close that waited for the writer leaves nothing behind but what was in flight: once it
  has returned, the writer has exited, everything the channel accepted has been handed to
  the store except what is still in the channel, and what is still there was offered by a
  caller that had passed the test of \<open>done\<close> before Close closed it. With no such caller,
  everything accepted has been flushed.
\<close>

theorem Close_leaves_only_inflight:
  assumes "sink_reach impl cq (sink_New st now pid opts) s" "sk_closer s = CloseReturned True"
  shows "sk_writer s = WriterExit \<and> h_accepted s = h_flushed s @ sk_events s \<and>
         mset (sk_events s) \<subseteq># mset (h_inflight s) \<and>
         (h_inflight s = [] \<longrightarrow> h_flushed s = h_accepted s)"
proof -
  have inv: "conserve s" "shape s" "lateness s"
    using sink_inv_reachable [OF assms(1)] by (simp_all add: sink_inv_def)
  then have exit: "sk_writer s = WriterExit" "sk_done s"
    using assms(2) by (auto simp: shape_def)
  with inv(3) have "mset (sk_events s) \<subseteq># mset (h_late s)"
      "mset (poised (sk_callers s)) + mset (h_late s) \<subseteq># mset (h_inflight s)"
    by (simp_all add: lateness_def)
  then have sub: "mset (sk_events s) \<subseteq># mset (h_inflight s)"
    by (metis mset_subset_eq_add_right subset_mset.trans)
  with exit inv(1) show ?thesis by (auto simp: conserve_def)
qed

theorem Close_leaves_only_inflight_witness:
  "\<exists>s. sink_run mem_impl demo_cq
         [Start 5 5, Call (HookCall OnEnqueue demo_event), OfferCheck 0, OfferSend 0,
          CloseEnter, CloseSignal, RunDone, DrainRecv, DrainEnd, CloseReturn] demo_sink = Some s \<and>
       h_flushed s = h_accepted s \<and> length (h_accepted s) = 1"
proof -
  obtain s where run: "sink_run mem_impl demo_cq
         [Start 5 5, Call (HookCall OnEnqueue demo_event), OfferCheck 0, OfferSend 0,
          CloseEnter, CloseSignal, RunDone, DrainRecv, DrainEnd, CloseReturn] demo_sink = Some s"
      and "sk_closer s = CloseReturned True" "h_inflight s = []" "length (h_accepted s) = 1"
    by (simp add: demo_defs)
  with Close_leaves_only_inflight [OF sink_run_reach [OF run [unfolded demo_sink_def]]]
  show ?thesis by blast
qed

text \<open>
  The in-flight records are a real gap: a caller that tested \<open>done\<close> just before Close can put
  its record into the channel after the writer has gone. The record is neither written nor
  counted as dropped.
\<close>

lemma offer_strands_record:
  "\<exists>s. sink_run mem_impl demo_cq
         [Start 5 5, Call (HookCall OnEnqueue demo_event), OfferCheck 0, CloseEnter, CloseSignal,
          RunDone, DrainEnd, CloseReturn, OfferSend 0] demo_sink = Some s \<and>
       sk_closer s = CloseReturned True \<and> sk_callers s = [(False, [])] \<and> length (h_offered s) = 1 \<and>
       sk_written s = 0 \<and> sk_dropped s = 0 \<and> length (sk_events s) = 1"
  by (simp add: demo_defs)

text \<open>
  Close returns without waiting for the goroutine that retires the epoch: the heartbeat in
  the store can still be fresh, and a restart would wait out the staleness window.
\<close>

lemma Close_before_retirement:
  "\<exists>s. sink_run mem_impl demo_cq
         [Start 5 5, CloseEnter, CloseSignal, RunDone, DrainEnd, CloseReturn] demo_sink = Some s \<and>
       sk_closer s = CloseReturned True \<and> sk_beater s = BeatRun \<and>
       mem_beat (sk_store s) (sk_epoch s) = Some 5"
  by (simp add: demo_defs mem_beat_def)

end
