(* ===== verification/Sink_History.thy ===== *)
theory Sink_History
  imports Sink_Laws
begin

text \<open>
  From events to rows: what the store holds after any run of the sink, that silence of the
  error handler means nothing was lost on the way, what Start does on each of its branches
  and to the work of other processes, and which row a job's events add up to. The facts that
  depend on a store are proved from the laws of \<open>store_contract\<close>.
\<close>

subsection \<open>Silence means written\<close>

definition quiet :: "'s sink \<Rightarrow> bool" where
  "quiet s \<longleftrightarrow> (sc_onError (sk_conf s) \<and> sk_reported s = [] \<longrightarrow>
     h_jobs s = batch_jobs (h_flushed s) \<and> h_attempts s = batch_attempts (h_flushed s))"

lemma batch_append [simp]:
  "batch_jobs (a @ b) = batch_jobs a @ batch_jobs b"
  "batch_attempts (a @ b) = batch_attempts a @ batch_attempts b"
  "batch_jobs [] = []" "batch_attempts [] = []"
  by (simp_all add: batch_jobs_def batch_attempts_def)

lemma length_batch: "length (batch_jobs b) + length (batch_attempts b) = length b"
  unfolding batch_jobs_def batch_attempts_def by (simp add: sum_length_filter_compl)

lemma quiet_flush: "quiet s \<Longrightarrow> quiet (flush impl b s)"
  unfolding quiet_def flush_def flush_jobs_def flush_attempts_def reportError_def
  by (auto split: prod.split option.split)

lemma quiet_irrelevant [simp]:
  "quiet (s\<lparr>sk_events := e\<rparr>) = quiet s" "quiet (s\<lparr>sk_writer := w\<rparr>) = quiet s"
  "quiet (s\<lparr>sk_stopped := b\<rparr>) = quiet s" "quiet (s\<lparr>sk_callers := cs\<rparr>) = quiet s"
  by (simp_all add: quiet_def)

lemma quiet_beat: "quiet s \<Longrightarrow> quiet (sink_beat impl t s)"
  by (auto simp: quiet_def sink_beat_def reportError_def split: prod.split option.split)

lemma quiet_prune: "quiet s \<Longrightarrow> quiet (sink_prune impl t s)"
  by (auto simp: quiet_def sink_prune_def reportError_def split: prod.split sum.split)

lemma quiet_goroutine [simp]:
  "quiet (s\<lparr>sk_beater := b\<rparr>) = quiet s" "quiet (s\<lparr>sk_retainer := r\<rparr>) = quiet s"
  by (simp_all add: quiet_def)

lemma quiet_step:
  assumes "sink_do impl cq a s = Some s'" "quiet s"
  shows "quiet s'"
proof (cases a)
  case (Start now now')
  with assms show ?thesis
    by (cases impl now now' s rule: sink_Start_cases) (auto simp: quiet_def)
next
  case (OfferCheck i)
  with assms show ?thesis by (auto simp: quiet_def drop_record_def elim!: offer_check_cases)
next
  case (OfferSend i)
  with assms show ?thesis by (auto simp: quiet_def drop_record_def elim!: offer_send_cases)
next
  case RunRecv
  with assms show ?thesis by (auto simp: quiet_flush split: writer.splits elim!: take_event_cases)
next
  case DrainRecv
  with assms show ?thesis by (auto simp: quiet_flush split: writer.splits elim!: take_event_cases)
next
  case RunTick
  with assms show ?thesis by (auto simp: quiet_flush split: writer.splits)
next
  case DrainEnd
  with assms show ?thesis by (auto simp: quiet_flush split: writer.splits if_splits)
next
  case (Call c)
  with assms show ?thesis by (auto simp: quiet_def Let_def)
next
  case RunDone
  with assms show ?thesis by (auto split: writer.splits if_splits)
qed (use assms in \<open>auto simp: quiet_beat quiet_prune split: if_splits\<close>,
     auto simp: quiet_def split: closer.splits if_splits)

lemma quiet_reach: "sink_reach impl cq s0 s \<Longrightarrow> quiet s0 \<Longrightarrow> quiet s"
  by (induction rule: sink_reach.induct) (auto intro: quiet_step)

lemma quiet_New: "quiet (sink_New st now pid opts)"
  by (simp add: quiet_def sink_New_def)

text \<open>
  When an error handler is configured and has not been called, nothing handed to the store
  was lost there: the jobs and the attempts the store took are, in order, those of the
  flushed records, and the written counter is their number (modulo \<open>2\<^sup>6\<^sup>4\<close>), whatever store
  is behind the sink and however often it fails.
\<close>

theorem silence_means_written:
  assumes "sink_reach impl cq (sink_New st now pid opts) s"
    and "sc_onError (sk_conf s)" "sk_reported s = []"
  shows "h_jobs s = batch_jobs (h_flushed s) \<and> h_attempts s = batch_attempts (h_flushed s) \<and>
         sk_written s = of_nat (length (h_flushed s))"
proof -
  have "quiet s" by (rule quiet_reach [OF assms(1) quiet_New])
  moreover have "written_ok s" using sink_inv_reachable [OF assms(1)] by (simp add: sink_inv_def)
  ultimately show ?thesis
    using assms(2,3) length_batch [of "h_flushed s"] by (simp add: quiet_def written_ok_def)
qed

definition failing_impl :: "mem_store store_impl" where
  "failing_impl = mem_impl\<lparr>si_UpsertJobs := (\<lambda>s js. (Some ''disk full'', s))\<rparr>"

theorem silence_means_written_witness:
  "\<exists>s. sink_run mem_impl demo_cq
         [Start 5 5, Call (HookCall OnEnqueue demo_event), OfferCheck 0, OfferSend 0, RunRecv, RunTick]
         (sink_New mem_Open 3 4 [OptErrorHandler True]) = Some s \<and>
       sk_written s = of_nat (length (h_flushed s)) \<and> length (h_flushed s) = 1"
proof -
  obtain s where run: "sink_run mem_impl demo_cq
         [Start 5 5, Call (HookCall OnEnqueue demo_event), OfferCheck 0, OfferSend 0, RunRecv, RunTick]
         (sink_New mem_Open 3 4 [OptErrorHandler True]) = Some s"
      and "sc_onError (sk_conf s)" "sk_reported s = []" "length (h_flushed s) = 1"
    by (simp add: demo_defs WithErrorHandler_def)
  with silence_means_written [OF sink_run_reach [OF run]] show ?thesis by blast
qed

text \<open>Without silence the loss is real: a failed write is in neither counter.\<close>

lemma failed_write_is_uncounted:
  "\<exists>s. sink_run failing_impl demo_cq
         [Start 5 5, Call (HookCall OnEnqueue demo_event), OfferCheck 0, OfferSend 0, RunRecv, RunTick]
         (sink_New mem_Open 3 4 [OptErrorHandler True]) = Some s \<and>
       sk_written s = 0 \<and> sk_dropped s = 0 \<and> length (h_flushed s) = 1 \<and> sk_reported s = [''disk full'']"
  by (simp add: demo_defs WithErrorHandler_def failing_impl_def reportError_def mem_SaveAttempts_def)

subsection \<open>Start\<close>

text \<open>
  The answer of the store to the calls of Start, one after the other: the error of the first
  that fails, or what reconciliation returned.
\<close>

definition start_answer :: "'s store_impl \<Rightarrow> gotime \<Rightarrow> gotime \<Rightarrow> 's sink \<Rightarrow> store_error + nat" where
  "start_answer impl now now' s =
     (let (m, st1) = si_Migrate impl (sk_store s);
          (e, st2) = si_Heartbeat impl st1 (sk_epoch s) now;
          (r, st3) = si_ReconcileEpoch impl now' st2 (sk_epoch s) (sc_staleAfter (sk_conf s))
      in case m of Some err \<Rightarrow> Inl err
         | None \<Rightarrow> (case e of Some err \<Rightarrow> Inl err | None \<Rightarrow> r))"

text \<open>When a Start launches the goroutines.\<close>

definition launches :: "'s store_impl \<Rightarrow> gotime \<Rightarrow> gotime \<Rightarrow> 's sink \<Rightarrow> bool" where
  "launches impl now now' s \<longleftrightarrow> \<not> sk_started s \<and> \<not> sk_done s \<and> \<not> isl (start_answer impl now now' s)"

lemma Start_answers:
  "fst (sink_Start impl now now' s) =
     (if sk_started s then Inr 0 else if sk_done s then Inl ''sink: closed'' else start_answer impl now now' s)"
  by (simp add: sink_Start_def start_answer_def Let_def split: prod.split option.split sum.split)

lemma Start_launches: "sk_started (snd (sink_Start impl now now' s)) \<longleftrightarrow> sk_started s \<or> launches impl now now' s"
  by (auto simp: sink_Start_def start_answer_def launches_def Let_def split: prod.split option.split sum.split)

lemma Start_refused:
  "\<not> launches impl now now' s \<Longrightarrow> \<exists>st. snd (sink_Start impl now now' s) = s\<lparr>sk_store := st\<rparr>"
  by (cases impl now now' s rule: sink_Start_cases)
    (use Start_launches [of impl now now' s] in auto)

lemma move_starts:
  assumes "sink_do impl cq a s = Some s'"
  shows "sk_started s' \<longleftrightarrow> sk_started s \<or> (\<exists>t t'. a = Start t t' \<and> launches impl t t' s)"
proof (cases a)
  case (Start now now')
  with assms Start_launches [of impl now now' s] show ?thesis by auto
qed (use assms in \<open>auto simp: Let_def elim!: offer_check_cases offer_send_cases take_event_cases
       split: writer.splits closer.splits if_splits\<close>)

lemma split_snoc:
  "(\<exists>as1 as2. as @ [a] = as1 @ b # as2 \<and> P as1) \<longleftrightarrow> a = b \<and> P as \<or> (\<exists>as1 as2. as = as1 @ b # as2 \<and> P as1)"
proof
  assume "\<exists>as1 as2. as @ [a] = as1 @ b # as2 \<and> P as1"
  then obtain as1 as2 where "as @ [a] = as1 @ b # as2" "P as1" by blast
  then show "a = b \<and> P as \<or> (\<exists>as1 as2. as = as1 @ b # as2 \<and> P as1)"
    by (cases as2 rule: rev_cases) auto
next
  assume "a = b \<and> P as \<or> (\<exists>as1 as2. as = as1 @ b # as2 \<and> P as1)"
  then show "\<exists>as1 as2. as @ [a] = as1 @ b # as2 \<and> P as1"
  proof
    assume "\<exists>as1 as2. as = as1 @ b # as2 \<and> P as1"
    then obtain as1 as2 where "as = as1 @ b # as2" "P as1" by blast
    then show ?thesis by (intro exI [of _ as1] exI [of _ "as2 @ [a]"]) simp
  qed blast
qed

definition started_by :: "'s store_impl \<Rightarrow> cq_consts \<Rightarrow> 's sink \<Rightarrow> gotime \<Rightarrow> gotime \<Rightarrow> sink_action list \<Rightarrow> bool" where
  "started_by impl cq s0 t t' as1 \<longleftrightarrow> (\<exists>s1. sink_run impl cq as1 s0 = Some s1 \<and> launches impl t t' s1)"

lemma run_starts:
  "sink_run impl cq as s0 = Some s \<Longrightarrow> \<not> sk_started s0 \<Longrightarrow>
   sk_started s \<longleftrightarrow> (\<exists>t t'. \<exists>as1 as2. as = as1 @ Start t t' # as2 \<and> started_by impl cq s0 t t' as1)"
proof (induction as arbitrary: s rule: rev_induct)
  case (snoc a as)
  then obtain s1 where s1: "sink_run impl cq as s0 = Some s1" "sink_do impl cq a s1 = Some s"
    by (auto simp: sink_run_append split: option.splits)
  show ?case
    unfolding move_starts [OF s1(2)] snoc.IH [OF s1(1) snoc.prems(2)] split_snoc
    using s1(1) by (auto simp: started_by_def)
qed simp

text \<open>The heartbeat runs on a started sink, the retention loop where an age is configured too.\<close>

definition attended :: "'s sink \<Rightarrow> bool" where
  "attended s \<longleftrightarrow> (sk_beater s \<noteq> BeatOff \<longleftrightarrow> sk_started s) \<and>
     (sk_retainer s \<noteq> RetainOff \<longleftrightarrow> sk_started s \<and> 0 < sc_retentionAge (sk_conf s))"

lemma attended_step:
  assumes "sink_do impl cq a s = Some s'" "attended s"
  shows "attended s'"
proof (cases a)
  case (Start now now')
  with assms show ?thesis
    by (cases impl now now' s rule: sink_Start_cases) (auto simp: attended_def split: if_splits)
qed (use assms in \<open>auto simp: attended_def Let_def elim!: offer_check_cases offer_send_cases take_event_cases
       split: writer.splits closer.splits if_splits\<close>)

lemma attended_run: "sink_run impl cq as s = Some s' \<Longrightarrow> attended s \<Longrightarrow> attended s'"
  by (induction as arbitrary: s) (auto split: option.splits dest: attended_step simp del: sink_do.simps)

text \<open>
  C34. The sink runs exactly when a Start of it succeeded. Along any run, the sink is started
  if and only if some Start found it neither started nor closed and the store then answered all
  three of its calls (migration, heartbeat, reconciliation) without error; and the writer and
  the heartbeat, and the retention loop exactly when an age is configured, have been launched
  if and only if the sink is started. A Start returns 0 on a running sink, an error on a
  closed one, and otherwise the error of the first call that fails or the number of rows
  reconciled; one that does not launch the goroutines leaves everything but the store as it
  was, so that it can be tried again.
\<close>

theorem Start_all_or_nothing:
  assumes "sink_run impl cq as (sink_New st now pid opts) = Some s"
  shows "(sk_started s \<longleftrightarrow>
       (\<exists>as1 t t' as2 s1. as = as1 @ Start t t' # as2 \<and> sink_run impl cq as1 (sink_New st now pid opts) = Some s1 \<and>
          \<not> sk_started s1 \<and> \<not> sk_done s1 \<and> \<not> isl (start_answer impl t t' s1))) \<and>
    (sk_started s \<longleftrightarrow> sk_writer s \<noteq> WriterOff) \<and> (sk_started s \<longleftrightarrow> sk_beater s \<noteq> BeatOff) \<and>
    (sk_started s \<and> 0 < sc_retentionAge (sk_conf s) \<longleftrightarrow> sk_retainer s \<noteq> RetainOff) \<and>
    (\<forall>t t'. fst (sink_Start impl t t' s) =
        (if sk_started s then Inr 0 else if sk_done s then Inl ''sink: closed'' else start_answer impl t t' s)) \<and>
    (\<forall>t t'. sk_started s \<or> sk_done s \<or> isl (start_answer impl t t' s) \<longrightarrow>
        (\<exists>st'. snd (sink_Start impl t t' s) = s\<lparr>sk_store := st'\<rparr>))"
proof -
  have "\<not> sk_started (sink_New st now pid opts)" "attended (sink_New st now pid opts)"
    by (simp_all add: sink_New_def attended_def)
  moreover have "shape s" using sink_inv_reachable [OF sink_run_reach [OF assms]] by (simp add: sink_inv_def)
  ultimately show ?thesis
    using run_starts [OF assms] attended_run [OF assms] Start_refused [of impl _ _ s]
    by (simp add: started_by_def launches_def Start_answers attended_def shape_def) blast
qed

text \<open>A store whose heartbeat fails before time 10: the first Start fails, the second succeeds.\<close>

definition locked_impl :: "mem_store store_impl" where
  "locked_impl = mem_impl\<lparr>si_Heartbeat := (\<lambda>s e t. if t < 10 then (Some ''locked'', s) else (None, mem_Heartbeat s e t))\<rparr>"

theorem Start_all_or_nothing_witness:
  "\<exists>s1 s. sink_run locked_impl demo_cq [Start 5 5] demo_sink = Some s1 \<and> \<not> sk_started s1 \<and> sk_writer s1 = WriterOff \<and>
     sink_run locked_impl demo_cq [Start 5 5, Start 12 12] demo_sink = Some s \<and> sk_started s \<and>
     sk_writer s \<noteq> WriterOff \<and> sk_retainer s = RetainOff \<and> fst (sink_Start locked_impl 13 13 s) = Inr 0"
proof -
  obtain s1 s where run: "sink_run locked_impl demo_cq [Start 5 5] demo_sink = Some s1"
      "sink_run locked_impl demo_cq [Start 5 5, Start 12 12] demo_sink = Some s"
    and s: "\<not> sk_started s1" "sk_started s" "sc_retentionAge (sk_conf s) = 0"
    by (simp add: demo_defs locked_impl_def)
  from Start_all_or_nothing [OF run(1) [unfolded demo_sink_def]] Start_all_or_nothing [OF run(2) [unfolded demo_sink_def]]
    run s show ?thesis by (intro exI [of _ s1] exI [of _ s]) (simp del: sink_run.simps)
qed

text \<open>What was flushed stays flushed.\<close>

lemma flushed_grows:
  assumes "sink_do impl cq a s = Some s'"
  shows "\<exists>b. h_flushed s' = h_flushed s @ b"
proof (cases a)
  case (Start now now')
  with assms show ?thesis by (cases impl now now' s rule: sink_Start_cases) auto
qed (use assms in \<open>auto simp: Let_def elim!: offer_check_cases offer_send_cases take_event_cases
       split: writer.splits closer.splits if_splits\<close>)

context store_contract
begin

text \<open>
  What a successful Start does to the rows: the caller's epoch beats, the work of every
  other epoch with no beat inside the window is interrupted, and everything else stays.
\<close>

lemma Start_rows:
  assumes "inv (sk_store s)" "\<not> sk_started s" "sink_Start impl now now' s = (Inr n, s')"
  shows "inv (sk_store s')" and "beat (sk_store s') = (beat (sk_store s))(sk_epoch s \<mapsto> tick now)"
    and "tries (sk_store s') = tries (sk_store s)"
    and "good_time (now' - sc_staleAfter (sk_conf s)) \<Longrightarrow>
         row (sk_store s') k =
           taken_over (beat (sk_store s)) (sk_epoch s) (tick (now' - sc_staleAfter (sk_conf s))) (row (sk_store s) k)"
proof -
  obtain m st1 where m: "si_Migrate impl (sk_store s) = (m, st1)" by fastforce
  obtain h st2 where h: "si_Heartbeat impl st1 (sk_epoch s) now = (h, st2)" by fastforce
  obtain r st3 where r: "si_ReconcileEpoch impl now' st2 (sk_epoch s) (sc_staleAfter (sk_conf s)) = (r, st3)"
    by fastforce
  have "\<not> sk_done s"
    using assms(2,3) by (auto simp: sink_Start_def)
  with assms(2,3) m h r have ok: "m = None" "h = None" "r = Inr n" "sk_store s' = st3"
    by (auto simp: sink_Start_def split: option.splits sum.splits)
  note M = migrate [OF assms(1) m]
  then have H: "inv st2 \<and> row st2 = row st1 \<and> tries st2 = tries st1 \<and> beat st2 = (beat st1)(sk_epoch s \<mapsto> tick now)"
    using heartbeat [of st1 "sk_epoch s" now st2] h ok by simp
  then have R: "inv st3 \<and> beat st3 = beat st2 \<and> tries st3 = tries st2"
    using reconcile_keeps [of st2 now' "sk_epoch s" "sc_staleAfter (sk_conf s)" r st3] r by simp
  from M H R ok show "inv (sk_store s')" "beat (sk_store s') = (beat (sk_store s))(sk_epoch s \<mapsto> tick now)"
      "tries (sk_store s') = tries (sk_store s)"
    by simp_all
  assume good: "good_time (now' - sc_staleAfter (sk_conf s))"
  have own: "taken_over ((beat st1)(ep \<mapsto> t)) ep c = taken_over (beat st1) ep c" for ep t c
    by (rule ext) (auto simp: taken_over_def intro!: map_option_cong)
  have "row st3 = (\<lambda>k. taken_over (beat st2) (sk_epoch s) (tick (now' - sc_staleAfter (sk_conf s))) (row st2 k))"
    using reconcile_rows [of st2 now' "sc_staleAfter (sk_conf s)" "sk_epoch s" n st3] r ok H good by simp
  then show "row (sk_store s') k =
      taken_over (beat (sk_store s)) (sk_epoch s) (tick (now' - sc_staleAfter (sk_conf s))) (row (sk_store s) k)"
    using M H ok own by simp
qed

text \<open>The rows and attempts of a store are what its sink has added to those it found.\<close>

definition recorded :: "'s \<Rightarrow> 's sink \<Rightarrow> bool" where
  "recorded st0 s \<longleftrightarrow> inv (sk_store s) \<and> sk_started s \<and> sk_retainer s = RetainOff \<and>
     row (sk_store s) = (\<lambda>k. fold absorb (records_for k (map canon (h_jobs s))) (row st0 k)) \<and>
     tries (sk_store s) =
       (\<lambda>k. fold save_attempt_in (map canon_att (filter (\<lambda>a. attempt_key a = k) (h_attempts s))) (tries st0 k))"

text \<open>The records the sink has handed to the store are such as the store can represent.\<close>

definition good_batch :: "sink_record list \<Rightarrow> bool" where
  "good_batch b \<longleftrightarrow> list_all good (batch_jobs b) \<and> list_all good_att (batch_attempts b)"

lemma good_batch_append [simp]: "good_batch (a @ b) \<longleftrightarrow> good_batch a \<and> good_batch b"
  by (auto simp: good_batch_def)

lemma recorded_flush:
  assumes "recorded st0 s" "good_batch b"
  shows "recorded st0 (flush impl b s)"
proof (cases "b = []")
  case True
  with assms show ?thesis by (simp add: flush_def)
next
  case False
  obtain u st1 where u: "si_UpsertJobs impl (sk_store s) (batch_jobs b) = (u, st1)" by fastforce
  obtain v st2 where v: "si_SaveAttempts impl st1 (batch_attempts b) = (v, st2)" by fastforce
  have I: "inv (sk_store s)" using assms(1) by (simp add: recorded_def)
  have good: "list_all good (batch_jobs b)" "list_all good_att (batch_attempts b)"
    using assms(2) by (simp_all add: good_batch_def)
  have U: "inv st1 \<and> tries st1 = tries (sk_store s) \<and>
      row st1 = (if u = None then (\<lambda>k. fold absorb (records_for k (map canon (batch_jobs b))) (row (sk_store s) k))
                 else row (sk_store s))"
    using upsert [OF I good(1), of st1] failed_upsert [OF I, of "batch_jobs b" _ st1] u by (cases u) auto
  then have I1: "inv st1" by blast
  have V: "inv st2 \<and> row st2 = row st1 \<and>
      tries st2 = (if v = None then (\<lambda>k. fold save_attempt_in (map canon_att (filter (\<lambda>a. attempt_key a = k)
                                        (batch_attempts b))) (tries st1 k))
                   else tries st1)"
    using save [OF I1 good(2), of st2] failed_save [OF I1, of "batch_attempts b" _ st2] v by (cases v) auto
  have "sk_store (flush impl b s) = st2"
      "h_jobs (flush impl b s) = (if u = None then h_jobs s @ batch_jobs b else h_jobs s)"
      "h_attempts (flush impl b s) = (if v = None then h_attempts s @ batch_attempts b else h_attempts s)"
    using False u v
    by (cases u; cases v; simp add: flush_def flush_jobs_def flush_attempts_def)+
  with assms U V show ?thesis by (auto simp: recorded_def)
qed

lemma recorded_beat: "recorded st0 s \<Longrightarrow> recorded st0 (sink_beat impl t s)"
proof -
  assume rec: "recorded st0 s"
  then have I: "inv (sk_store s)" by (simp add: recorded_def)
  obtain h st where h: "si_Heartbeat impl (sk_store s) (sk_epoch s) t = (h, st)" by fastforce
  then have "inv st \<and> row st = row (sk_store s) \<and> tries st = tries (sk_store s)"
    using heartbeat [OF I, of "sk_epoch s" t st] failed_heartbeat [OF I, of "sk_epoch s" t _ st]
    by (cases h) auto
  moreover have "sk_store (sink_beat impl t s) = st"
    using h by (cases h) (simp_all add: sink_beat_def)
  ultimately show ?thesis using rec by (simp add: recorded_def)
qed

lemma recorded_irrelevant:
  "recorded st0 (s\<lparr>sk_events := e\<rparr>) = recorded st0 s" "recorded st0 (s\<lparr>sk_writer := w\<rparr>) = recorded st0 s"
  "recorded st0 (s\<lparr>sk_stopped := b\<rparr>) = recorded st0 s" "recorded st0 (s\<lparr>sk_beater := bb\<rparr>) = recorded st0 s"
  by (simp_all add: recorded_def)

lemma recorded_step:
  assumes "sink_do impl cq a s = Some s'" "good_batch (h_flushed s')" "recorded st0 s"
  shows "recorded st0 s'"
proof (cases a)
  case (Start now now')
  with assms show ?thesis by (simp add: sink_Start_def recorded_def)
next
  case (OfferCheck i)
  with assms show ?thesis by (auto simp: recorded_def elim!: offer_check_cases)
next
  case (OfferSend i)
  with assms show ?thesis by (auto simp: recorded_def elim!: offer_send_cases)
next
  case RunRecv
  with assms show ?thesis
    by (auto simp: recorded_flush recorded_irrelevant split: writer.splits elim!: take_event_cases)
next
  case DrainRecv
  with assms show ?thesis
    by (auto simp: recorded_flush recorded_irrelevant split: writer.splits elim!: take_event_cases)
next
  case (Call c)
  with assms show ?thesis by (auto simp: recorded_def Let_def)
next
  case (RetainStart now)
  with assms show ?thesis by (auto simp: recorded_def split: if_splits)
next
  case (RetainTick now)
  with assms show ?thesis by (auto simp: recorded_def split: if_splits)
next
  case RetainDone
  with assms show ?thesis by (auto simp: recorded_def split: if_splits)
next
  case CloseEnter
  with assms show ?thesis by (auto simp: recorded_def split: if_splits)
next
  case CloseSignal
  with assms show ?thesis by (auto simp: recorded_def split: closer.splits)
next
  case CloseReturn
  with assms show ?thesis by (auto simp: recorded_def split: closer.splits if_splits)
qed (use assms in \<open>auto simp: recorded_flush recorded_beat recorded_irrelevant split: writer.splits if_splits\<close>)

lemma recorded_reach:
  "sink_reach impl cq s1 s \<Longrightarrow> recorded st0 s1 \<Longrightarrow> good_batch (h_flushed s) \<Longrightarrow> recorded st0 s"
proof (induction rule: sink_reach.induct)
  case here
  then show ?case by simp
next
  case (move s a s')
  then show ?case using flushed_grows [OF move.hyps(2)] recorded_step [OF move.hyps(2)] by auto
qed

lemma recorded_launch:
  assumes "inv (sk_store s0)" "\<not> sk_started s0" "h_jobs s0 = []" "h_attempts s0 = []"
    and "sink_Start impl now now' s0 = (Inr n, s1)"
    and "sc_retentionAge (sk_conf s0) \<le> 0"
  shows "recorded (sk_store s1) s1"
proof -
  have I: "inv (sk_store s1)" by (rule Start_rows(1) [OF assms(1,2,5)])
  obtain st where s1: "s1 = s0\<lparr>sk_store := st, sk_started := True, sk_writer := WriterRun [],
      sk_beater := BeatRun,
      sk_retainer := (if sc_retentionAge (sk_conf s0) > 0 then RetainFirst else RetainOff)\<rparr>"
    using sink_Start_success [OF assms(5,2)] by metis
  have "sk_started s1" "sk_retainer s1 = RetainOff" "h_jobs s1 = []" "h_attempts s1 = []"
    using assms(3,4,6) by (simp_all add: s1)
  with I show ?thesis by (simp add: recorded_def)
qed

end

subsection \<open>What the in-memory store holds\<close>

text \<open>Before Start, nothing has been handed to the store.\<close>

definition unstarted_clean :: "'s sink \<Rightarrow> bool" where
  "unstarted_clean s \<longleftrightarrow>
     (sk_writer s = WriterOff \<longrightarrow> h_flushed s = [] \<and> h_jobs s = [] \<and> h_attempts s = [])"

lemma unstarted_clean_step:
  assumes "sink_do impl cq a s = Some s'" "unstarted_clean s"
  shows "unstarted_clean s'"
proof (cases a)
  case (Start now now')
  with assms show ?thesis
    by (cases impl now now' s rule: sink_Start_cases) (auto simp: unstarted_clean_def)
next
  case (OfferCheck i)
  with assms show ?thesis by (auto simp: unstarted_clean_def elim!: offer_check_cases)
next
  case (OfferSend i)
  with assms show ?thesis by (auto simp: unstarted_clean_def elim!: offer_send_cases)
qed (use assms in \<open>auto simp: unstarted_clean_def Let_def split: writer.splits closer.splits if_splits
       elim!: take_event_cases\<close>)

lemma unstarted_clean_reach:
  "sink_reach impl cq s0 s \<Longrightarrow> unstarted_clean s0 \<Longrightarrow> unstarted_clean s"
  by (induction rule: sink_reach.induct) (auto intro: unstarted_clean_step)

lemma sink_Start_success_clean:
  assumes "sink_Start impl now now' s = (Inr n, s')" "\<not> sk_started s"
  shows "h_flushed s' = h_flushed s" "h_jobs s' = h_jobs s" "h_attempts s' = h_attempts s"
proof -
  obtain st where s': "s' = s\<lparr>sk_store := st, sk_started := True, sk_writer := WriterRun [],
      sk_beater := BeatRun,
      sk_retainer := (if sc_retentionAge (sk_conf s) > 0 then RetainFirst else RetainOff)\<rparr>"
    using sink_Start_success [OF assms] by metis
  show "h_flushed s' = h_flushed s" "h_jobs s' = h_jobs s" "h_attempts s' = h_attempts s"
    by (simp_all add: s')
qed

text \<open>The in-memory store keeps its invariant under every move.\<close>

lemma mem_Start_store:
  "mem_inv (sk_store s) \<Longrightarrow> mem_inv (sk_store (snd (sink_Start mem_impl now now' s)))"
  by (simp add: sink_Start_def mem_impl_def mem_Migrate_def mem_inv_Heartbeat
      mem_inv_ReconcileEpoch [unfolded fst_def] split: prod.split)
    (metis fst_conv mem_inv_Heartbeat mem_inv_ReconcileEpoch)

lemma mem_flush_store: "mem_inv (sk_store s) \<Longrightarrow> mem_inv (sk_store (flush mem_impl b s))"
  by (simp add: flush_def flush_jobs_def flush_attempts_def mem_impl_def mem_inv_UpsertJobs
      mem_inv_SaveAttempts)

lemma mem_beat_store: "mem_inv (sk_store s) \<Longrightarrow> mem_inv (sk_store (sink_beat mem_impl t s))"
  by (simp add: sink_beat_def mem_impl_def mem_inv_Heartbeat)

lemma mem_prune_store: "mem_inv (sk_store s) \<Longrightarrow> mem_inv (sk_store (sink_prune mem_impl t s))"
  by (simp add: sink_prune_def mem_impl_def split: prod.split) (metis fst_conv mem_inv_Prune)

lemmas mem_moves_store = mem_Start_store mem_flush_store mem_beat_store mem_prune_store

lemma mem_sink_inv_step:
  assumes "sink_do mem_impl cq a s = Some s'" "mem_inv (sk_store s)"
  shows "mem_inv (sk_store s')"
  using assms
  by (cases a)
    (auto simp: mem_moves_store Let_def elim!: offer_check_cases offer_send_cases take_event_cases
      split: writer.splits closer.splits if_splits)

lemma mem_sink_inv_reach:
  "sink_reach mem_impl cq s0 s \<Longrightarrow> mem_inv (sk_store s0) \<Longrightarrow> mem_inv (sk_store s)"
  by (induction rule: sink_reach.induct) (auto intro: mem_sink_inv_step)

text \<open>The in-memory store takes everything.\<close>

definition all_taken :: "'s sink \<Rightarrow> bool" where
  "all_taken s \<longleftrightarrow> h_jobs s = batch_jobs (h_flushed s) \<and> h_attempts s = batch_attempts (h_flushed s)"

lemma all_taken_flush: "all_taken s \<Longrightarrow> all_taken (flush mem_impl b s)"
  by (auto simp: all_taken_def flush_def flush_jobs_def flush_attempts_def mem_impl_def)

lemma all_taken_irrelevant [simp]:
  "all_taken (s\<lparr>sk_events := e\<rparr>) = all_taken s" "all_taken (s\<lparr>sk_writer := w\<rparr>) = all_taken s"
  "all_taken (s\<lparr>sk_stopped := b\<rparr>) = all_taken s"
  by (simp_all add: all_taken_def)

lemma all_taken_step:
  assumes "sink_do mem_impl cq a s = Some s'" "all_taken s"
  shows "all_taken s'"
proof (cases a)
  case (Start now now')
  with assms show ?thesis
    by (cases mem_impl now now' s rule: sink_Start_cases) (auto simp: all_taken_def)
next
  case (OfferCheck i)
  with assms show ?thesis by (auto simp: all_taken_def elim!: offer_check_cases)
next
  case (OfferSend i)
  with assms show ?thesis by (auto simp: all_taken_def elim!: offer_send_cases)
next
  case RunRecv
  with assms show ?thesis by (auto simp: all_taken_flush split: writer.splits elim!: take_event_cases)
next
  case DrainRecv
  with assms show ?thesis by (auto simp: all_taken_flush split: writer.splits elim!: take_event_cases)
next
  case RunTick
  with assms show ?thesis by (auto simp: all_taken_flush split: writer.splits)
next
  case DrainEnd
  with assms show ?thesis by (auto simp: all_taken_flush split: writer.splits if_splits)
qed (use assms in \<open>auto simp: all_taken_def Let_def split: writer.splits closer.splits if_splits\<close>)

lemma all_taken_reach:
  "sink_reach mem_impl cq s0 s \<Longrightarrow> all_taken s0 \<Longrightarrow> all_taken s"
  by (induction rule: sink_reach.induct) (auto intro: all_taken_step)

text \<open>
  C11. The history is the fold of the events. Take a sink over the in-memory store that started
  successfully with no retention. After any further interleaving, the row of a key is what
  Start left there, absorbing in order the job records of that key among the flushed records,
  and likewise its attempts: nothing else ever changes a row.
\<close>

theorem sink_history_is_fold:
  assumes "mem_inv st" "sink_reach mem_impl cq (sink_New st t pid opts) s0"
    and "\<not> sk_started s0" "sink_Start mem_impl now now' s0 = (Inr n, s1)"
    and "sc_retentionAge (sk_conf s0) \<le> 0"
    and "sink_reach mem_impl cq s1 s"
  shows "map_of (ms_jobs (sk_store s)) k =
           fold absorb (records_for k (batch_jobs (h_flushed s))) (map_of (ms_jobs (sk_store s1)) k) \<and>
         attempts_at (ms_attempts (sk_store s)) k =
           fold save_attempt_in (filter (\<lambda>a. attempt_key a = k) (batch_attempts (h_flushed s)))
             (attempts_at (ms_attempts (sk_store s1)) k)"
proof -
  have "sk_writer s0 = WriterOff"
    using sink_inv_reachable [OF assms(2)] assms(3) by (simp add: sink_inv_def conserve_def)
  moreover have "unstarted_clean s0"
    by (rule unstarted_clean_reach [OF assms(2)]) (simp add: unstarted_clean_def sink_New_def)
  ultimately have clean: "h_flushed s0 = []" "h_jobs s0 = []" "h_attempts s0 = []"
    by (simp_all add: unstarted_clean_def)
  then have "all_taken s1"
    using sink_Start_success_clean [OF assms(4,3)] by (simp add: all_taken_def)
  then have taken: "h_jobs s = batch_jobs (h_flushed s)" "h_attempts s = batch_attempts (h_flushed s)"
    using all_taken_reach [OF assms(6)] by (simp_all add: all_taken_def)
  have "mem.recorded (sk_store s1) s1"
    by (rule mem.recorded_launch [OF mem_sink_inv_reach [OF assms(2)] assms(3) clean(2,3) assms(4,5)])
      (simp add: sink_New_def assms(1))
  from mem.recorded_reach [OF assms(6) this] show ?thesis
    by (simp add: mem.recorded_def mem.good_batch_def list_all_iff mem_view_defs taken fun_eq_iff)
qed

theorem sink_history_is_fold_witness:
  "\<exists>s1 s. sink_Start mem_impl 5 5 demo_sink = (Inr 0, s1) \<and>
     sink_run mem_impl demo_cq
       [Call (HookCall OnEnqueue demo_event), OfferCheck 0, OfferSend 0, RunRecv, RunTick] s1 = Some s \<and>
     map_of (ms_jobs (sk_store s)) ''3-4:demo:1'' =
       fold absorb (records_for ''3-4:demo:1'' (batch_jobs (h_flushed s))) (map_of (ms_jobs (sk_store s1)) ''3-4:demo:1'') \<and>
     length (batch_jobs (h_flushed s)) = 1"
proof -
  obtain s1 where s1: "sink_Start mem_impl 5 5 demo_sink = (Inr 0, s1)"
    by (simp add: demo_defs)
  obtain s where run: "sink_run mem_impl demo_cq
       [Call (HookCall OnEnqueue demo_event), OfferCheck 0, OfferSend 0, RunRecv, RunTick] s1 = Some s"
      and "length (batch_jobs (h_flushed s)) = 1"
    using s1 by (auto simp: demo_defs)
  with s1 sink_history_is_fold [OF mem_inv_Open sink_reach.here _ s1 [unfolded demo_sink_def] _
      sink_run_reach [OF run]]
  show ?thesis by (auto simp: sink_New_def default_conf_def WithBuffer_def WithBatchSize_def zeroTime_def)
qed

text \<open>
  A starting process takes over the work of dead processes and of no other. After a
  successful Start on the in-memory store, the caller's own epoch has beaten; an unfinished
  row of another epoch is interrupted exactly when that epoch has no heartbeat inside the
  staleness window (none, a retired one, or an old one); every other row, in particular
  everything of a sibling that beats, is as it was.
\<close>

theorem Start_takes_over_the_dead:
  assumes "mem_inv (sk_store s)" "\<not> sk_started s" "sink_Start mem_impl now now' s = (Inr n, s')"
  shows "map_of (ms_epochs (sk_store s')) (sk_epoch s) = Some now \<and>
         map_of (ms_jobs (sk_store s')) k =
           map_option (\<lambda>j. if abandoned now' (sc_staleAfter (sk_conf s)) (sk_epoch s) (sk_store s) j
                           then j\<lparr>job_State := StateInterrupted\<rparr> else j)
             (map_of (ms_jobs (sk_store s)) k)"
  using mem.Start_rows(2) [OF assms(1,2,3)] mem.Start_rows(4) [OF assms(1,2,3), of k]
  by (auto simp: mem_view_defs abandoned_def taken_over_def intro!: map_option_cong)

lemma mem_Start_succeeds:
  assumes "\<not> sk_started s" "\<not> sk_done s"
  shows "\<exists>n s'. sink_Start mem_impl now now' s = (Inr n, s')"
proof -
  obtain st n where "mem_ReconcileEpoch now' (mem_Heartbeat (sk_store s) (sk_epoch s) now) (sk_epoch s)
      (sc_staleAfter (sk_conf s)) = (st, n)" by fastforce
  with assms show ?thesis by (simp add: sink_Start_def mem_impl_def mem_Migrate_def)
qed

theorem Start_takes_over_the_dead_witness:
  "\<exists>n s'. sink_Start mem_impl 100 100
       (sink_New (mem_Heartbeat (mem_UpsertJobs mem_Open
           [zero_job\<lparr>job_Epoch := ''a'', job_State := StateActive\<rparr>]) ''a'' 90) 3 4 []) = (Inr n, s') \<and>
     map_of (ms_jobs (sk_store s')) ''a::'' =
       Some (stamped (zero_job\<lparr>job_Epoch := ''a'', job_State := StateActive\<rparr>))"
proof -
  let ?st = "mem_Heartbeat (mem_UpsertJobs mem_Open
           [zero_job\<lparr>job_Epoch := ''a'', job_State := StateActive\<rparr>]) ''a'' 90"
  let ?s = "sink_New ?st 3 4 []"
  obtain n s' where start: "sink_Start mem_impl 100 100 ?s = (Inr n, s')"
    using mem_Start_succeeds [of ?s 100 100] by (auto simp: sink_New_def)
  have "map_of (ms_jobs ?st) ''a::'' =
      Some (stamped (zero_job\<lparr>job_Epoch := ''a'', job_State := StateActive\<rparr>))"
    by (simp add: mem_Heartbeat_def mem_UpsertJobs_def upsert_job_def Let_def record_key_def KeyFor_def
        zero_job_def mem_Open_def)
  moreover have "mem_inv ?st" by (intro store_inv)
  moreover have "map_of (ms_epochs ?st) ''a'' = Some 90" by (simp add: mem_Heartbeat_def)
  ultimately show ?thesis
    using start Start_takes_over_the_dead [of ?s 100 100 n s' "''a::''"]
    by (auto simp: sink_New_def abandoned_def zeroTime_def default_conf_def)
qed

subsection \<open>The row a job's events add up to\<close>

lemma newEpoch_no_colon: "CHR '':'' \<notin> set (newEpoch now pid)"
  by (auto simp: newEpoch_def dest!: FormatInt_chars) (simp_all add: is_digit_def byte_def)

lemma call_records_key:
  "r \<in> set (call_records cq epoch c) \<Longrightarrow> rec_key r = call_key epoch c"
proof (cases c)
  case (HookCall h e)
  then show "r \<in> set (call_records cq epoch c) \<Longrightarrow> rec_key r = call_key epoch c"
    by (cases h) (auto simp: offerJob_def offerAttempt_def job_record_def attempt_record_def
        record_key_def attempt_key_def zero_job_def)
next
  case (ProgressCall q m p t)
  then show "r \<in> set (call_records cq epoch c) \<Longrightarrow> rec_key r = call_key epoch c"
    by (auto simp: ReportProgress_def job_record_def record_key_def zero_job_def)
qed

text \<open>The one job record a call produces.\<close>

definition call_job :: "cq_consts \<Rightarrow> string \<Rightarrow> sink_call \<Rightarrow> job" where
  "call_job cq epoch c = rec_job (hd (call_records cq epoch c))"

lemma batch_jobs_call: "batch_jobs (call_records cq epoch c) = [call_job cq epoch c]"
proof (cases c)
  case (HookCall h e)
  then show ?thesis
    by (cases h) (simp_all add: call_job_def batch_jobs_def offerJob_def offerAttempt_def
        job_record_def attempt_record_def)
next
  case (ProgressCall q m p t)
  then show ?thesis by (simp add: call_job_def batch_jobs_def ReportProgress_def job_record_def)
qed

lemma batch_jobs_calls:
  "batch_jobs (concat (map (call_records cq epoch) cs)) = map (call_job cq epoch) cs"
  by (induction cs) (simp_all add: batch_jobs_call)

lemma call_job_key: "record_key (call_job cq epoch c) = call_key epoch c"
  using call_records_key [of "hd (call_records cq epoch c)" cq epoch c]
proof (cases c)
  case (HookCall h e)
  with call_records_key [of "hd (call_records cq epoch c)" cq epoch c] show ?thesis
    by (cases h) (simp_all add: call_job_def offerJob_def offerAttempt_def job_record_def)
next
  case (ProgressCall q m p t)
  with call_records_key [of "hd (call_records cq epoch c)" cq epoch c] show ?thesis
    by (simp add: call_job_def ReportProgress_def job_record_def)
qed

lemma merge_all_Attempt:
  "r \<in> insert e (set rs) \<Longrightarrow> job_Attempt r \<le> job_Attempt (merge_all rs e)"
proof (induction rs arbitrary: e r)
  case (Cons x rs)
  have "job_Attempt r \<le> job_Attempt (merge e (stamped x))" if "r = e \<or> r = x"
    using that by (auto simp: merge_def stamped_def)
  moreover have "job_Attempt (merge e (stamped x)) \<le> job_Attempt (merge_all rs (merge e (stamped x)))"
    by (rule Cons.IH) simp
  ultimately show ?case using Cons.IH [of r "merge e (stamped x)"] Cons.prems by fastforce
qed simp

text \<open>
  C35. However the events of a job arrive, its row shows its outcome. When the calls cq made for
  a job (hooks and progress reports, in any order, any number of times) include one that ends
  it, and all that end it agree, the row recorded for them is in that final state, and its
  attempt number is at least that of every event.
\<close>

theorem row_shows_outcome:
  assumes "\<And>c. c \<in> set cs \<Longrightarrow> call_key epoch c = k"
    and "c \<in> set cs" "Terminal (job_State (call_job cq epoch c))"
    and "\<And>c'. c' \<in> set cs \<Longrightarrow> Terminal (job_State (call_job cq epoch c')) \<Longrightarrow>
           job_State (call_job cq epoch c') = job_State (call_job cq epoch c)"
  shows "\<exists>j. map_of (ms_jobs (mem_UpsertJobs mem_Open
               (batch_jobs (concat (map (call_records cq epoch) cs))))) k = Some j \<and>
             job_State j = job_State (call_job cq epoch c) \<and>
             (\<forall>c' \<in> set cs. job_Attempt (call_job cq epoch c') \<le> job_Attempt j)"
proof -
  obtain c0 cs' where cs: "cs = c0 # cs'" using assms(2) by (cases cs) auto
  let ?js = "map (call_job cq epoch) cs" and ?e = "stamped (call_job cq epoch c0)"
  define rs where "rs = map (call_job cq epoch) cs'"
  have "records_for k ?js = ?js"
    using assms(1) by (intro filter_True) (auto simp: call_job_key)
  then have row: "map_of (ms_jobs (mem_UpsertJobs mem_Open ?js)) k = Some (merge_all rs ?e)"
    by (simp add: UpsertJobs_lookup mem_Open_def cs rs_def absorb_def fold_absorb_Some)
  have rank: "Rank (job_State (call_job cq epoch c)) \<le> Rank (job_State (merge_all rs ?e))"
    using assms(2) merge_all_State_upper [of _ ?e rs] by (fastforce simp: cs rs_def)
  then have "Terminal (job_State (merge_all rs ?e))"
    using assms(3) by (simp add: Terminal_def order_antisym)
  moreover obtain c' where "c' \<in> set cs" "job_State (merge_all rs ?e) = job_State (call_job cq epoch c')"
    using merge_all_State_mem [of rs ?e] by (auto simp: cs rs_def)
  ultimately have "job_State (merge_all rs ?e) = job_State (call_job cq epoch c)"
    using assms(4) by metis
  moreover have "job_Attempt (call_job cq epoch c') \<le> job_Attempt (merge_all rs ?e)" if "c' \<in> set cs" for c'
    using that merge_all_Attempt [of ?e ?e rs] merge_all_Attempt [of "call_job cq epoch c'" ?e rs]
    by (auto simp: cs rs_def stamped_def)
  ultimately show ?thesis by (simp add: batch_jobs_calls row)
qed

theorem row_shows_outcome_witness:
  "\<exists>j. map_of (ms_jobs (mem_UpsertJobs mem_Open (batch_jobs (concat (map (call_records demo_cq ''3-4'')
          [HookCall OnSuccess demo_event, HookCall OnEnqueue demo_event]))))) ''3-4:demo:1'' = Some j \<and>
       job_State j = StateCompleted"
proof -
  let ?cs = "[HookCall OnSuccess demo_event, HookCall OnEnqueue demo_event]"
  have states: "job_State (call_job demo_cq ''3-4'' (HookCall OnSuccess demo_event)) = StateCompleted"
      "job_State (call_job demo_cq ''3-4'' (HookCall OnEnqueue demo_event)) = StateCreated"
    by (simp_all add: call_job_def offerJob_def job_record_def)
  have key: "KeyFor ''3-4'' (ev_QueueName demo_event) (ev_ID demo_event) = ''3-4:demo:1''"
    by (simp add: KeyFor_def demo_event_def)
  have "\<exists>j. map_of (ms_jobs (mem_UpsertJobs mem_Open
               (batch_jobs (concat (map (call_records demo_cq ''3-4'') ?cs))))) ''3-4:demo:1'' = Some j \<and>
             job_State j = job_State (call_job demo_cq ''3-4'' (HookCall OnSuccess demo_event)) \<and>
             (\<forall>c' \<in> set ?cs. job_Attempt (call_job demo_cq ''3-4'' c') \<le> job_Attempt j)"
    by (rule row_shows_outcome) (auto simp: states key)
  with states(1) show ?thesis by (metis (no_types, lifting))
qed

end
