(* ===== verification/Go_Sort.thy ===== *)
theory Go_Sort
  imports Prelude
begin

text \<open>
  \<open>sort.Slice\<close> as the program uses it. Go sorts short slices by insertion and longer ones
  by pattern-defeating quicksort; both leave a permutation in which no element is less
  than an earlier one, and only the order of elements that compare equal can differ. The
  model is the insertion sort. Under the contract of \<open>sort.Slice\<close> (the \<open>less\<close> function is
  a strict weak order), stated as the locale \<open>slice_order\<close>, the result is sorted; where no
  two elements of the slice compare equal, it is the only sorted permutation, so the
  choice of algorithm cannot be observed. Where elements can compare equal and the slice is
  filled from a map, whose \<open>range\<close> has no fixed order, the order they come in is a parameter
  (\<open>range_order\<close>): sorting every permutation stably gives every result of an unstable sort.
\<close>

fun sift :: "('a \<Rightarrow> 'a \<Rightarrow> bool) \<Rightarrow> 'a \<Rightarrow> 'a list \<Rightarrow> 'a list" where
  "sift lt x [] = [x]"
| "sift lt x (y # ys) = (if lt x y then y # sift lt x ys else x # y # ys)"

text \<open>The sorted prefix is kept reversed, so that sifting walks from its right end.\<close>

definition sort_slice :: "('a \<Rightarrow> 'a \<Rightarrow> bool) \<Rightarrow> 'a list \<Rightarrow> 'a list" where
  "sort_slice lt xs = rev (foldl (\<lambda>acc x. sift lt x acc) [] xs)"

lemma mset_sift [simp]: "mset (sift lt x ys) = add_mset x (mset ys)"
  by (induction ys) auto

lemma mset_foldl_sift: "mset (foldl (\<lambda>acc x. sift lt x acc) acc xs) = mset acc + mset xs"
  by (induction xs arbitrary: acc) auto

lemma mset_sort_slice [simp]: "mset (sort_slice lt xs) = mset xs"
  by (simp add: sort_slice_def mset_foldl_sift)

lemma set_sort_slice [simp]: "set (sort_slice lt xs) = set xs"
  by (metis mset_eq_setD mset_sort_slice)

lemma set_sift [simp]: "set (sift lt x ys) = insert x (set ys)"
  by (induction ys) auto

lemma length_sort_slice [simp]: "length (sort_slice lt xs) = length xs"
  by (metis mset_eq_length mset_sort_slice)

lemma distinct_sort_slice [simp]: "distinct (sort_slice lt xs) = distinct xs"
  by (metis distinct_count_atmost_1 mset_sort_slice set_sort_slice)

lemma distinct_map_sort_slice [simp]:
  "distinct (map f (sort_slice lt xs)) = distinct (map f xs)"
proof -
  have "mset (map f (sort_slice lt xs)) = mset (map f xs)" by simp
  then show ?thesis by (rule mset_eq_imp_distinct_iff)
qed

text \<open>An order in which the elements of a collection may come: whatever \<open>ord\<close> says, all of them once.\<close>

definition range_order :: "('a list \<Rightarrow> 'a list) \<Rightarrow> 'a list \<Rightarrow> 'a list" where
  "range_order ord xs = (if mset (ord xs) = mset xs then ord xs else xs)"

lemma mset_range_order [simp]: "mset (range_order ord xs) = mset xs"
  by (simp add: range_order_def)

lemma set_range_order [simp]: "set (range_order ord xs) = set xs"
  by (metis mset_eq_setD mset_range_order)

lemma length_range_order [simp]: "length (range_order ord xs) = length xs"
  by (metis mset_eq_length mset_range_order)

lemma range_order_id [simp]: "range_order id xs = xs"
  by (simp add: range_order_def)

lemma range_order_is: "mset ys = mset xs \<Longrightarrow> range_order (\<lambda>_. ys) xs = ys"
  by (simp add: range_order_def)

lemma sum_list_range_order [simp]:
  fixes f :: "'a \<Rightarrow> 'b::comm_monoid_add"
  shows "sum_list (map f (range_order ord xs)) = sum_list (map f xs)"
  by (metis mset_map mset_range_order sum_mset_sum_list)

lemma distinct_map_range_order [simp]: "distinct (map f (range_order ord xs)) = distinct (map f xs)"
proof -
  have "mset (map f (range_order ord xs)) = mset (map f xs)" by simp
  then show ?thesis by (rule mset_eq_imp_distinct_iff)
qed

text \<open>Sorted, as \<open>sort.SliceIsSorted\<close> understands it: no element is less than an earlier one.\<close>

definition slice_sorted :: "('a \<Rightarrow> 'a \<Rightarrow> bool) \<Rightarrow> 'a list \<Rightarrow> bool" where
  "slice_sorted lt xs \<longleftrightarrow> sorted_wrt (\<lambda>x y. \<not> lt y x) xs"

lemma slice_sorted_simps [simp]:
  "slice_sorted lt []"
  "slice_sorted lt (x # xs) \<longleftrightarrow> (\<forall>y \<in> set xs. \<not> lt y x) \<and> slice_sorted lt xs"
  by (simp_all add: slice_sorted_def)

lemma slice_sorted_take: "slice_sorted lt xs \<Longrightarrow> slice_sorted lt (take n xs)"
  by (simp add: slice_sorted_def sorted_wrt_take)

lemma slice_sorted_drop: "slice_sorted lt xs \<Longrightarrow> slice_sorted lt (drop n xs)"
  by (simp add: slice_sorted_def sorted_wrt_drop)

locale slice_order =
  fixes lt :: "'a \<Rightarrow> 'a \<Rightarrow> bool"
  assumes irrefl: "\<not> lt x x"
    and trans: "lt x y \<Longrightarrow> lt y z \<Longrightarrow> lt x z"
    and neg_trans: "\<not> lt x y \<Longrightarrow> \<not> lt y z \<Longrightarrow> \<not> lt x z"
begin

lemma asym: "lt x y \<Longrightarrow> \<not> lt y x"
  using irrefl trans by blast

lemma sorted_sift:
  "sorted_wrt (\<lambda>x y. \<not> lt x y) ys \<Longrightarrow> sorted_wrt (\<lambda>x y. \<not> lt x y) (sift lt x ys)"
proof (induction ys)
  case Nil
  show ?case by simp
next
  case (Cons y ys)
  show ?case
  proof (cases "lt x y")
    case True
    with Cons show ?thesis by (auto dest: asym)
  next
    case False
    with Cons.prems have "\<forall>z \<in> set ys. \<not> lt x z"
      using neg_trans by auto
    with False Cons.prems show ?thesis by simp
  qed
qed

lemma sorted_sort_slice: "slice_sorted lt (sort_slice lt xs)"
proof -
  have "sorted_wrt (\<lambda>x y. \<not> lt x y) (foldl (\<lambda>acc x. sift lt x acc) acc xs)"
    if "sorted_wrt (\<lambda>x y. \<not> lt x y) acc" for acc
    using that by (induction xs arbitrary: acc) (auto simp: sorted_sift)
  then show ?thesis
    by (simp add: slice_sorted_def sort_slice_def sorted_wrt_rev)
qed

definition total_on_slice :: "'a list \<Rightarrow> bool" where
  "total_on_slice xs \<longleftrightarrow> (\<forall>x \<in> set xs. \<forall>y \<in> set xs. x \<noteq> y \<longrightarrow> lt x y \<or> lt y x)"

lemma sorted_unique:
  assumes "mset xs = mset ys" "slice_sorted lt xs" "slice_sorted lt ys" "total_on_slice xs"
  shows "xs = ys"
  using assms
proof (induction xs arbitrary: ys)
  case Nil
  then show ?case by simp
next
  case (Cons x xs)
  then obtain y ys' where ys: "ys = y # ys'"
    by (cases ys) auto
  have in_ys: "set ys = insert x (set xs)"
    using Cons.prems(1) by (metis list.simps(15) mset_eq_setD)
  have "x = y"
  proof (rule ccontr)
    assume "x \<noteq> y"
    with in_ys ys have "x \<in> set ys'" "y \<in> set xs"
      by (metis insertE insertI1 set_ConsD, metis insertE insertI1 list.simps(15))
    with Cons.prems(2,3) ys have "\<not> lt x y" "\<not> lt y x" by auto
    moreover from Cons.prems(4) \<open>y \<in> set xs\<close> \<open>x \<noteq> y\<close> have "lt x y \<or> lt y x"
      by (auto simp: total_on_slice_def)
    ultimately show False by blast
  qed
  moreover have "xs = ys'"
    using Cons.prems ys \<open>x = y\<close> by (intro Cons.IH) (auto simp: total_on_slice_def)
  ultimately show ?case by (simp add: ys)
qed

lemma sort_slice_determined:
  assumes "mset xs = mset ys" "slice_sorted lt ys" "total_on_slice xs"
  shows "sort_slice lt xs = ys"
proof (rule sorted_unique)
  from assms(3) show "total_on_slice (sort_slice lt xs)" by (simp add: total_on_slice_def)
qed (simp_all add: assms sorted_sort_slice)

lemma sort_slice_perm:
  assumes "mset xs = mset ys" "total_on_slice xs"
  shows "sort_slice lt xs = sort_slice lt ys"
  by (rule sort_slice_determined) (simp_all add: assms sorted_sort_slice)

end

text \<open>
  Every \<open>less\<close> function of the program compares a sort key that is linearly ordered, in one
  direction or the other, field by field. Such a comparison meets the contract.
\<close>

lemma slice_order_by_key:
  fixes key :: "'a \<Rightarrow> 'b::linorder"
  shows "slice_order (\<lambda>x y. key x < key y)"
  by unfold_locales auto

lemma slice_order_lex:
  assumes "\<And>x y. lt x y \<longleftrightarrow> (if a x = (a y :: 'b::linorder) then c x y else a x < a y)"
    and "slice_order c"
  shows "slice_order lt"
proof -
  note c = slice_order.irrefl [OF assms(2)] slice_order.trans [OF assms(2)]
    slice_order.neg_trans [OF assms(2)]
  show ?thesis
  proof
    show "\<not> lt x x" for x by (simp add: assms(1) c)
    show "lt x z" if "lt x y" "lt y z" for x y z
      using that c(2) [of x y z] by (auto simp: assms(1) split: if_splits)
    show "\<not> lt x z" if "\<not> lt x y" "\<not> lt y z" for x y z
      using that c(3) [of x y z] by (auto simp: assms(1) split: if_splits)
  qed
qed

lemma slice_order_flip:
  assumes "slice_order lt"
  shows "slice_order (\<lambda>x y. lt y x)"
proof
  show "\<not> lt x x" for x by (rule slice_order.irrefl [OF assms])
  show "lt z x" if "lt y x" "lt z y" for x y z
    using that(2,1) by (rule slice_order.trans [OF assms])
  show "\<not> lt z x" if "\<not> lt y x" "\<not> lt z y" for x y z
    using that(2,1) by (rule slice_order.neg_trans [OF assms])
qed

end
