(* ===== verification/Memory_Query.thy ===== *)
theory Memory_Query
  imports Memory_Laws Go_Sort
begin

text \<open>
  The read side of \<open>store/memory/memory.go\<close>: \<open>matching\<close>, \<open>Jobs\<close>, \<open>CountJobs\<close>,
  \<open>GroupJobs\<close>, \<open>Timeline\<close>, \<open>AttributeKeys\<close>, \<open>Job\<close>, \<open>Lineage\<close> and \<open>Counts\<close>.

  The readers hold the read lock, so each sees one store. A tally kept in a Go map during a
  query is an association list. Where the order in which \<open>range\<close> visits it can be observed
  (the groups, whose sort leaves ties open) it is the parameter \<open>ord\<close>; elsewhere the result
  does not depend on it.
\<close>

datatype mem_error = ErrNotFound | ErrBucketLimit | MemPanic go_panic

definition maxBuckets :: int where
  "maxBuckets = 10000"

subsection \<open>Matching a filter\<close>

definition matchesTerms :: "go_unicode \<Rightarrow> job \<Rightarrow> string list \<Rightarrow> bool" where
  "matchesTerms uc j terms =
     (if length terms = 0 then True
      else let id' = ToLower uc (job_ID j); name = ToLower uc (job_Name j)
           in list_all (\<lambda>term. \<not> (\<not> Contains id' term \<and> \<not> Contains name term)) terms)"

definition matchesAttribute :: "job \<Rightarrow> job_filter \<Rightarrow> bool" where
  "matchesAttribute j f =
     (if f_AttrKey f = [] then True
      else case map_of (job_Attributes j) (f_AttrKey f) of
             None \<Rightarrow> False
           | Some value \<Rightarrow> f_AttrValue f = [] \<or> value = f_AttrValue f)"

text \<open>One iteration of the loop: the job is skipped by the first test it fails.\<close>

definition job_matches :: "go_unicode \<Rightarrow> job_filter \<Rightarrow> string list \<Rightarrow> job \<Rightarrow> bool" where
  "job_matches uc f terms j =
     (if f_Queue f \<noteq> [] \<and> job_Queue j \<noteq> f_Queue f then False
      else if f_Name f \<noteq> [] \<and> job_Name j \<noteq> f_Name f then False
      else if f_Pattern f \<noteq> [] \<and> job_Pattern j \<noteq> f_Pattern f then False
      else if length (f_States f) > 0 \<and> job_State j \<notin> set (f_States f) then False
      else if \<not> IsZero (f_Before f) \<and> After (job_EnqueuedAt j) (f_Before f) then False
      else if \<not> matchesTerms uc j terms \<or> \<not> matchesAttribute j f then False
      else True)"

definition matching :: "go_unicode \<Rightarrow> mem_store \<Rightarrow> job_filter \<Rightarrow> job list" where
  "matching uc s f =
     (let terms = Fields uc (ToLower uc (f_Search f))
      in filter (job_matches uc f terms) (map snd (ms_jobs s)))"

subsection \<open>Listing and counting\<close>

definition job_newer :: "job \<Rightarrow> job \<Rightarrow> bool" where
  "job_newer a b =
     (if job_EnqueuedAt a = job_EnqueuedAt b then job_Key a > job_Key b
      else After (job_EnqueuedAt a) (job_EnqueuedAt b))"

definition clamp_limit :: "int \<Rightarrow> int \<Rightarrow> int \<Rightarrow> int" where
  "clamp_limit most dflt limit = (if limit \<le> 0 \<or> limit > most then dflt else limit)"

definition mem_Jobs :: "go_unicode \<Rightarrow> mem_store \<Rightarrow> job_filter \<Rightarrow> mem_error + job list" where
  "mem_Jobs uc s f =
     (let found = sort_slice job_newer (matching uc s f);
          limit = clamp_limit 500 100 (f_Limit f)
      in if f_Offset f \<ge> int (length found) then Inr []
         else if f_Offset f < 0 then Inl (MemPanic SliceBounds)
         else let found = drop (nat (f_Offset f)) found
              in Inr (if int (length found) > limit then take (nat limit) found else found))"

definition mem_CountJobs :: "go_unicode \<Rightarrow> mem_store \<Rightarrow> job_filter \<Rightarrow> nat" where
  "mem_CountJobs uc s f = length (matching uc s f)"

subsection \<open>Grouping\<close>

type_synonym group_key = "string \<times> State \<times> string"

definition group_of :: "job \<Rightarrow> group_key" where
  "group_of j =
     ((if job_Pattern j = [] then ''(unnamed)'' else job_Pattern j), job_State j, job_Err j)"

fun new_group :: "group_key \<Rightarrow> group" where
  "new_group (pattern, state, err) =
     \<lparr>grp_Pattern = pattern, grp_State = state, grp_Err = err, grp_Count = 0, grp_LastSeen = zeroTime\<rparr>"

definition bump_group :: "job \<Rightarrow> group \<Rightarrow> group" where
  "bump_group j g =
     g\<lparr>grp_Count := grp_Count g + 1,
       grp_LastSeen := (if After (lastActive j) (grp_LastSeen g) then lastActive j else grp_LastSeen g)\<rparr>"

definition group_job :: "job \<Rightarrow> (group_key, group) gomap \<Rightarrow> (group_key, group) gomap" where
  "group_job j tally =
     (let key = group_of j;
          g = (case map_of tally key of None \<Rightarrow> new_group key | Some g \<Rightarrow> g)
      in AList.update key (bump_group j g) tally)"

definition group_before :: "group \<Rightarrow> group \<Rightarrow> bool" where
  "group_before a b =
     (if grp_Count a = grp_Count b then After (grp_LastSeen a) (grp_LastSeen b)
      else grp_Count a > grp_Count b)"

definition mem_GroupJobs ::
    "(group list \<Rightarrow> group list) \<Rightarrow> go_unicode \<Rightarrow> mem_store \<Rightarrow> job_filter \<Rightarrow> int \<Rightarrow> group list" where
  "mem_GroupJobs ord uc s f limit =
     (let limit = clamp_limit 200 50 limit;
          tally = fold group_job (matching uc s f) [];
          groups = sort_slice group_before (range_order ord (map snd tally))
      in if int (length groups) > limit then take (nat limit) groups else groups)"

subsection \<open>Timeline\<close>

definition empty_bucket :: "int \<Rightarrow> int \<Rightarrow> bucket" where
  "empty_bucket width n =
     \<lparr>bkt_Start = time_Unix 0 (int64 (n * width)), bkt_Completed = 0, bkt_Failed = 0\<rparr>"

definition timeline_job ::
    "gotime \<Rightarrow> int \<Rightarrow> job \<Rightarrow> (int, bucket) gomap \<Rightarrow> (int, bucket) gomap" where
  "timeline_job since width j counts =
     (if \<not> Terminal (job_State j) then counts
      else if Before (lastActive j) since then counts
      else let n = UnixNano (lastActive j) sdiv width;
               found = (case map_of counts n of None \<Rightarrow> empty_bucket width n | Some b \<Rightarrow> b);
               found = (if job_State j = StateCompleted then found\<lparr>bkt_Completed := bkt_Completed found + 1\<rparr>
                        else if job_State j \<in> set FailureStates
                        then found\<lparr>bkt_Failed := bkt_Failed found + 1\<rparr>
                        else found)
           in AList.update n found counts)"

text \<open>
  The clock is read twice: once for the guard on the number of buckets, once for the last
  bucket. A negative capacity makes \<open>make\<close> panic.
\<close>

definition mem_Timeline ::
    "gotime \<Rightarrow> gotime \<Rightarrow> mem_store \<Rightarrow> gotime \<Rightarrow> duration \<Rightarrow> mem_error + bucket list" where
  "mem_Timeline now now' s since bucket =
     (let width = (if bucket \<le> 0 then Minute else bucket)
      in if IsZero since then Inr []
         else if time_Sub now since sdiv width > maxBuckets then Inl ErrBucketLimit
         else let counts = fold (timeline_job since width) (map snd (ms_jobs s)) [];
                  first = UnixNano since sdiv width;
                  last = UnixNano now' sdiv width
              in if last - first + 1 < 0 then Inl (MemPanic MakeSliceCap)
                 else Inr (map (\<lambda>n. case map_of counts n of
                                       Some found \<Rightarrow> found
                                     | None \<Rightarrow> empty_bucket width n) [first..last]))"

subsection \<open>Attribute keys, single jobs, lineage, tallies\<close>

definition tally_at :: "('k, nat) gomap \<Rightarrow> 'k \<Rightarrow> nat" where
  "tally_at m k = (case map_of m k of None \<Rightarrow> 0 | Some n \<Rightarrow> n)"

definition tally_incr :: "'k \<Rightarrow> ('k, nat) gomap \<Rightarrow> ('k, nat) gomap" where
  "tally_incr k m = AList.update k (tally_at m k + 1) m"

definition attr_before :: "(string, nat) gomap \<Rightarrow> string \<Rightarrow> string \<Rightarrow> bool" where
  "attr_before tally a b =
     (if tally_at tally a = tally_at tally b then a < b else tally_at tally a > tally_at tally b)"

definition attr_tally :: "mem_store \<Rightarrow> (string, nat) gomap" where
  "attr_tally s = fold (\<lambda>j. fold tally_incr (map fst (job_Attributes j))) (map snd (ms_jobs s)) []"

definition mem_AttributeKeys :: "mem_store \<Rightarrow> int \<Rightarrow> string list" where
  "mem_AttributeKeys s limit =
     (let limit = clamp_limit 50 20 limit;
          tally = attr_tally s;
          ks = sort_slice (attr_before tally) (map fst tally)
      in if int (length ks) > limit then take (nat limit) ks else ks)"

definition attempt_before :: "attempt \<Rightarrow> attempt \<Rightarrow> bool" where
  "attempt_before a b = Before (att_StartedAt a) (att_StartedAt b)"

definition mem_Job :: "mem_store \<Rightarrow> string \<Rightarrow> mem_error + (job \<times> attempt list)" where
  "mem_Job s key =
     (case map_of (ms_jobs s) key of
        None \<Rightarrow> Inl ErrNotFound
      | Some j \<Rightarrow> Inr (j, sort_slice attempt_before (attempts_at (ms_attempts s) key)))"

definition job_older :: "job \<Rightarrow> job \<Rightarrow> bool" where
  "job_older a b =
     (if job_EnqueuedAt a = job_EnqueuedAt b then job_Key a < job_Key b
      else Before (job_EnqueuedAt a) (job_EnqueuedAt b))"

definition in_lineage :: "string \<Rightarrow> string \<Rightarrow> string \<Rightarrow> job \<Rightarrow> bool" where
  "in_lineage epoch queue rootID j =
     (if job_Epoch j \<noteq> epoch \<or> job_Queue j \<noteq> queue then False
      else if job_RootID j \<noteq> rootID \<and> job_ID j \<noteq> rootID then False
      else True)"

definition mem_Lineage :: "mem_store \<Rightarrow> string \<Rightarrow> string \<Rightarrow> string \<Rightarrow> job list" where
  "mem_Lineage s epoch queue rootID =
     sort_slice job_older (filter (in_lineage epoch queue rootID) (map snd (ms_jobs s)))"

definition mem_Counts :: "mem_store \<Rightarrow> Counts" where
  "mem_Counts s = fold tally_incr (map (\<lambda>e. job_State (snd e)) (ms_jobs s)) []"

subsection \<open>The comparison functions meet the contract of sort.Slice\<close>

interpretation newer: slice_order job_newer
proof (rule slice_order_lex [where a = "\<lambda>j. - job_EnqueuedAt j"])
  show "job_newer x y \<longleftrightarrow> (if - job_EnqueuedAt x = - job_EnqueuedAt y then job_Key y < job_Key x
          else - job_EnqueuedAt x < - job_EnqueuedAt y)" for x y
    by (simp add: job_newer_def After_def)
qed (rule slice_order_flip [OF slice_order_by_key])

interpretation older: slice_order job_older
proof (rule slice_order_lex [where a = job_EnqueuedAt])
  show "job_older x y \<longleftrightarrow> (if job_EnqueuedAt x = job_EnqueuedAt y then job_Key x < job_Key y
          else job_EnqueuedAt x < job_EnqueuedAt y)" for x y
    by (simp add: job_older_def Before_def)
qed (rule slice_order_by_key)

interpretation groups: slice_order group_before
proof (rule slice_order_lex [where a = "\<lambda>g. - int (grp_Count g)"])
  show "group_before x y \<longleftrightarrow> (if - int (grp_Count x) = - int (grp_Count y)
          then grp_LastSeen y < grp_LastSeen x else - int (grp_Count x) < - int (grp_Count y))" for x y
    by (simp add: group_before_def After_def)
qed (rule slice_order_flip [OF slice_order_by_key])

interpretation starts: slice_order attempt_before
  unfolding attempt_before_def Before_def by (rule slice_order_by_key)

interpretation attrs: slice_order "attr_before tally" for tally
proof (rule slice_order_lex [where a = "\<lambda>k. - int (tally_at tally k)"])
  show "attr_before tally x y \<longleftrightarrow> (if - int (tally_at tally x) = - int (tally_at tally y) then x < y
          else - int (tally_at tally x) < - int (tally_at tally y))" for x y
    by (simp add: attr_before_def)
qed (rule slice_order_by_key)

end
