(* ===== verification/Conformance_Suite.thy ===== *)
theory Conformance_Suite
  imports Store_Contract Memory_Query
begin

text \<open>
  The conformance suite \<open>store/storetest/storetest.go\<close>: the whole interface \<open>store.Store\<close> as
  a record of operations, the builders of the suite, its cases and \<open>RunSuite\<close>.

  A case is a predicate: it holds when the test does not fail. \<open>t.Fatalf\<close> ends a case, so the
  helpers that can call it (\<open>save\<close>, \<open>load\<close>, \<open>got\<close>) take the rest of the case as their last
  argument; \<open>t.Errorf\<close> lets it run on, which is a conjunction. \<open>clk i\<close> is the \<open>i\<close>-th reading of
  the clock during a case, counting those the store makes inside \<open>ReconcileEpoch\<close> and
  \<open>Timeline\<close>.
\<close>

subsection \<open>The interface\<close>

record ('s, 'e) store = "'s store_impl" +
  st_Jobs :: "'s \<Rightarrow> job_filter \<Rightarrow> 'e + job list"
  st_CountJobs :: "'s \<Rightarrow> job_filter \<Rightarrow> 'e + nat"
  st_GroupJobs :: "'s \<Rightarrow> job_filter \<Rightarrow> int \<Rightarrow> 'e + group list"
  st_Timeline :: "gotime \<Rightarrow> gotime \<Rightarrow> 's \<Rightarrow> gotime \<Rightarrow> duration \<Rightarrow> 'e + bucket list"
  st_AttributeKeys :: "'s \<Rightarrow> int \<Rightarrow> 'e + string list"
  st_Job :: "'s \<Rightarrow> string \<Rightarrow> 'e + (job \<times> attempt list)"
  st_Lineage :: "'s \<Rightarrow> string \<Rightarrow> string \<Rightarrow> string \<Rightarrow> 'e + job list"
  st_Counts :: "'s \<Rightarrow> 'e + Counts"

subsection \<open>Builders\<close>

definition build_job :: "gotime \<Rightarrow> string \<Rightarrow> (job \<Rightarrow> job) list \<Rightarrow> job" where
  "build_job now id' opts =
     fold (\<lambda>opt. opt) opts
       (zero_job\<lparr>job_ID := id', job_Epoch := ''epoch-a'', job_Queue := ''default'', job_Name := ''worker'',
                 job_State := StateCompleted, job_EnqueuedAt := now\<rparr>)"

definition withEpoch :: "string \<Rightarrow> job \<Rightarrow> job" where "withEpoch epoch j = j\<lparr>job_Epoch := epoch\<rparr>"
definition withName :: "string \<Rightarrow> job \<Rightarrow> job" where "withName name j = j\<lparr>job_Name := name\<rparr>"
definition withQueue :: "string \<Rightarrow> job \<Rightarrow> job" where "withQueue queue j = j\<lparr>job_Queue := queue\<rparr>"
definition withState :: "State \<Rightarrow> job \<Rightarrow> job" where "withState s j = j\<lparr>job_State := s\<rparr>"
definition withErr :: "string \<Rightarrow> job \<Rightarrow> job" where "withErr msg j = j\<lparr>job_Err := msg\<rparr>"
definition withEnqueued :: "gotime \<Rightarrow> job \<Rightarrow> job" where "withEnqueued at j = j\<lparr>job_EnqueuedAt := at\<rparr>"
definition withFinished :: "gotime \<Rightarrow> job \<Rightarrow> job" where "withFinished at j = j\<lparr>job_FinishedAt := at\<rparr>"

definition withAttrs :: "(string, string) gomap \<Rightarrow> job \<Rightarrow> job" where
  "withAttrs kv j = j\<lparr>job_Attributes := kv\<rparr>"

definition withLineage :: "string \<Rightarrow> string \<Rightarrow> job \<Rightarrow> job" where
  "withLineage root parent j = j\<lparr>job_RootID := root, job_Parent := parent\<rparr>"

lemmas build_defs =
  build_job_def withEpoch_def withName_def withQueue_def withState_def withErr_def withEnqueued_def
  withFinished_def withAttrs_def withLineage_def zero_job_def

subsection \<open>Helpers\<close>

definition got :: "'e + 'a \<Rightarrow> ('a \<Rightarrow> bool) \<Rightarrow> bool" where
  "got r rest = (case r of Inl err \<Rightarrow> False | Inr x \<Rightarrow> rest x)"

definition refused :: "'e + 'a \<Rightarrow> bool" where
  "refused r = (case r of Inl err \<Rightarrow> True | Inr x \<Rightarrow> False)"

definition wrote :: "store_error option \<times> 's \<Rightarrow> ('s \<Rightarrow> bool) \<Rightarrow> bool" where
  "wrote r rest = (case r of (Some err, _) \<Rightarrow> False | (None, s) \<Rightarrow> rest s)"

definition save :: "('s, 'e) store \<Rightarrow> 's \<Rightarrow> job list \<Rightarrow> ('s \<Rightarrow> bool) \<Rightarrow> bool" where
  "save st s jobs rest = wrote (si_UpsertJobs st s jobs) rest"

definition loadFrom :: "('s, 'e) store \<Rightarrow> 's \<Rightarrow> string \<Rightarrow> string \<Rightarrow> string \<Rightarrow> (job \<Rightarrow> bool) \<Rightarrow> bool" where
  "loadFrom st s epoch queue id' rest = got (st_Job st s (KeyFor epoch queue id')) (\<lambda>(found, _). rest found)"

definition load :: "('s, 'e) store \<Rightarrow> 's \<Rightarrow> string \<Rightarrow> string \<Rightarrow> (job \<Rightarrow> bool) \<Rightarrow> bool" where
  "load st s epoch id' rest = loadFrom st s epoch ''default'' id' rest"

definition ids :: "job list \<Rightarrow> string list" where
  "ids jobs = map job_ID jobs"

subsection \<open>Merging\<close>

definition upsertMergesOutOfOrderEvents :: "('s, 'e) store \<Rightarrow> 's \<Rightarrow> (nat \<Rightarrow> gotime) \<Rightarrow> bool" where
  "upsertMergesOutOfOrderEvents st s clk =
     (let now = clk 0 in
      save st s
        [build_job (clk 1) ''1'' [withState StateActive, withName []],
         build_job (clk 2) ''1'' [withState StateCompleted, withName [], withFinished now]] (\<lambda>s.
      save st s [build_job (clk 3) ''1'' [withState StateCreated, withName ''importer'', withEnqueued now]] (\<lambda>s.
      load st s ''epoch-a'' ''1'' (\<lambda>found.
        job_State found = StateCompleted \<and> job_Name found = ''importer'' \<and>
        \<not> IsZero (job_EnqueuedAt found)))))"

fun replay_states :: "('s, 'e) store \<Rightarrow> (nat \<Rightarrow> gotime) \<Rightarrow> nat \<Rightarrow> State list \<Rightarrow> 's \<Rightarrow> bool" where
  "replay_states st clk i [] s \<longleftrightarrow> True"
| "replay_states st clk i (terminal # rest) s \<longleftrightarrow>
     (let id' = terminal in
      save st s [build_job (clk i) id' [withState terminal]] (\<lambda>s.
      save st s [build_job (clk (i + 1)) id' [withState StateCreated]] (\<lambda>s.
      save st s [build_job (clk (i + 2)) id' [withState StateActive]] (\<lambda>s.
      load st s ''epoch-a'' id' (\<lambda>found. job_State found = terminal) \<and>
      replay_states st clk (i + 3) rest s))))"

definition upsertNeverRegressesState :: "('s, 'e) store \<Rightarrow> 's \<Rightarrow> (nat \<Rightarrow> gotime) \<Rightarrow> bool" where
  "upsertNeverRegressesState st s clk =
     replay_states st clk 0 [StateCompleted, StateFailed, StateDiscarded, StateAbandoned] s"

definition upsertKeepsLatestProgress :: "('s, 'e) store \<Rightarrow> 's \<Rightarrow> (nat \<Rightarrow> gotime) \<Rightarrow> bool" where
  "upsertKeepsLatestProgress st s clk =
     (let now = clk 0;
          newer = (build_job (clk 1) ''1'' [withState StateActive])
                    \<lparr>job_ProgressCompleted := 90, job_ProgressTotal := 100,
                     job_ProgressStage := ''finishing'', job_ProgressAt := now\<rparr>;
          older = (build_job (clk 2) ''1'' [withState StateActive])
                    \<lparr>job_ProgressCompleted := 10, job_ProgressTotal := 100,
                     job_ProgressStage := ''starting'', job_ProgressAt := time_Add now (- Minute)\<rparr>
      in save st s [newer, older] (\<lambda>s.
         load st s ''epoch-a'' ''1'' (\<lambda>found.
           \<not> (job_ProgressCompleted found \<noteq> 90 \<or> job_ProgressStage found \<noteq> ''finishing''))))"

definition epochsIsolateIdenticalIDs :: "('s, 'e) store \<Rightarrow> 's \<Rightarrow> (nat \<Rightarrow> gotime) \<Rightarrow> bool" where
  "epochsIsolateIdenticalIDs st s clk =
     save st s
       [build_job (clk 0) ''1'' [withEpoch ''run-a'', withName ''send-email'', withState StateCompleted],
        build_job (clk 1) ''1'' [withEpoch ''run-b'', withName ''poll-status'', withState StateFailed]] (\<lambda>s.
     load st s ''run-a'' ''1'' (\<lambda>j.
       \<not> (job_Name j \<noteq> ''send-email'' \<or> job_State j \<noteq> StateCompleted) \<and>
     load st s ''run-b'' ''1'' (\<lambda>j.
       \<not> (job_Name j \<noteq> ''poll-status'' \<or> job_State j \<noteq> StateFailed))))"

definition queuesIsolateIdenticalIDs :: "('s, 'e) store \<Rightarrow> 's \<Rightarrow> (nat \<Rightarrow> gotime) \<Rightarrow> bool" where
  "queuesIsolateIdenticalIDs st s clk =
     save st s
       [build_job (clk 0) ''1'' [withQueue ''emails'', withName ''send-email'', withState StateCompleted],
        build_job (clk 1) ''1'' [withQueue ''reports'', withName ''nightly-rollup'', withState StateFailed]] (\<lambda>s.
     loadFrom st s ''epoch-a'' ''emails'' ''1'' (\<lambda>j. job_Name j = ''send-email'' \<and>
     loadFrom st s ''epoch-a'' ''reports'' ''1'' (\<lambda>j. job_Name j = ''nightly-rollup'' \<and>
     list_all (\<lambda>(queue, want). got (st_Jobs st s (zero_filter\<lparr>f_Queue := queue\<rparr>)) (\<lambda>found. length found = want))
       [(''emails'', 1), (''reports'', 1)])))"

subsection \<open>Attempts and lineage\<close>

definition mk_attempt :: "string \<Rightarrow> string \<Rightarrow> int \<Rightarrow> State \<Rightarrow> string \<Rightarrow> gotime \<Rightarrow> attempt" where
  "mk_attempt jobID epoch n st err started =
     zero_attempt\<lparr>att_JobID := jobID, att_Epoch := epoch, att_Queue := ''default'', att_Attempt := n,
                  att_State := st, att_Err := err, att_StartedAt := started\<rparr>"

definition attemptsRoundTrip :: "('s, 'e) store \<Rightarrow> 's \<Rightarrow> (nat \<Rightarrow> gotime) \<Rightarrow> bool" where
  "attemptsRoundTrip st s clk =
     (let now = clk 0 in
      save st s [build_job (clk 1) ''1'' [withState StateCompleted]] (\<lambda>s.
      wrote (si_SaveAttempts st s
        [mk_attempt ''1'' ''epoch-a'' 0 StateFailed ''boom'' now,
         mk_attempt ''1'' ''epoch-a'' 1 StateCompleted [] (time_Add now Second),
         mk_attempt ''1'' ''other'' 0 StateFailed [] now]) (\<lambda>s.
      got (st_Job st s (KeyFor ''epoch-a'' ''default'' ''1'')) (\<lambda>(_, as).
        length as = 2 \<and>
        \<not> (att_Attempt (as ! 0) \<noteq> 0 \<or> att_Err (as ! 0) \<noteq> ''boom'') \<and>
        att_State (as ! 1) = StateCompleted))))"

definition lineageIsScopedAndOrdered :: "('s, 'e) store \<Rightarrow> 's \<Rightarrow> (nat \<Rightarrow> gotime) \<Rightarrow> bool" where
  "lineageIsScopedAndOrdered st s clk =
     (let base = time_Add (clk 0) (- Hour) in
      save st s
        [build_job (clk 1) ''1'' [withLineage ''1'' [], withEnqueued base],
         build_job (clk 2) ''2'' [withLineage ''1'' ''1'', withEnqueued (time_Add base Second)],
         build_job (clk 3) ''3'' [withLineage ''1'' ''2'', withEnqueued (time_Add base (2 * Second))],
         build_job (clk 4) ''9'' [withLineage ''9'' [], withEnqueued base],
         build_job (clk 5) ''1'' [withEpoch ''other'', withLineage ''1'' [], withEnqueued base],
         build_job (clk 6) ''1'' [withQueue ''other-queue'', withLineage ''1'' [], withEnqueued base]] (\<lambda>s.
      got (st_Lineage st s ''epoch-a'' ''default'' ''1'') (\<lambda>chain.
        ids chain = [''1'', ''2'', ''3''] \<and>
        list_all (\<lambda>hop. job_Epoch hop = ''epoch-a'' \<and> job_Queue hop = ''default'') chain \<and>
      got (st_Lineage st s ''epoch-a'' ''other-queue'' ''1'') (\<lambda>other. length other = 1))))"

subsection \<open>Filters, search, pages\<close>

definition filterByQueueNameAndState :: "('s, 'e) store \<Rightarrow> 's \<Rightarrow> (nat \<Rightarrow> gotime) \<Rightarrow> bool" where
  "filterByQueueNameAndState st s clk =
     save st s
       [build_job (clk 0) ''1'' [withQueue ''emails'', withName ''send'', withState StateCompleted],
        build_job (clk 1) ''2'' [withQueue ''orders'', withName ''send'', withState StateFailed],
        build_job (clk 2) ''3'' [withQueue ''orders'', withName ''import'', withState StateCompleted]] (\<lambda>s.
     list_all (\<lambda>(f, want). got (st_Jobs st s f) (\<lambda>found. length found = want))
       [(zero_filter\<lparr>f_Queue := ''orders''\<rparr>, 2),
        (zero_filter\<lparr>f_Name := ''send''\<rparr>, 2),
        (zero_filter\<lparr>f_States := [StateFailed]\<rparr>, 1),
        (zero_filter\<lparr>f_States := FailureStates\<rparr>, 1),
        (zero_filter\<lparr>f_Queue := ''orders'', f_States := [StateCompleted]\<rparr>, 1),
        (zero_filter\<lparr>f_Queue := ''nope''\<rparr>, 0)])"

definition searchMatchesAllTerms :: "('s, 'e) store \<Rightarrow> 's \<Rightarrow> (nat \<Rightarrow> gotime) \<Rightarrow> bool" where
  "searchMatchesAllTerms st s clk =
     save st s
       [build_job (clk 0) ''100'' [withName ''import-rows-8471''],
        build_job (clk 1) ''200'' [withName ''send-email'']] (\<lambda>s.
     list_all (\<lambda>(search, want).
         got (st_Jobs st s (zero_filter\<lparr>f_Search := search\<rparr>)) (\<lambda>found. length found = want))
       [(''import'', 1), (''rows import'', 1), (''import missing'', 0), (''100'', 1)])"

definition filterByAttribute :: "('s, 'e) store \<Rightarrow> 's \<Rightarrow> (nat \<Rightarrow> gotime) \<Rightarrow> bool" where
  "filterByAttribute st s clk =
     save st s
       [build_job (clk 0) ''1'' [withAttrs [(''tenant'', ''acme''), (''region'', ''us'')]],
        build_job (clk 1) ''2'' [withAttrs [(''tenant'', ''globex'')]],
        build_job (clk 2) ''3'' []] (\<lambda>s.
     list_all (\<lambda>(key, value, want).
         got (st_Jobs st s (zero_filter\<lparr>f_AttrKey := key, f_AttrValue := value\<rparr>)) (\<lambda>found. length found = want))
       [(''tenant'', ''acme'', 1), (''tenant'', [], 2), (''region'', [], 1),
        (''tenant'', ''nobody'', 0), (''missing'', [], 0)])"

definition beforeFreezesTheWindow :: "('s, 'e) store \<Rightarrow> 's \<Rightarrow> (nat \<Rightarrow> gotime) \<Rightarrow> bool" where
  "beforeFreezesTheWindow st s clk =
     (let cutoff = clk 0 in
      save st s
        [build_job (clk 1) ''old'' [withEnqueued (time_Add cutoff (- Minute))],
         build_job (clk 2) ''new'' [withEnqueued (time_Add cutoff Minute)]] (\<lambda>s.
      got (st_Jobs st s (zero_filter\<lparr>f_Before := cutoff\<rparr>)) (\<lambda>found. ids found = [''old''] \<and>
      got (st_CountJobs st s (zero_filter\<lparr>f_Before := cutoff\<rparr>)) (\<lambda>total. total = 1))))"

text \<open>\<open>string(rune('a'+i))\<close>, for the letters and digits the suite makes.\<close>

definition rune_string :: "char \<Rightarrow> nat \<Rightarrow> string" where
  "rune_string c i = [char_of (of_char c + i :: nat)]"

definition paginationIsStableAndCounted :: "('s, 'e) store \<Rightarrow> 's \<Rightarrow> (nat \<Rightarrow> gotime) \<Rightarrow> bool" where
  "paginationIsStableAndCounted st s clk =
     (let base = time_Add (clk 0) (- Hour);
          jobs = map (\<lambda>i. build_job (clk (i + 1)) (rune_string (CHR ''a'') i)
                            [withEnqueued (time_Add base (int i * Minute))]) [0..<10]
      in save st s jobs (\<lambda>s.
         got (st_Jobs st s (zero_filter\<lparr>f_Limit := 4\<rparr>)) (\<lambda>first.
         got (st_Jobs st s (zero_filter\<lparr>f_Limit := 4, f_Offset := 4\<rparr>)) (\<lambda>second.
           length first = 4 \<and> length second = 4 \<and>
           job_ID (first ! 0) = ''j'' \<and>
           distinct (ids first @ ids second) \<and>
         got (st_CountJobs st s (zero_filter\<lparr>f_Limit := 4\<rparr>)) (\<lambda>total. total = 10)))))"

subsection \<open>Groups and tallies\<close>

definition groupsCollapseIdentifiers :: "('s, 'e) store \<Rightarrow> 's \<Rightarrow> (nat \<Rightarrow> gotime) \<Rightarrow> bool" where
  "groupsCollapseIdentifiers st s clk =
     (let jobs = map (\<lambda>i. build_job (clk i) (rune_string (CHR ''a'') i)
                            [withName (''import-rows-'' @ rune_string (CHR ''0'') i),
                             withState StateFailed, withErr ''invalid payload'']) [0..<5];
          jobs = jobs @ [build_job (clk 5) ''z'' [withName ''send-email'', withState StateFailed, withErr ''timeout'']]
      in save st s jobs (\<lambda>s.
         got (st_GroupJobs st s (zero_filter\<lparr>f_States := FailureStates\<rparr>) 10) (\<lambda>groups.
           length groups = 2 \<and>
           grp_Count (groups ! 0) = 5 \<and>
           grp_Pattern (groups ! 0) = NormalizeName ''import-rows-0'' \<and>
           grp_Err (groups ! 0) = ''invalid payload'')))"

definition countsByState :: "('s, 'e) store \<Rightarrow> 's \<Rightarrow> (nat \<Rightarrow> gotime) \<Rightarrow> bool" where
  "countsByState st s clk =
     save st s
       [build_job (clk 0) ''1'' [withState StateCompleted],
        build_job (clk 1) ''2'' [withState StateCompleted],
        build_job (clk 2) ''3'' [withState StateFailed]] (\<lambda>s.
     got (st_Counts st s) (\<lambda>counts.
       \<not> (tally_at counts StateCompleted \<noteq> 2 \<or> tally_at counts StateFailed \<noteq> 1)))"

definition attributeKeysAreDiscovered :: "('s, 'e) store \<Rightarrow> 's \<Rightarrow> (nat \<Rightarrow> gotime) \<Rightarrow> bool" where
  "attributeKeysAreDiscovered st s clk =
     save st s
       [build_job (clk 0) ''1'' [withAttrs [(''tenant'', ''acme'')]],
        build_job (clk 1) ''2'' [withAttrs [(''tenant'', ''globex''), (''shop'', ''x'')]],
        build_job (clk 2) ''3'' []] (\<lambda>s.
     got (st_AttributeKeys st s 10) (\<lambda>ks. \<not> (''tenant'' \<notin> set ks \<or> ''shop'' \<notin> set ks)))"

definition missingJobIsAnError :: "('s, 'e) store \<Rightarrow> 's \<Rightarrow> (nat \<Rightarrow> gotime) \<Rightarrow> bool" where
  "missingJobIsAnError st s clk = refused (st_Job st s (KeyFor ''nope'' ''nope'' ''nope''))"

subsection \<open>Reconciliation\<close>

definition reconcileMarksDeadEpochs :: "('s, 'e) store \<Rightarrow> 's \<Rightarrow> (nat \<Rightarrow> gotime) \<Rightarrow> bool" where
  "reconcileMarksDeadEpochs st s clk =
     save st s
       [build_job (clk 0) ''1'' [withEpoch ''old'', withState StateActive],
        build_job (clk 1) ''2'' [withEpoch ''old'', withState StateCreated],
        build_job (clk 2) ''3'' [withEpoch ''old'', withState StateCompleted]] (\<lambda>s.
     (let (r, s) = si_ReconcileEpoch st (clk 3) s ''new'' Minute
      in got r (\<lambda>changed. changed = 2 \<and>
         list_all (\<lambda>(id', want). load st s ''old'' id' (\<lambda>j. job_State j = want))
           [(''1'', StateInterrupted), (''2'', StateInterrupted), (''3'', StateCompleted)])))"

definition reconcileSparesLiveSiblings :: "('s, 'e) store \<Rightarrow> 's \<Rightarrow> (nat \<Rightarrow> gotime) \<Rightarrow> bool" where
  "reconcileSparesLiveSiblings st s clk =
     save st s
       [build_job (clk 0) ''1'' [withEpoch ''live-sibling'', withState StateActive],
        build_job (clk 1) ''2'' [withEpoch ''dead-sibling'', withState StateActive],
        build_job (clk 2) ''3'' [withEpoch ''retired'', withState StateActive]] (\<lambda>s.
     wrote (si_Heartbeat st s ''live-sibling'' (clk 3)) (\<lambda>s.
     wrote (si_Heartbeat st s ''dead-sibling'' (time_Add (clk 4) (- Hour))) (\<lambda>s.
     wrote (si_Heartbeat st s ''retired'' zeroTime) (\<lambda>s.
     (let (r, s) = si_ReconcileEpoch st (clk 5) s ''mine'' Minute
      in got r (\<lambda>changed. changed = 2 \<and>
         list_all (\<lambda>(epoch, id', want). load st s epoch id' (\<lambda>j. job_State j = want))
           [(''live-sibling'', ''1'', StateActive), (''dead-sibling'', ''2'', StateInterrupted),
            (''retired'', ''3'', StateInterrupted)]))))))"

subsection \<open>Pruning\<close>

definition pruneRemovesOnlyAgedTerminal :: "('s, 'e) store \<Rightarrow> 's \<Rightarrow> (nat \<Rightarrow> gotime) \<Rightarrow> bool" where
  "pruneRemovesOnlyAgedTerminal st s clk =
     (let old = time_Add (clk 0) (- 48 * Hour); recent = time_Add (clk 1) (- Minute) in
      save st s
        [build_job (clk 2) ''old-done'' [withState StateCompleted, withEnqueued old, withFinished old],
         build_job (clk 3) ''old-active'' [withState StateActive, withEnqueued old],
         build_job (clk 4) ''new-done'' [withState StateCompleted, withEnqueued recent, withFinished recent]] (\<lambda>s.
      wrote (si_SaveAttempts st s [mk_attempt ''old-done'' ''epoch-a'' 0 StateFailed [] old]) (\<lambda>s.
      (let (r, s) = si_Prune st s (time_Add (clk 5) (- 24 * Hour)) []
       in got r (\<lambda>removed. removed = 1 \<and>
          refused (st_Job st s (KeyFor ''epoch-a'' ''default'' ''old-done'')) \<and>
          load st s ''epoch-a'' ''old-active'' (\<lambda>j. job_State j = StateActive \<and>
          load st s ''epoch-a'' ''new-done'' (\<lambda>j. job_State j = StateCompleted \<and>
          got (fst (si_Prune st s zeroTime [])) (\<lambda>removed. removed = 0))))))))"

definition pruneRespectsStates :: "('s, 'e) store \<Rightarrow> 's \<Rightarrow> (nat \<Rightarrow> gotime) \<Rightarrow> bool" where
  "pruneRespectsStates st s clk =
     (let old = time_Add (clk 0) (- 48 * Hour) in
      save st s
        [build_job (clk 1) ''done'' [withState StateCompleted, withEnqueued old, withFinished old],
         build_job (clk 2) ''failed'' [withState StateFailed, withEnqueued old, withFinished old]] (\<lambda>s.
      (let (r, s) = si_Prune st s (clk 3) [StateCompleted]
       in got r (\<lambda>removed. removed = 1 \<and>
          load st s ''epoch-a'' ''failed'' (\<lambda>j. job_State j = StateFailed)))))"

subsection \<open>Timeline\<close>

definition timelineBucketsAndRefusesAbsurdRanges :: "('s, 'e) store \<Rightarrow> 's \<Rightarrow> (nat \<Rightarrow> gotime) \<Rightarrow> bool" where
  "timelineBucketsAndRefusesAbsurdRanges st s clk =
     (let now = clk 0 in
      save st s
        [build_job (clk 1) ''1'' [withState StateCompleted, withEnqueued now, withFinished now],
         build_job (clk 2) ''2'' [withState StateFailed, withEnqueued now, withFinished now]] (\<lambda>s.
      got (st_Timeline st (clk 3) (clk 4) s (time_Add now (- 10 * Minute)) Minute) (\<lambda>buckets.
        \<not> length buckets < 10 \<and>
        \<not> (sum_list (map bkt_Completed buckets) \<noteq> 1 \<or> sum_list (map bkt_Failed buckets) \<noteq> 1) \<and>
        list_all (\<lambda>i. After (bkt_Start (buckets ! i)) (bkt_Start (buckets ! (i - 1)))) [1..<length buckets] \<and>
      refused (st_Timeline st (clk 5) (clk 6) s (time_Add now (- 30 * 24 * Hour)) Second))))"

subsection \<open>The suite\<close>

definition suite_cases :: "(string \<times> (('s, 'e) store \<Rightarrow> 's \<Rightarrow> (nat \<Rightarrow> gotime) \<Rightarrow> bool)) list" where
  "suite_cases =
     [(''UpsertMergesOutOfOrderEvents'', upsertMergesOutOfOrderEvents),
      (''UpsertNeverRegressesState'', upsertNeverRegressesState),
      (''UpsertKeepsLatestProgress'', upsertKeepsLatestProgress),
      (''EpochsIsolateIdenticalIDs'', epochsIsolateIdenticalIDs),
      (''QueuesIsolateIdenticalIDs'', queuesIsolateIdenticalIDs),
      (''AttemptsRoundTrip'', attemptsRoundTrip),
      (''LineageIsScopedAndOrdered'', lineageIsScopedAndOrdered),
      (''FilterByQueueNameAndState'', filterByQueueNameAndState),
      (''SearchMatchesAllTerms'', searchMatchesAllTerms),
      (''FilterByAttribute'', filterByAttribute),
      (''BeforeFreezesTheWindow'', beforeFreezesTheWindow),
      (''PaginationIsStableAndCounted'', paginationIsStableAndCounted),
      (''GroupsCollapseIdentifiers'', groupsCollapseIdentifiers),
      (''CountsByState'', countsByState),
      (''ReconcileMarksDeadEpochs'', reconcileMarksDeadEpochs),
      (''ReconcileSparesLiveSiblings'', reconcileSparesLiveSiblings),
      (''PruneRemovesOnlyAgedTerminal'', pruneRemovesOnlyAgedTerminal),
      (''PruneRespectsStates'', pruneRespectsStates),
      (''TimelineBucketsAndRefusesAbsurdRanges'', timelineBucketsAndRefusesAbsurdRanges),
      (''AttributeKeysAreDiscovered'', attributeKeysAreDiscovered),
      (''MissingJobIsAnError'', missingJobIsAnError)]"

text \<open>Every case runs on a fresh store, and at its own time.\<close>

definition RunSuite :: "('s, 'e) store \<Rightarrow> 's \<Rightarrow> (string \<Rightarrow> nat \<Rightarrow> gotime) \<Rightarrow> bool" where
  "RunSuite st newStore clks = list_all (\<lambda>(name, run). run st newStore (clks name)) suite_cases"

end
