(* ===== verification/Sql_Store.thy ===== *)
theory Sql_Store
  imports Memory_Query
begin

text \<open>
  The SQL backends: \<open>store/sqlite/sqlite.go\<close> and \<open>store/postgres/postgres.go\<close>. The second is
  a port of the first; the two differ in the text of their errors, in how a search term and
  an attribute are matched, and in the placeholders of a statement. These differences are
  the record \<open>sql_dialect\<close>, and everything else is written once, over a dialect.

  \<^item> A table is the association list of its rows under their primary key, in the order in
    which the rows were inserted: the order of \<open>rowid\<close> (SQLite) and of \<open>seq\<close> (Postgres).
    An insert appends; an update and an \<open>ON CONFLICT DO UPDATE\<close> keep the row's place.
  \<^item> A statement is the function on tables that its text denotes. Columns of type \<open>TEXT\<close> are
    strings, integer columns are integers; times are microseconds, zero for unset.
  \<^item> The \<open>attributes\<close> column holds JSON text that only \<open>json.Unmarshal\<close> and the JSON functions
    of the database read. It is kept as the map it was written from, empty for the text
    \<open>{}\<close>; \<open>dl_json\<close> is the map read back from it.
  \<^item> The calls of one operation to the driver may fail: their answers are the argument
    \<open>driver\<close>. A transaction that is not committed leaves the tables as they were.
\<close>

subsection \<open>What the driver answers\<close>

text \<open>
  \<open>dr_exec i\<close> answers the \<open>i\<close>-th \<open>Exec\<close> or \<open>Query\<close> of the operation, \<open>dr_rows\<close> the final
  \<open>rows.Err\<close> or \<open>RowsAffected\<close>. \<open>None\<close> is success.
\<close>

record driver =
  dr_begin :: "string option"
  dr_prepare :: "string option"
  dr_exec :: "nat \<Rightarrow> string option"
  dr_rows :: "string option"
  dr_commit :: "string option"

definition quiet :: driver where
  "quiet = \<lparr>dr_begin = None, dr_prepare = None, dr_exec = (\<lambda>_. None), dr_rows = None, dr_commit = None\<rparr>"

datatype sql_error = DriverErr string | BucketLimit | NoRows string | SqlPanic go_panic

subsection \<open>Dialects\<close>

text \<open>One row of the query behind \<open>GroupJobs\<close>.\<close>

record group_row =
  gr_family :: string
  gr_state :: string
  gr_err :: string
  gr_total :: nat
  gr_last_seen :: int

record sql_dialect =
  dl_name :: string
  dl_statements :: nat
  dl_like :: "string \<Rightarrow> string \<Rightarrow> bool"
  dl_attr :: "(string, string) gomap \<Rightarrow> string \<Rightarrow> string option"
  dl_json :: "(string, string) gomap \<Rightarrow> (string, string) gomap"
  dl_groups :: "group_row list \<Rightarrow> group_row list"
  dl_keys :: "(string \<times> nat) list \<Rightarrow> (string \<times> nat) list"

text \<open>
  \<open>LIKE\<close> on ASCII text, without regard to case: \<open>%\<close> stands for any run of characters, \<open>_\<close> for
  one. Postgres also lets a backslash quote the character after it.
\<close>

function like_match :: "bool \<Rightarrow> string \<Rightarrow> string \<Rightarrow> bool" where
  "like_match esc [] s \<longleftrightarrow> s = []"
| "like_match esc (p # ps) s \<longleftrightarrow>
     (if p = CHR ''%'' then
        like_match esc ps s \<or> (case s of [] \<Rightarrow> False | _ # s' \<Rightarrow> like_match esc (p # ps) s')
      else if esc \<and> p = CHR 0x5C then
        (case ps of [] \<Rightarrow> False
         | q # qs \<Rightarrow> (case s of [] \<Rightarrow> False
                      | c # s' \<Rightarrow> ascii_lower q = ascii_lower c \<and> like_match esc qs s'))
      else
        (case s of [] \<Rightarrow> False
         | c # s' \<Rightarrow> (p = CHR ''_'' \<or> ascii_lower p = ascii_lower c) \<and> like_match esc ps s'))"
  by pat_completeness auto
termination
  by (relation "measure (\<lambda>(esc, p, s). length p + length s)") auto

text \<open>
  What the database does with text beyond ASCII and with unusual JSON paths is a parameter, and
  so is the order in which it comes upon the groups of a \<open>GROUP BY\<close>.
\<close>

record sql_engine =
  en_like :: "string \<Rightarrow> string \<Rightarrow> bool"
  en_path :: "(string, string) gomap \<Rightarrow> string \<Rightarrow> string option"
  en_json :: "(string, string) gomap \<Rightarrow> (string, string) gomap"
  en_groups :: "group_row list \<Rightarrow> group_row list"
  en_keys :: "(string \<times> nat) list \<Rightarrow> (string \<times> nat) list"

text \<open>
  The path \<open>'$.' || key\<close> of \<open>json_extract\<close> names the member \<open>key\<close> only when the key has no
  character that is special in a path.
\<close>

definition plain_label :: "string \<Rightarrow> bool" where
  "plain_label key \<longleftrightarrow> key \<noteq> [] \<and> list_all (\<lambda>c. c \<noteq> CHR ''.'' \<and> c \<noteq> CHR ''['' \<and> c \<noteq> CHR 0x22) key"

definition sqlite :: "sql_engine \<Rightarrow> sql_dialect" where
  "sqlite en =
     \<lparr>dl_name = ''sqlite'', dl_statements = 1,
      dl_like = (\<lambda>p s. if ascii p \<and> ascii s then like_match False p s else en_like en p s),
      dl_attr = (\<lambda>attrs key. if plain_label key then map_of attrs key else en_path en attrs key),
      dl_json = en_json en, dl_groups = en_groups en, dl_keys = en_keys en\<rparr>"

definition postgres :: "sql_engine \<Rightarrow> sql_dialect" where
  "postgres en =
     \<lparr>dl_name = ''postgres'', dl_statements = 7,
      dl_like = (\<lambda>p s. if ascii p \<and> ascii s then like_match True p s else en_like en p s),
      dl_attr = map_of,
      dl_json = en_json en, dl_groups = en_groups en, dl_keys = en_keys en\<rparr>"

text \<open>Postgres numbers its placeholders.\<close>

fun rebind_from :: "nat \<Rightarrow> string \<Rightarrow> string" where
  "rebind_from n [] = []"
| "rebind_from n (c # cs) =
     (if c \<noteq> CHR ''?'' then c # rebind_from n cs
      else CHR ''$'' # Itoa (int (n + 1)) @ rebind_from (n + 1) cs)"

definition rebind :: "string \<Rightarrow> string" where
  "rebind query = rebind_from 0 query"

text \<open>No placeholder of the first kind is left, and a text without any stays as it is.\<close>

lemma rebind_from_clean: "CHR ''?'' \<notin> set (rebind_from n q)"
proof (induction n q rule: rebind_from.induct)
  case (2 n c cs)
  have "CHR ''?'' \<notin> set (Itoa (int (n + 1)))"
    using FormatInt_chars [of "CHR ''?''" "int (n + 1)"] by (auto simp: is_digit_def byte_def)
  with 2 show ?case by auto
qed simp

lemma rebind_from_plain: "CHR ''?'' \<notin> set q \<Longrightarrow> rebind_from n q = q"
  by (induction n q rule: rebind_from.induct) auto

lemma rebind_clean: "CHR ''?'' \<notin> set (rebind q)" "CHR ''?'' \<notin> set q \<Longrightarrow> rebind q = q"
  by (simp_all add: rebind_def rebind_from_clean rebind_from_plain)

subsection \<open>Tables\<close>

record job_row =
  jr_id :: string
  jr_epoch :: string
  jr_queue :: string
  jr_name :: string
  jr_pattern :: string
  jr_state :: string
  jr_state_rank :: int
  jr_err :: string
  jr_root_id :: string
  jr_parent_id :: string
  jr_attributes :: "(string, string) gomap"
  jr_enqueued_at :: int
  jr_started_at :: int
  jr_finished_at :: int
  jr_wait_us :: int
  jr_exec_us :: int
  jr_attempt :: int
  jr_pg_done :: int
  jr_pg_total :: int
  jr_pg_stage :: string
  jr_pg_at :: int

record att_row =
  ar_job_id :: string
  ar_state :: string
  ar_err :: string
  ar_finished_at :: int

text \<open>The primary key of an attempt: \<open>(job_key, attempt, started_at)\<close>.\<close>

type_synonym att_key = "string \<times> int \<times> int"

record sql_db =
  db_jobs :: "(string, job_row) gomap"
  db_epochs :: "(string, int) gomap"
  db_attempts :: "(att_key, att_row) gomap"

definition unix :: "gotime \<Rightarrow> int" where
  "unix t = (if IsZero t then 0 else UnixMicro t)"

definition fromUnix :: "int \<Rightarrow> gotime" where
  "fromUnix us = (if us = 0 then zeroTime else time_UnixMicro us)"

definition sql_New :: sql_db where
  "sql_New = \<lparr>db_jobs = [], db_epochs = [], db_attempts = []\<rparr>"

text \<open>The loop over a statement; the first execution that fails ends it.\<close>

fun exec_each ::
    "(nat \<Rightarrow> string option) \<Rightarrow> nat \<Rightarrow> ('x \<Rightarrow> 't \<Rightarrow> 't) \<Rightarrow> 'x list \<Rightarrow> 't \<Rightarrow> string + 't" where
  "exec_each answer i f [] tbl = Inr tbl"
| "exec_each answer i f (x # xs) tbl =
     (case answer i of Some e \<Rightarrow> Inl e | None \<Rightarrow> exec_each answer (Suc i) f xs (f x tbl))"

text \<open>
  \<open>schema\<close> creates the tables and indexes that do not exist yet: in one \<open>Exec\<close> for SQLite, in
  seven for Postgres. The rows stay as they are.
\<close>

definition sql_Migrate :: "sql_dialect \<Rightarrow> driver \<Rightarrow> sql_db \<Rightarrow> string option \<times> sql_db" where
  "sql_Migrate d dr db =
     (case exec_each (dr_exec dr) 0 (\<lambda>_. id) [0..<dl_statements d] db of
        Inl e \<Rightarrow> (Some (dl_name d @ '': migrate: '' @ e), db)
      | Inr db' \<Rightarrow> (None, db'))"

subsection \<open>Upserting jobs\<close>

definition sql_values :: "job \<Rightarrow> job_row" where
  "sql_values j =
     \<lparr>jr_id = job_ID j, jr_epoch = job_Epoch j, jr_queue = job_Queue j, jr_name = job_Name j,
      jr_pattern = NormalizeName (job_Name j), jr_state = job_State j,
      jr_state_rank = int (Rank (job_State j)), jr_err = job_Err j, jr_root_id = job_RootID j,
      jr_parent_id = job_Parent j,
      jr_attributes = job_Attributes j,
      jr_enqueued_at = unix (job_EnqueuedAt j), jr_started_at = unix (job_StartedAt j),
      jr_finished_at = unix (job_FinishedAt j), jr_wait_us = job_WaitUS j, jr_exec_us = job_ExecUS j,
      jr_attempt = job_Attempt j, jr_pg_done = job_ProgressCompleted j,
      jr_pg_total = job_ProgressTotal j, jr_pg_stage = job_ProgressStage j,
      jr_pg_at = unix (job_ProgressAt j)\<rparr>"

text \<open>\<open>ON CONFLICT(key) DO UPDATE SET\<close>: every expression reads the old row and \<open>excluded\<close>.\<close>

definition upsert_set :: "job_row \<Rightarrow> job_row \<Rightarrow> job_row" where
  "upsert_set jobs excluded =
     jobs\<lparr>
       jr_queue := (if jr_queue jobs = [] then jr_queue excluded else jr_queue jobs),
       jr_name := (if jr_name jobs = [] then jr_name excluded else jr_name jobs),
       jr_pattern := (if jr_pattern jobs = [] then jr_pattern excluded else jr_pattern jobs),
       jr_state := (if jr_state_rank excluded > jr_state_rank jobs then jr_state excluded else jr_state jobs),
       jr_state_rank := max (jr_state_rank jobs) (jr_state_rank excluded),
       jr_err := (if jr_err excluded \<noteq> [] then jr_err excluded else jr_err jobs),
       jr_root_id := (if jr_root_id jobs = [] then jr_root_id excluded else jr_root_id jobs),
       jr_parent_id := (if jr_parent_id jobs = [] then jr_parent_id excluded else jr_parent_id jobs),
       jr_attributes := (if jr_attributes excluded \<noteq> [] then jr_attributes excluded else jr_attributes jobs),
       jr_enqueued_at := (if jr_enqueued_at jobs = 0 then jr_enqueued_at excluded else jr_enqueued_at jobs),
       jr_started_at := (if jr_started_at jobs = 0 then jr_started_at excluded else jr_started_at jobs),
       jr_finished_at := (if jr_finished_at excluded \<noteq> 0 then jr_finished_at excluded else jr_finished_at jobs),
       jr_wait_us := (if jr_wait_us excluded \<noteq> 0 then jr_wait_us excluded else jr_wait_us jobs),
       jr_exec_us := (if jr_exec_us excluded \<noteq> 0 then jr_exec_us excluded else jr_exec_us jobs),
       jr_attempt := max (jr_attempt jobs) (jr_attempt excluded),
       jr_pg_done := (if jr_pg_at excluded > jr_pg_at jobs then jr_pg_done excluded else jr_pg_done jobs),
       jr_pg_total := (if jr_pg_at excluded > jr_pg_at jobs then jr_pg_total excluded else jr_pg_total jobs),
       jr_pg_stage := (if jr_pg_at excluded > jr_pg_at jobs then jr_pg_stage excluded else jr_pg_stage jobs),
       jr_pg_at := max (jr_pg_at jobs) (jr_pg_at excluded)\<rparr>"

definition upsert_exec :: "job \<Rightarrow> (string, job_row) gomap \<Rightarrow> (string, job_row) gomap" where
  "upsert_exec j tbl =
     (let key = KeyFor (job_Epoch j) (job_Queue j) (job_ID j)
      in AList.update key
           (case map_of tbl key of None \<Rightarrow> sql_values j | Some r \<Rightarrow> upsert_set r (sql_values j)) tbl)"

text \<open>\<open>BeginTx\<close>, \<open>Prepare\<close>, one execution per record, \<open>Commit\<close>.\<close>

definition in_tx ::
    "driver \<Rightarrow> string \<Rightarrow> ('x \<Rightarrow> 't \<Rightarrow> 't) \<Rightarrow> 'x list \<Rightarrow> 't \<Rightarrow> string + 't" where
  "in_tx dr what f xs tbl =
     (case dr_begin dr of
        Some e \<Rightarrow> Inl (what @ e)
      | None \<Rightarrow>
          (case dr_prepare dr of
             Some e \<Rightarrow> Inl (what @ e)
           | None \<Rightarrow>
               (case exec_each (dr_exec dr) 0 f xs tbl of
                  Inl e \<Rightarrow> Inl (what @ e)
                | Inr tbl' \<Rightarrow> (case dr_commit dr of Some e \<Rightarrow> Inl e | None \<Rightarrow> Inr tbl'))))"

definition sql_UpsertJobs :: "sql_dialect \<Rightarrow> driver \<Rightarrow> sql_db \<Rightarrow> job list \<Rightarrow> string option \<times> sql_db" where
  "sql_UpsertJobs d dr db jobs =
     (if length jobs = 0 then (None, db)
      else case in_tx dr (dl_name d @ '': upsert jobs: '') upsert_exec jobs (db_jobs db) of
             Inl e \<Rightarrow> (Some e, db)
           | Inr tbl \<Rightarrow> (None, db\<lparr>db_jobs := tbl\<rparr>))"

subsection \<open>Saving attempts\<close>

definition att_values :: "attempt \<Rightarrow> att_row" where
  "att_values a =
     \<lparr>ar_job_id = att_JobID a, ar_state = att_State a, ar_err = att_Err a,
      ar_finished_at = unix (att_FinishedAt a)\<rparr>"

definition att_set :: "att_row \<Rightarrow> att_row \<Rightarrow> att_row" where
  "att_set attempts excluded =
     attempts\<lparr>
       ar_state := ar_state excluded,
       ar_err := (if ar_err excluded \<noteq> [] then ar_err excluded else ar_err attempts),
       ar_finished_at := (if ar_finished_at excluded \<noteq> 0 then ar_finished_at excluded
                          else ar_finished_at attempts)\<rparr>"

definition att_exec :: "attempt \<Rightarrow> (att_key, att_row) gomap \<Rightarrow> (att_key, att_row) gomap" where
  "att_exec a tbl =
     (let key = (KeyFor (att_Epoch a) (att_Queue a) (att_JobID a), att_Attempt a, unix (att_StartedAt a))
      in AList.update key
           (case map_of tbl key of None \<Rightarrow> att_values a | Some r \<Rightarrow> att_set r (att_values a)) tbl)"

definition sql_SaveAttempts ::
    "sql_dialect \<Rightarrow> driver \<Rightarrow> sql_db \<Rightarrow> attempt list \<Rightarrow> string option \<times> sql_db" where
  "sql_SaveAttempts d dr db attempts =
     (if length attempts = 0 then (None, db)
      else case in_tx dr (dl_name d @ '': save attempts: '') att_exec attempts (db_attempts db) of
             Inl e \<Rightarrow> (Some e, db)
           | Inr tbl \<Rightarrow> (None, db\<lparr>db_attempts := tbl\<rparr>))"

subsection \<open>Heartbeats, reconciliation, pruning\<close>

definition sql_Heartbeat ::
    "sql_dialect \<Rightarrow> driver \<Rightarrow> sql_db \<Rightarrow> string \<Rightarrow> gotime \<Rightarrow> string option \<times> sql_db" where
  "sql_Heartbeat d dr db epoch seenAt =
     (case dr_exec dr 0 of
        Some e \<Rightarrow> (Some (dl_name d @ '': heartbeat: '' @ e), db)
      | None \<Rightarrow> (None, db\<lparr>db_epochs := AList.update epoch (unix seenAt) (db_epochs db)\<rparr>))"

definition alive_epochs :: "sql_db \<Rightarrow> int \<Rightarrow> string list" where
  "alive_epochs db cutoff =
     map fst (filter (\<lambda>(_, seen_at). seen_at > 0 \<and> seen_at \<ge> cutoff) (db_epochs db))"

definition orphan_row :: "sql_db \<Rightarrow> string \<Rightarrow> int \<Rightarrow> job_row \<Rightarrow> bool" where
  "orphan_row db epoch cutoff r \<longleftrightarrow>
     jr_epoch r \<noteq> epoch \<and> jr_state_rank r < 3 \<and> jr_epoch r \<notin> set (alive_epochs db cutoff)"

text \<open>
  One \<open>UPDATE\<close>. When \<open>RowsAffected\<close> fails after it, the update has been made all the same.
\<close>

definition sql_ReconcileEpoch ::
    "sql_dialect \<Rightarrow> driver \<Rightarrow> gotime \<Rightarrow> sql_db \<Rightarrow> string \<Rightarrow> duration \<Rightarrow> (string + nat) \<times> sql_db" where
  "sql_ReconcileEpoch d dr now db epoch staleAfter =
     (let cutoff = unix (time_Add now (- staleAfter));
          what = dl_name d @ '': reconcile epoch: ''
      in case dr_exec dr 0 of
           Some e \<Rightarrow> (Inl (what @ e), db)
         | None \<Rightarrow>
             (let hit = (\<lambda>(k, r). orphan_row db epoch cutoff r);
                  db' = db\<lparr>db_jobs := map (\<lambda>(k, r). (k, if orphan_row db epoch cutoff r
                                                        then r\<lparr>jr_state := StateInterrupted, jr_state_rank := 3\<rparr>
                                                        else r)) (db_jobs db)\<rparr>
              in case dr_rows dr of
                   Some e \<Rightarrow> (Inl (what @ e), db')
                 | None \<Rightarrow> (Inr (length (filter hit (db_jobs db))), db')))"

definition row_active :: "job_row \<Rightarrow> int" where
  "row_active r = max (jr_finished_at r) (jr_enqueued_at r)"

definition prune_row :: "int \<Rightarrow> State list \<Rightarrow> job_row \<Rightarrow> bool" where
  "prune_row cutoff states r \<longleftrightarrow>
     jr_state_rank r = 3 \<and> row_active r < cutoff \<and> (length states > 0 \<longrightarrow> jr_state r \<in> set states)"

definition sql_Prune ::
    "sql_dialect \<Rightarrow> driver \<Rightarrow> sql_db \<Rightarrow> gotime \<Rightarrow> State list \<Rightarrow> (string + nat) \<times> sql_db" where
  "sql_Prune d dr db before states =
     (let cutoff = unix before;
          what = dl_name d @ '': prune: '';
          doomed = map fst (filter (\<lambda>(_, r). prune_row cutoff states r) (db_jobs db));
          db' = db\<lparr>db_attempts := filter (\<lambda>((job_key, _), _). job_key \<notin> set doomed) (db_attempts db),
                   db_jobs := filter (\<lambda>(_, r). \<not> prune_row cutoff states r) (db_jobs db)\<rparr>
      in if cutoff = 0 then (Inr 0, db)
         else case dr_begin dr of
           Some e \<Rightarrow> (Inl (what @ e), db)
         | None \<Rightarrow>
             (case dr_exec dr 0 of
                Some e \<Rightarrow> (Inl (dl_name d @ '': prune attempts: '' @ e), db)
              | None \<Rightarrow>
                  (case dr_exec dr 1 of
                     Some e \<Rightarrow> (Inl (dl_name d @ '': prune jobs: '' @ e), db)
                   | None \<Rightarrow>
                       (case dr_rows dr of
                          Some e \<Rightarrow> (Inl (what @ e), db)
                        | None \<Rightarrow>
                            (case dr_commit dr of
                               Some e \<Rightarrow> (Inl (what @ e), db)
                             | None \<Rightarrow> (Inr (length doomed), db'))))))"

end
