(* ===== verification/Sql_Query.thy ===== *)
theory Sql_Query
  imports Sql_Store
begin

text \<open>
  The queries of the SQL backends. \<open>predicate\<close> is the condition its \<open>WHERE\<close> clause states of a
  row. \<open>ORDER BY\<close> is a stable sort. The rows of a table come in table order, to which
  \<open>rowid\<close> and \<open>seq\<close> refer; the rows a \<open>GROUP BY\<close> makes come in an order that SQL leaves open and
  the dialect picks (\<open>dl_groups\<close>, \<open>dl_keys\<close>), so groups the clause does not tell apart come in
  any order. Attempts of one job that started at the same time keep table order.
\<close>

subsection \<open>Rows to jobs\<close>

definition read_attributes :: "sql_dialect \<Rightarrow> job_row \<Rightarrow> (string, string) gomap" where
  "read_attributes d r = (if jr_attributes r = [] then [] else dl_json d (jr_attributes r))"

definition scanJob :: "sql_dialect \<Rightarrow> string \<Rightarrow> job_row \<Rightarrow> job" where
  "scanJob d key r =
     \<lparr>job_Key = key, job_ID = jr_id r, job_Epoch = jr_epoch r, job_Queue = jr_queue r,
      job_Name = jr_name r, job_State = jr_state r, job_Err = jr_err r, job_Pattern = jr_pattern r,
      job_RootID = jr_root_id r, job_Parent = jr_parent_id r, job_Attributes = read_attributes d r,
      job_EnqueuedAt = fromUnix (jr_enqueued_at r), job_StartedAt = fromUnix (jr_started_at r),
      job_FinishedAt = fromUnix (jr_finished_at r), job_WaitUS = jr_wait_us r,
      job_ExecUS = jr_exec_us r, job_Attempt = jr_attempt r,
      job_ProgressCompleted = jr_pg_done r, job_ProgressTotal = jr_pg_total r,
      job_ProgressStage = jr_pg_stage r, job_ProgressAt = fromUnix (jr_pg_at r)\<rparr>"

abbreviation scan :: "sql_dialect \<Rightarrow> string \<times> job_row \<Rightarrow> job" where
  "scan d \<equiv> \<lambda>(k, r). scanJob d k r"

text \<open>A query: the call, reading the rows, the final \<open>rows.Err\<close>.\<close>

definition sql_query :: "driver \<Rightarrow> string \<Rightarrow> 'a \<Rightarrow> sql_error + 'a" where
  "sql_query dr what result =
     (case dr_exec dr 0 of
        Some e \<Rightarrow> Inl (DriverErr (what @ e))
      | None \<Rightarrow> (case dr_rows dr of Some e \<Rightarrow> Inl (DriverErr e) | None \<Rightarrow> Inr result))"

subsection \<open>Filters\<close>

definition predicate :: "sql_dialect \<Rightarrow> go_unicode \<Rightarrow> job_filter \<Rightarrow> job_row \<Rightarrow> bool" where
  "predicate d uc f r \<longleftrightarrow>
     (f_Queue f \<noteq> [] \<longrightarrow> jr_queue r = f_Queue f) \<and>
     (f_Name f \<noteq> [] \<longrightarrow> jr_name r = f_Name f) \<and>
     (\<not> IsZero (f_Before f) \<longrightarrow> jr_enqueued_at r \<le> unix (f_Before f)) \<and>
     (f_Pattern f \<noteq> [] \<longrightarrow> jr_pattern r = f_Pattern f) \<and>
     (length (f_States f) > 0 \<longrightarrow> jr_state r \<in> set (f_States f)) \<and>
     list_all (\<lambda>term. let like = ''%'' @ term @ ''%'' in dl_like d like (jr_id r) \<or> dl_like d like (jr_name r))
       (Fields uc (f_Search f)) \<and>
     (f_AttrKey f \<noteq> [] \<longrightarrow>
        (if f_AttrValue f = [] then dl_attr d (read_attributes d r) (f_AttrKey f) \<noteq> None
         else dl_attr d (read_attributes d r) (f_AttrKey f) = Some (f_AttrValue f)))"

definition sql_matching ::
    "sql_dialect \<Rightarrow> go_unicode \<Rightarrow> sql_db \<Rightarrow> job_filter \<Rightarrow> (string \<times> job_row) list" where
  "sql_matching d uc db f = filter (\<lambda>(_, r). predicate d uc f r) (db_jobs db)"

text \<open>\<open>ORDER BY enqueued_at DESC, rowid DESC\<close>: the rows from the last to the first, newest first.\<close>

definition row_newer :: "string \<times> job_row \<Rightarrow> string \<times> job_row \<Rightarrow> bool" where
  "row_newer a b \<longleftrightarrow> jr_enqueued_at (snd a) > jr_enqueued_at (snd b)"

text \<open>A negative \<open>OFFSET\<close> skips nothing in SQLite and is an error in Postgres, reported by the driver.\<close>

definition sql_Jobs ::
    "sql_dialect \<Rightarrow> go_unicode \<Rightarrow> driver \<Rightarrow> sql_db \<Rightarrow> job_filter \<Rightarrow> sql_error + job list" where
  "sql_Jobs d uc dr db f =
     (let limit = clamp_limit 500 100 (f_Limit f);
          found = sort_slice row_newer (rev (sql_matching d uc db f))
      in sql_query dr (dl_name d @ '': jobs: '')
           (map (scan d) (take (nat limit) (drop (nat (f_Offset f)) found))))"

definition sql_CountJobs ::
    "sql_dialect \<Rightarrow> go_unicode \<Rightarrow> driver \<Rightarrow> sql_db \<Rightarrow> job_filter \<Rightarrow> sql_error + nat" where
  "sql_CountJobs d uc dr db f =
     (case dr_exec dr 0 of
        Some e \<Rightarrow> Inl (DriverErr (dl_name d @ '': count jobs: '' @ e))
      | None \<Rightarrow> Inr (length (sql_matching d uc db f)))"

subsection \<open>One job, a lineage, tallies\<close>

definition att_started :: "att_key \<times> att_row \<Rightarrow> int" where
  "att_started e = snd (snd (fst e))"

definition scan_attempt :: "string \<Rightarrow> att_key \<times> att_row \<Rightarrow> attempt" where
  "scan_attempt epoch e =
     (case e of ((_, n, started_at), r) \<Rightarrow>
        zero_attempt\<lparr>att_JobID := ar_job_id r, att_Attempt := n, att_Err := ar_err r, att_Epoch := epoch,
                     att_State := ar_state r, att_StartedAt := fromUnix started_at,
                     att_FinishedAt := fromUnix (ar_finished_at r)\<rparr>)"

definition sql_Job ::
    "sql_dialect \<Rightarrow> driver \<Rightarrow> sql_db \<Rightarrow> string \<Rightarrow> sql_error + (job \<times> attempt list)" where
  "sql_Job d dr db key =
     (case dr_exec dr 0 of
        Some e \<Rightarrow> Inl (DriverErr (dl_name d @ '': scan job: '' @ e))
      | None \<Rightarrow>
          (case map_of (db_jobs db) key of
             None \<Rightarrow> Inl (NoRows (dl_name d @ '': scan job: ''))
           | Some r \<Rightarrow>
               (case dr_exec dr 1 of
                  Some e \<Rightarrow> Inl (DriverErr (dl_name d @ '': job attempts: '' @ e))
                | None \<Rightarrow>
                    (let rows = sort_slice (\<lambda>a b. att_started a < att_started b)
                                  (filter (\<lambda>((job_key, _), _). job_key = key) (db_attempts db))
                     in case dr_rows dr of
                          Some e \<Rightarrow> Inl (DriverErr e)
                        | None \<Rightarrow> Inr (scanJob d key r, map (scan_attempt (jr_epoch r)) rows)))))"

definition row_older :: "string \<times> job_row \<Rightarrow> string \<times> job_row \<Rightarrow> bool" where
  "row_older a b \<longleftrightarrow> jr_enqueued_at (snd a) < jr_enqueued_at (snd b)"

definition lineage_row :: "string \<Rightarrow> string \<Rightarrow> string \<Rightarrow> job_row \<Rightarrow> bool" where
  "lineage_row epoch queue rootID r \<longleftrightarrow>
     jr_epoch r = epoch \<and> jr_queue r = queue \<and> (jr_root_id r = rootID \<or> jr_id r = rootID)"

definition sql_Lineage ::
    "sql_dialect \<Rightarrow> driver \<Rightarrow> sql_db \<Rightarrow> string \<Rightarrow> string \<Rightarrow> string \<Rightarrow> sql_error + job list" where
  "sql_Lineage d dr db epoch queue rootID =
     sql_query dr (dl_name d @ '': lineage: '')
       (map (scan d) (sort_slice row_older
          (filter (\<lambda>(_, r). lineage_row epoch queue rootID r) (db_jobs db))))"

definition sql_Counts :: "sql_dialect \<Rightarrow> driver \<Rightarrow> sql_db \<Rightarrow> sql_error + Counts" where
  "sql_Counts d dr db =
     sql_query dr (dl_name d @ '': counts: '')
       (fold tally_incr (map (\<lambda>(_, r). jr_state r) (db_jobs db)) [])"

subsection \<open>Groups\<close>

definition family_of :: "job_row \<Rightarrow> string" where
  "family_of r = (if jr_pattern r \<noteq> [] then jr_pattern r else ''(unnamed)'')"

definition group_keys :: "(string \<times> job_row) list \<Rightarrow> group_key list" where
  "group_keys rows = rev (remdups (rev (map (\<lambda>(_, r). (family_of r, jr_state r, jr_err r)) rows)))"

definition aggregate :: "(string \<times> job_row) list \<Rightarrow> group_key \<Rightarrow> group_row" where
  "aggregate rows k =
     (let members = filter (\<lambda>(_, r). (family_of r, jr_state r, jr_err r) = k) rows
      in \<lparr>gr_family = fst k, gr_state = fst (snd k), gr_err = snd (snd k), gr_total = length members,
          gr_last_seen = Max (set (map (\<lambda>(_, r). row_active r) members))\<rparr>)"

text \<open>\<open>ORDER BY total DESC, last_seen DESC\<close>.\<close>

definition group_row_before :: "group_row \<Rightarrow> group_row \<Rightarrow> bool" where
  "group_row_before a b =
     (if gr_total a = gr_total b then gr_last_seen a > gr_last_seen b else gr_total a > gr_total b)"

definition scan_group :: "group_row \<Rightarrow> group" where
  "scan_group g =
     \<lparr>grp_Pattern = gr_family g, grp_State = gr_state g, grp_Err = gr_err g, grp_Count = gr_total g,
      grp_LastSeen = fromUnix (gr_last_seen g)\<rparr>"

definition sql_GroupJobs ::
    "sql_dialect \<Rightarrow> go_unicode \<Rightarrow> driver \<Rightarrow> sql_db \<Rightarrow> job_filter \<Rightarrow> int \<Rightarrow> sql_error + group list" where
  "sql_GroupJobs d uc dr db f limit =
     (let limit = clamp_limit 200 50 limit;
          rows = sql_matching d uc db f
      in sql_query dr (dl_name d @ '': group jobs: '')
           (map scan_group (take (nat limit)
              (sort_slice group_row_before (range_order (dl_groups d) (map (aggregate rows) (group_keys rows)))))))"

subsection \<open>Timeline\<close>

definition timeline_rows :: "sql_db \<Rightarrow> int \<Rightarrow> job_row list" where
  "timeline_rows db start =
     filter (\<lambda>r. jr_state_rank r = 3 \<and> row_active r \<ge> start) (map snd (db_jobs db))"

definition slot_bucket :: "job_row list \<Rightarrow> int \<Rightarrow> int \<Rightarrow> bucket" where
  "slot_bucket rows width n =
     (let members = filter (\<lambda>r. row_active r sdiv width = n) rows
      in \<lparr>bkt_Start = fromUnix (int64 (n * width)),
          bkt_Completed = length (filter (\<lambda>r. jr_state r = ''completed'') members),
          bkt_Failed = length (filter (\<lambda>r. jr_state r \<in> set FailureStates) members)\<rparr>)"

text \<open>
  A bucket below a microsecond has width zero: the database divides by it on every row it
  finds, which fails in Postgres and yields a \<open>NULL\<close> the scan refuses in SQLite, and with no
  row the code divides by it itself.
\<close>

definition sql_Timeline ::
    "sql_dialect \<Rightarrow> driver \<Rightarrow> gotime \<Rightarrow> gotime \<Rightarrow> sql_db \<Rightarrow> gotime \<Rightarrow> duration \<Rightarrow> sql_error + bucket list" where
  "sql_Timeline d dr now now' db since bucket =
     (let bucket = (if bucket \<le> 0 then Minute else bucket)
      in if time_Sub now since sdiv bucket > maxBuckets then Inl BucketLimit
         else let width = Microseconds bucket;
                  start = unix since
              in if start = 0 then Inr []
                 else let rows = timeline_rows db start
                      in case sql_query dr (dl_name d @ '': timeline: '') () of
                           Inl e \<Rightarrow> Inl e
                         | Inr _ \<Rightarrow>
                             if width = 0 then
                               (if rows = [] then Inl (SqlPanic DivideByZero)
                                else Inl (DriverErr (dl_name d @ '': timeline: '')))
                             else let first = start sdiv width;
                                      last = unix now' sdiv width;
                                      slots = map (\<lambda>r. row_active r sdiv width) rows
                                  in if last - first + 1 < 0 then Inl (SqlPanic MakeSliceCap)
                                     else Inr (map (\<lambda>n.
                                            if n \<in> set slots then slot_bucket rows width n
                                            else \<lparr>bkt_Start = fromUnix (int64 (n * width)),
                                                  bkt_Completed = 0, bkt_Failed = 0\<rparr>) [first..last]))"

subsection \<open>Attribute keys\<close>

definition row_attr_tally :: "sql_dialect \<Rightarrow> sql_db \<Rightarrow> (string, nat) gomap" where
  "row_attr_tally d db =
     fold (\<lambda>r. fold tally_incr (map fst (read_attributes d r)))
       (filter (\<lambda>r. jr_attributes r \<noteq> []) (map snd (db_jobs db))) []"

definition sql_AttributeKeys :: "sql_dialect \<Rightarrow> driver \<Rightarrow> sql_db \<Rightarrow> int \<Rightarrow> sql_error + string list" where
  "sql_AttributeKeys d dr db limit =
     (let limit = clamp_limit 50 20 limit;
          tally = row_attr_tally d db
      in sql_query dr (dl_name d @ '': attribute keys: '')
           (map fst (take (nat limit) (sort_slice (\<lambda>a b. snd a > snd b) (range_order (dl_keys d) tally)))))"

end
