(* ===== verification/Sql_Laws.thy ===== *)
theory Sql_Laws
  imports Sql_Query
begin

text \<open>
  The SQL backends refine the in-memory store. A database stands for the in-memory store
  holding the same rows; every write the driver lets through is the write of the in-memory
  store on the record as the database keeps it, with its times cut to microseconds; and a
  write that reports an error leaves the tables as they were.
\<close>

subsection \<open>Times in a column\<close>

text \<open>
  The instants a column can hold: unset, or from 1970 on. Zero means unset, so the first
  microsecond of 1970 is lost as well.
\<close>

definition time_ok :: "gotime \<Rightarrow> bool" where
  "time_ok t \<longleftrightarrow> t = zeroTime \<or> (0 \<le> t \<and> t div 1000 \<le> maxInt64)"

definition canon_time :: "gotime \<Rightarrow> gotime" where
  "canon_time t = fromUnix (unix t)"

lemma unix_nonneg: "time_ok t \<Longrightarrow> 0 \<le> unix t"
  by (auto simp: time_ok_def unix_def UnixMicro_def int64_id IsZero_def)

lemma unix_eq: "0 \<le> t \<Longrightarrow> t div 1000 \<le> maxInt64 \<Longrightarrow> unix t = t div 1000"
  by (simp add: unix_def UnixMicro_def int64_id)

lemma zeroTime_neg: "zeroTime < 0"
  by (simp add: zeroTime_def)

lemma fromUnix_order:
  assumes "0 \<le> a" "0 \<le> b"
  shows "fromUnix a < fromUnix b \<longleftrightarrow> a < b" "fromUnix a \<le> fromUnix b \<longleftrightarrow> a \<le> b"
    "fromUnix a = fromUnix b \<longleftrightarrow> a = b"
  using assms zeroTime_neg by (auto simp: fromUnix_def time_UnixMicro_def)

lemma fromUnix_zero [simp]: "0 \<le> a \<Longrightarrow> fromUnix a = zeroTime \<longleftrightarrow> a = 0"
  using zeroTime_neg by (auto simp: fromUnix_def time_UnixMicro_def)

lemma fromUnix_max: "0 \<le> a \<Longrightarrow> 0 \<le> b \<Longrightarrow> max (fromUnix a) (fromUnix b) = fromUnix (max a b)"
  by (simp add: max_def fromUnix_order)

text \<open>Writing a time and reading it back keeps it, to the microsecond.\<close>

lemma canon_time_nearest:
  assumes "1000 \<le> t" "t div 1000 \<le> maxInt64"
  shows "canon_time t \<le> t \<and> t < canon_time t + Microsecond"
proof -
  have "t div 1000 \<noteq> 0" using assms(1) by simp
  then show ?thesis
    using assms by (simp add: canon_time_def unix_eq fromUnix_def time_UnixMicro_def) linarith
qed

subsection \<open>The store a database stands for\<close>

definition row_job :: "string \<Rightarrow> job_row \<Rightarrow> job" where
  "row_job key r =
     \<lparr>job_Key = key, job_ID = jr_id r, job_Epoch = jr_epoch r, job_Queue = jr_queue r,
      job_Name = jr_name r, job_State = jr_state r, job_Err = jr_err r, job_Pattern = jr_pattern r,
      job_RootID = jr_root_id r, job_Parent = jr_parent_id r, job_Attributes = jr_attributes r,
      job_EnqueuedAt = fromUnix (jr_enqueued_at r), job_StartedAt = fromUnix (jr_started_at r),
      job_FinishedAt = fromUnix (jr_finished_at r), job_WaitUS = jr_wait_us r,
      job_ExecUS = jr_exec_us r, job_Attempt = jr_attempt r,
      job_ProgressCompleted = jr_pg_done r, job_ProgressTotal = jr_pg_total r,
      job_ProgressStage = jr_pg_stage r, job_ProgressAt = fromUnix (jr_pg_at r)\<rparr>"

definition abs_jobs :: "(string, job_row) gomap \<Rightarrow> (string, job) gomap" where
  "abs_jobs tbl = map (\<lambda>(k, r). (k, row_job k r)) tbl"

definition abs_epochs :: "(string, int) gomap \<Rightarrow> (string, gotime) gomap" where
  "abs_epochs tbl = map (\<lambda>(k, v). (k, fromUnix v)) tbl"

text \<open>A record as the database keeps it.\<close>

definition canon_job :: "job \<Rightarrow> job" where
  "canon_job j =
     j\<lparr>job_EnqueuedAt := canon_time (job_EnqueuedAt j), job_StartedAt := canon_time (job_StartedAt j),
       job_FinishedAt := canon_time (job_FinishedAt j), job_ProgressAt := canon_time (job_ProgressAt j)\<rparr>"

definition job_ok :: "job \<Rightarrow> bool" where
  "job_ok j \<longleftrightarrow> time_ok (job_EnqueuedAt j) \<and> time_ok (job_StartedAt j) \<and>
     time_ok (job_FinishedAt j) \<and> time_ok (job_ProgressAt j)"

definition row_ok :: "string \<times> job_row \<Rightarrow> bool" where
  "row_ok = (\<lambda>(k, r). jr_state_rank r = int (Rank (jr_state r)) \<and>
     jr_pattern r = NormalizeName (jr_name r) \<and>
     0 \<le> jr_enqueued_at r \<and> 0 \<le> jr_started_at r \<and> 0 \<le> jr_finished_at r \<and> 0 \<le> jr_pg_at r)"

lemma map_of_abs_jobs: "map_of (abs_jobs tbl) k = map_option (row_job k) (map_of tbl k)"
  by (simp add: abs_jobs_def map_of_map_values)

lemma update_map_values:
  "map (\<lambda>(k, v). (k, f k v)) (AList.update k v m) = AList.update k (f k v) (map (\<lambda>(k, v). (k, f k v)) m)"
  by (induction m) auto

lemma abs_jobs_update: "abs_jobs (AList.update k r tbl) = AList.update k (row_job k r) (abs_jobs tbl)"
  by (simp add: abs_jobs_def update_map_values)

lemma row_job_values: "row_job (record_key j) (sql_values j) = stamped (canon_job j)"
  by (simp add: row_job_def sql_values_def stamped_def canon_job_def canon_time_def record_key_def)

text \<open>The \<open>SET\<close> clauses of the upsert are the guards of \<open>merge\<close>.\<close>

lemma upsert_set_merge:
  assumes "row_ok (k, r)" "row_ok (k, x)"
  shows "row_job k (upsert_set r x) = merge (row_job k r) (row_job k x)"
  using assms
  by (intro job.equality)
    (simp_all add: row_ok_def row_job_def upsert_set_def merge_def IsZero_def After_def fromUnix_order
      max_def)

lemma row_ok_values: "job_ok j \<Longrightarrow> row_ok (k, sql_values j)"
  by (simp add: row_ok_def sql_values_def job_ok_def unix_nonneg)

lemma row_ok_set: "row_ok (k, r) \<Longrightarrow> row_ok (k, x) \<Longrightarrow> row_ok (k, upsert_set r x)"
  by (auto simp: row_ok_def upsert_set_def max_def)

lemma upsert_exec_simulates:
  assumes "list_all row_ok tbl" "job_ok j"
  shows "abs_jobs (upsert_exec j tbl) = upsert_job (canon_job j) (abs_jobs tbl)"
    and "list_all row_ok (upsert_exec j tbl)"
proof -
  let ?k = "record_key j"
  have key: "record_key (canon_job j) = ?k" by (simp add: record_key_def canon_job_def)
  note exec = upsert_exec_def [of j tbl, folded record_key_def, unfolded Let_def]
  have ok: "row_ok (?k, sql_values j)" using assms(2) by (rule row_ok_values)
  show "abs_jobs (upsert_exec j tbl) = upsert_job (canon_job j) (abs_jobs tbl)"
  proof (cases "map_of tbl ?k")
    case None
    then show ?thesis
      by (simp add: exec upsert_job_alt abs_jobs_update map_of_abs_jobs key absorb_def row_job_values)
  next
    case (Some r)
    then have "row_ok (?k, r)" using assms(1) by (rule list_all_lookup [rotated])
    with Some ok show ?thesis
      by (simp add: exec upsert_job_alt abs_jobs_update map_of_abs_jobs key absorb_def row_job_values
          upsert_set_merge)
  qed
  show "list_all row_ok (upsert_exec j tbl)"
    unfolding exec using assms(1) ok
    by (intro list_all_update) (auto split: option.split intro: row_ok_set dest: list_all_lookup)
qed

lemma fold_upsert_simulates:
  assumes "list_all row_ok tbl" "list_all job_ok js"
  shows "abs_jobs (fold upsert_exec js tbl) = fold upsert_job (map canon_job js) (abs_jobs tbl) \<and>
         list_all row_ok (fold upsert_exec js tbl)"
  using assms by (induction js arbitrary: tbl) (simp_all add: upsert_exec_simulates)

subsection \<open>Attempts\<close>

text \<open>
  The table of attempts has no column for the epoch and the queue of an attempt, and keeps
  the job ID of the record that came first. \<open>id_of\<close> is the job ID behind a row key: where the
  epoch and queue names are free of colons, the key determines it.
\<close>

definition canon_att :: "attempt \<Rightarrow> attempt" where
  "canon_att a =
     a\<lparr>att_StartedAt := canon_time (att_StartedAt a), att_FinishedAt := canon_time (att_FinishedAt a)\<rparr>"

definition unscoped :: "attempt \<Rightarrow> attempt" where
  "unscoped a = a\<lparr>att_Epoch := [], att_Queue := []\<rparr>"

definition att_ok :: "(string \<Rightarrow> string) \<Rightarrow> attempt \<Rightarrow> bool" where
  "att_ok id_of a \<longleftrightarrow> time_ok (att_StartedAt a) \<and> time_ok (att_FinishedAt a) \<and>
     att_JobID a = id_of (attempt_key a)"

definition att_row_ok :: "(string \<Rightarrow> string) \<Rightarrow> att_key \<times> att_row \<Rightarrow> bool" where
  "att_row_ok id_of = (\<lambda>((job_key, n, started_at), r).
     0 \<le> started_at \<and> 0 \<le> ar_finished_at r \<and> ar_job_id r = id_of job_key)"

definition tries_in :: "(att_key, att_row) gomap \<Rightarrow> string \<Rightarrow> attempt list" where
  "tries_in tbl k = map (scan_attempt []) (filter (\<lambda>((job_key, _), _). job_key = k) tbl)"

abbreviation att_key_of :: "attempt \<Rightarrow> att_key" where
  "att_key_of a \<equiv> (attempt_key a, att_Attempt a, unix (att_StartedAt a))"

lemma scan_att_values: "scan_attempt [] (att_key_of a, att_values a) = unscoped (canon_att a)"
  by (simp add: scan_attempt_def att_values_def unscoped_def canon_att_def canon_time_def zero_attempt_def)

lemma att_row_ok_values: "att_ok id_of a \<Longrightarrow> att_row_ok id_of (att_key_of a, att_values a)"
  by (simp add: att_ok_def att_row_ok_def att_values_def unix_nonneg)

lemma att_row_ok_set:
  "att_row_ok id_of (key, r) \<Longrightarrow> att_row_ok id_of (key, x) \<Longrightarrow> att_row_ok id_of (key, att_set r x)"
  by (auto simp: att_row_ok_def att_set_def)

lemma scan_att_set:
  assumes "att_row_ok id_of ((k, n, t), r)" "att_row_ok id_of ((k, n, t), x)"
  shows "scan_attempt [] ((k, n, t), att_set r x) =
     (scan_attempt [] ((k, n, t), x))
       \<lparr>att_Err := (if ar_err x = [] then ar_err r else ar_err x),
        att_FinishedAt := (if ar_finished_at x = 0 then fromUnix (ar_finished_at r)
                           else fromUnix (ar_finished_at x))\<rparr>"
  using assms by (simp add: scan_attempt_def att_set_def att_row_ok_def)

lemma tries_upsert:
  assumes "list_all (att_row_ok id_of) tbl" "att_row_ok id_of ((k, n, t), x)"
  shows "tries_in (AList.update (k, n, t)
           (case map_of tbl (k, n, t) of None \<Rightarrow> x | Some r \<Rightarrow> att_set r x) tbl) k =
         save_attempt_in (scan_attempt [] ((k, n, t), x)) (tries_in tbl k)"
  using assms(1)
proof (induction tbl)
  case Nil
  show ?case by (simp add: tries_in_def)
next
  case (Cons e tbl)
  obtain k' n' t' r where e: "e = ((k', n', t'), r)" by (metis surj_pair)
  have ok: "att_row_ok id_of ((k', n', t'), r)" using Cons.prems e by simp
  show ?case
  proof (cases "(k', n', t') = (k, n, t)")
    case True
    with ok have "att_row_ok id_of ((k, n, t), r)" by simp
    from scan_att_set [OF this assms(2)] True show ?thesis
      using assms(2) by (simp add: e tries_in_def scan_attempt_def att_row_ok_def IsZero_def)
  next
    case False
    moreover have "fromUnix t' = fromUnix t \<longleftrightarrow> t' = t"
      using ok assms(2) by (simp add: att_row_ok_def fromUnix_order)
    ultimately show ?thesis
      using Cons by (auto simp: e tries_in_def scan_attempt_def)
  qed
qed

lemma tries_upsert_other:
  "k' \<noteq> k \<Longrightarrow> tries_in (AList.update (k, n, t) x tbl) k' = tries_in tbl k'"
  by (induction tbl) (auto simp: tries_in_def)

lemma att_exec_simulates:
  assumes "list_all (att_row_ok id_of) tbl" "att_ok id_of a"
  shows "tries_in (att_exec a tbl) k =
           (if attempt_key a = k then save_attempt_in (unscoped (canon_att a)) (tries_in tbl k)
            else tries_in tbl k)"
    and "list_all (att_row_ok id_of) (att_exec a tbl)"
proof -
  note exec = att_exec_def [of a tbl, folded attempt_key_def, unfolded Let_def]
  have ok: "att_row_ok id_of (att_key_of a, att_values a)"
    using assms(2) by (rule att_row_ok_values)
  show "tries_in (att_exec a tbl) k =
      (if attempt_key a = k then save_attempt_in (unscoped (canon_att a)) (tries_in tbl k)
       else tries_in tbl k)"
    using tries_upsert [OF assms(1) ok]
    by (auto simp: exec scan_att_values tries_upsert_other)
  show "list_all (att_row_ok id_of) (att_exec a tbl)"
    unfolding exec using assms(1) ok
    by (intro list_all_update) (auto split: option.split intro: att_row_ok_set dest: list_all_lookup)
qed

lemma fold_att_simulates:
  assumes "list_all (att_row_ok id_of) tbl" "list_all (att_ok id_of) as"
  shows "tries_in (fold att_exec as tbl) k =
           fold save_attempt_in (map (unscoped \<circ> canon_att) (filter (\<lambda>a. attempt_key a = k) as)) (tries_in tbl k) \<and>
         list_all (att_row_ok id_of) (fold att_exec as tbl)"
  using assms by (induction as arbitrary: tbl) (simp_all add: att_exec_simulates)

text \<open>Dropping epoch and queue commutes with saving.\<close>

lemma unscoped_save: "map unscoped (save_attempt_in a as) = save_attempt_in (unscoped a) (map unscoped as)"
  by (induction as) (auto simp: unscoped_def)

lemma unscoped_fold_save:
  "map unscoped (fold save_attempt_in as xs) = fold save_attempt_in (map unscoped as) (map unscoped xs)"
  by (induction as arbitrary: xs) (simp_all add: unscoped_save)

end
