(* ===== verification/Sql_Refine.thy ===== *)
theory Sql_Refine
  imports Sql_Laws
begin

text \<open>
  The simulation between a SQL database and the in-memory store, operation by operation and
  along whole runs with failing drivers.
\<close>

definition db_ok :: "(string \<Rightarrow> string) \<Rightarrow> sql_db \<Rightarrow> bool" where
  "db_ok id_of db \<longleftrightarrow>
     wf_map (db_jobs db) \<and> wf_map (db_epochs db) \<and>
     list_all row_ok (db_jobs db) \<and> list_all (\<lambda>(_, seen_at). 0 \<le> seen_at) (db_epochs db) \<and>
     list_all (att_row_ok id_of) (db_attempts db)"

definition stands_for :: "sql_db \<Rightarrow> mem_store \<Rightarrow> bool" where
  "stands_for db s \<longleftrightarrow>
     ms_jobs s = abs_jobs (db_jobs db) \<and> ms_epochs s = abs_epochs (db_epochs db) \<and>
     (\<forall>k. map unscoped (attempts_at (ms_attempts s) k) = tries_in (db_attempts db) k)"

lemma db_ok_New: "db_ok id_of sql_New"
  by (simp add: db_ok_def sql_New_def)

lemma stands_for_New: "stands_for sql_New mem_Open"
  by (simp add: stands_for_def sql_New_def mem_Open_def abs_jobs_def abs_epochs_def attempts_at_def tries_in_def)

lemma keys_comp_values [simp]: "map (fst \<circ> (\<lambda>(k, v). (k, f k v))) m = map fst m"
  by (induction m) auto

lemma wf_abs [simp]: "wf_map (abs_jobs tbl) = wf_map tbl" "wf_map (abs_epochs es) = wf_map es"
  by (simp_all add: abs_jobs_def abs_epochs_def)

subsection \<open>Transactions\<close>

lemma exec_each_done: "exec_each answer i f xs tbl = Inr tbl' \<Longrightarrow> tbl' = fold f xs tbl"
  by (induction xs arbitrary: i tbl) (auto split: option.splits)

lemma in_tx_done: "in_tx dr what f xs tbl = Inr tbl' \<Longrightarrow> tbl' = fold f xs tbl"
  by (auto simp: in_tx_def split: option.splits sum.splits dest: exec_each_done)

subsection \<open>The writes\<close>

lemma Upsert_simulates:
  assumes "sql_UpsertJobs d dr db js = (None, db')" "db_ok id_of db" "stands_for db s" "list_all job_ok js"
  shows "db_ok id_of db' \<and> stands_for db' (mem_UpsertJobs s (map canon_job js))"
proof -
  have db': "db' = db\<lparr>db_jobs := fold upsert_exec js (db_jobs db)\<rparr>"
    using assms(1) by (auto simp: sql_UpsertJobs_def dest: in_tx_done split: if_splits sum.splits)
  have "wf_map (fold upsert_exec js (db_jobs db))"
    by (rule fold_invariant) (use assms(2) in \<open>simp_all add: db_ok_def upsert_exec_def Let_def\<close>)
  then show ?thesis
    using fold_upsert_simulates [OF _ assms(4), of "db_jobs db"] assms(2,3)
    by (simp add: db' db_ok_def stands_for_def mem_UpsertJobs_def)
qed

lemma SaveAttempts_simulates:
  assumes "sql_SaveAttempts d dr db as = (None, db')" "db_ok id_of db" "stands_for db s"
    and "list_all (att_ok id_of) as"
  shows "db_ok id_of db' \<and> stands_for db' (mem_SaveAttempts s (map canon_att as))"
proof -
  have db': "db' = db\<lparr>db_attempts := fold att_exec as (db_attempts db)\<rparr>"
    using assms(1) by (auto simp: sql_SaveAttempts_def dest: in_tx_done split: if_splits sum.splits)
  have keys: "filter (\<lambda>a. attempt_key a = k) (map canon_att as) =
      map canon_att (filter (\<lambda>a. attempt_key a = k) as)" for k
    by (simp add: filter_map o_def attempt_key_def canon_att_def)
  have sim: "tries_in (fold att_exec as (db_attempts db)) k =
      fold save_attempt_in (map (unscoped \<circ> canon_att) (filter (\<lambda>a. attempt_key a = k) as))
        (tries_in (db_attempts db) k)"
      "list_all (att_row_ok id_of) (fold att_exec as (db_attempts db))" for k
    using fold_att_simulates [OF _ assms(4), of "db_attempts db"] assms(2) by (auto simp: db_ok_def)
  show ?thesis
    using assms(2,3) sim
    by (simp add: db' db_ok_def stands_for_def mem_SaveAttempts_def attempts_at_fold unscoped_fold_save keys)
qed

lemma Heartbeat_simulates:
  assumes "sql_Heartbeat d dr db e t = (None, db')" "db_ok id_of db" "stands_for db s" "time_ok t"
  shows "db_ok id_of db' \<and> stands_for db' (mem_Heartbeat s e (canon_time t))"
proof -
  have db': "db' = db\<lparr>db_epochs := AList.update e (unix t) (db_epochs db)\<rparr>"
    using assms(1) by (auto simp: sql_Heartbeat_def split: option.splits)
  have "abs_epochs (AList.update e (unix t) (db_epochs db)) =
      AList.update e (canon_time t) (abs_epochs (db_epochs db))"
    by (simp add: abs_epochs_def update_map_values canon_time_def)
  then show ?thesis
    using assms(2-4) by (simp add: db' db_ok_def stands_for_def mem_Heartbeat_def list_all_update unix_nonneg)
qed

lemma alive_epochs_iff:
  assumes "db_ok id_of db" "0 \<le> cutoff"
  shows "e \<in> set (alive_epochs db cutoff) \<longleftrightarrow> still_beating (abs_epochs (db_epochs db)) (fromUnix cutoff) e"
proof -
  have "wf_map (db_epochs db)" using assms(1) by (simp add: db_ok_def)
  then have "e \<in> set (alive_epochs db cutoff) \<longleftrightarrow>
      (\<exists>v. map_of (db_epochs db) e = Some v \<and> 0 < v \<and> cutoff \<le> v)"
    unfolding alive_epochs_def by (force simp: map_of_eq_Some_iff)
  moreover have "0 \<le> v" if "map_of (db_epochs db) e = Some v" for v
    using that assms(1) list_all_lookup [of _ "db_epochs db" e v] by (auto simp: db_ok_def)
  ultimately show ?thesis
    using assms(2)
    by (auto simp: still_beating_def abs_epochs_def map_of_map_values IsZero_def Before_def fromUnix_order
        not_less split: option.splits)
qed

lemma orphan_row_iff:
  assumes "db_ok id_of db" "0 \<le> cutoff" "row_ok (k, r)"
  shows "orphan_row db epoch cutoff r \<longleftrightarrow>
         orphaned epoch (fromUnix cutoff) (abs_epochs (db_epochs db)) (row_job k r)"
  using assms(3) Rank_less_3 [of "jr_state r"]
  by (auto simp: orphan_row_def orphaned_def row_ok_def row_job_def alive_epochs_iff [OF assms(1,2)])

lemma Reconcile_simulates:
  assumes "sql_ReconcileEpoch d dr now db e dur = (Inr n, db')" "db_ok id_of db" "stands_for db s"
    and "time_ok (now - dur)"
  shows "db_ok id_of db' \<and> stands_for db' (fst (mem_ReconcileEpoch (canon_time (now - dur)) s e 0)) \<and>
         n = snd (mem_ReconcileEpoch (canon_time (now - dur)) s e 0)"
proof -
  let ?c = "unix (now - dur)"
  let ?set = "\<lambda>(k, r). (k, if orphan_row db e ?c r then r\<lparr>jr_state := StateInterrupted, jr_state_rank := 3\<rparr> else r)"
  have n: "n = length (filter (\<lambda>(k, r). orphan_row db e ?c r) (db_jobs db))"
    and db': "db' = db\<lparr>db_jobs := map ?set (db_jobs db)\<rparr>"
    using assms(1) by (auto simp: sql_ReconcileEpoch_def time_Add_def Let_def split: option.splits)
  have rows: "row_ok x" if "x \<in> set (db_jobs db)" for x
    using that assms(2) by (auto simp: db_ok_def list_all_iff)
  have hit: "orphan_row db e ?c r \<longleftrightarrow> orphaned e (fromUnix ?c) (abs_epochs (db_epochs db)) (row_job k r)"
    if "(k, r) \<in> set (db_jobs db)" for k r
    by (rule orphan_row_iff [OF assms(2) unix_nonneg [OF assms(4)] rows [OF that]])
  have "abs_jobs (map ?set (db_jobs db)) =
      map (\<lambda>(k, j). (k, interrupt e (fromUnix ?c) (abs_epochs (db_epochs db)) j)) (abs_jobs (db_jobs db))"
    unfolding abs_jobs_def using hit by (auto simp: interrupt_def) (auto simp: row_job_def)
  moreover have "length (filter (\<lambda>(k, j). orphaned e (fromUnix ?c) (abs_epochs (db_epochs db)) j)
      (abs_jobs (db_jobs db))) = n"
    unfolding n abs_jobs_def filter_map o_def length_map
    by (rule arg_cong [where f = length], rule filter_cong) (use hit in auto)
  moreover have "list_all row_ok (map ?set (db_jobs db))"
    using rows by (auto simp: list_all_iff row_ok_def)
  ultimately show ?thesis
    using assms(2,3) by (simp add: db' db_ok_def stands_for_def ReconcileEpoch_eq canon_time_def)
qed

lemma prune_row_iff:
  assumes "row_ok (k, r)" "0 \<le> cutoff"
  shows "prune_row cutoff states r \<longleftrightarrow> prunable (fromUnix cutoff) states (row_job k r)"
proof -
  have "jr_state_rank r = 3 \<longleftrightarrow> Terminal (jr_state r)"
    using assms(1) by (auto simp: row_ok_def Terminal_def)
  then show ?thesis
    using assms by (auto simp: prune_row_def prunable_def row_job_def row_ok_def row_active_def
        fromUnix_max fromUnix_order)
qed

lemma attempts_at_without:
  "attempts_at (filter (\<lambda>e. fst e \<notin> S) m) k = (if k \<in> S then [] else attempts_at m k)"
  by (induction m) (auto simp: attempts_at_def)

lemma tries_in_without:
  "tries_in (filter (\<lambda>((job_key, _), _). job_key \<notin> S) tbl) k = (if k \<in> S then [] else tries_in tbl k)"
  unfolding tries_in_def by (induction tbl) (auto split: if_splits)

lemma key_of_filter:
  assumes "wf_map m" "(k, v) \<in> set m"
  shows "k \<in> set (map fst (filter (\<lambda>(_, x). P x) m)) \<longleftrightarrow> P v"
  using assms by (induction m) (auto simp: image_iff)

lemma Prune_simulates:
  assumes "sql_Prune d dr db t sts = (Inr n, db')" "db_ok id_of db" "stands_for db s" "time_ok t"
  shows "db_ok id_of db' \<and> stands_for db' (fst (mem_Prune s (canon_time t) sts)) \<and>
         n = snd (mem_Prune s (canon_time t) sts)"
proof (cases "unix t = 0")
  case True
  then have "canon_time t = zeroTime" by (simp add: canon_time_def fromUnix_def)
  moreover have "n = 0" "db' = db" using assms(1) True by (auto simp: sql_Prune_def Let_def)
  ultimately show ?thesis using assms(2,3) by (simp add: mem_Prune_def IsZero_def)
next
  case False
  let ?c = "unix t"
  have c: "0 \<le> ?c" by (rule unix_nonneg [OF assms(4)])
  let ?gone = "map fst (filter (\<lambda>(_, r). prune_row ?c sts r) (db_jobs db))"
  have db': "db' = db\<lparr>db_attempts := filter (\<lambda>((job_key, _), _). job_key \<notin> set ?gone) (db_attempts db),
                      db_jobs := filter (\<lambda>(_, r). \<not> prune_row ?c sts r) (db_jobs db)\<rparr>"
    and n: "n = length ?gone"
    using assms(1) False by (auto simp: sql_Prune_def Let_def split: option.splits)
  have wf: "wf_map (db_jobs db)" using assms(2) by (simp add: db_ok_def)
  have rows: "row_ok x" if "x \<in> set (db_jobs db)" for x
    using that assms(2) by (auto simp: db_ok_def list_all_iff)
  have hit: "prune_row ?c sts r \<longleftrightarrow> prunable (canon_time t) sts (row_job k r)"
    if "(k, r) \<in> set (db_jobs db)" for k r
    unfolding canon_time_def by (rule prune_row_iff [OF rows [OF that] c])
  have pruned: "filter (\<lambda>(k, j). prunable (canon_time t) sts j) (abs_jobs (db_jobs db)) =
      abs_jobs (filter (\<lambda>(_, r). prune_row ?c sts r) (db_jobs db))"
    unfolding abs_jobs_def filter_map o_def
    by (rule arg_cong [where f = "map _"], rule filter_cong) (use hit in auto)
  have gone: "doomed (canon_time t) sts (abs_jobs (db_jobs db)) = set ?gone"
    unfolding doomed_def pruned by (simp add: abs_jobs_def image_image case_prod_unfold)
  have kept: "k \<notin> set ?gone \<longleftrightarrow> \<not> prune_row ?c sts r" if "(k, r) \<in> set (db_jobs db)" for k r
    using key_of_filter [OF wf that, of "prune_row ?c sts"] by simp
  have "filter (\<lambda>e. fst e \<notin> set ?gone) (abs_jobs (db_jobs db)) =
      abs_jobs (filter (\<lambda>(_, r). \<not> prune_row ?c sts r) (db_jobs db))"
    unfolding abs_jobs_def filter_map o_def
    by (rule arg_cong [where f = "map _"], rule filter_cong)
      (use kept in \<open>auto simp del: set_map set_filter\<close>)
  moreover have "length (filter (\<lambda>(k, j). prunable (canon_time t) sts j) (abs_jobs (db_jobs db))) = n"
    unfolding pruned n by (simp add: abs_jobs_def)
  moreover have "map unscoped (attempts_at (filter (\<lambda>e. fst e \<notin> set ?gone) (ms_attempts s)) k) =
      tries_in (filter (\<lambda>((job_key, _), _). job_key \<notin> set ?gone) (db_attempts db)) k" for k
    using assms(3) by (simp add: attempts_at_without tries_in_without stands_for_def del: set_map)
  moreover have "\<not> IsZero (canon_time t)"
    using False c by (simp add: canon_time_def IsZero_def)
  ultimately show ?thesis
    using assms(2,3) by (auto simp: db' db_ok_def stands_for_def Prune_eq gone list_all_iff)
qed

subsection \<open>Runs\<close>

text \<open>An operation against a database: the error it reports, if any, and the tables after it.\<close>

definition failure :: "string + 'a \<Rightarrow> string option" where
  "failure r = (case r of Inl e \<Rightarrow> Some e | Inr _ \<Rightarrow> None)"

fun sql_do :: "sql_dialect \<Rightarrow> driver \<Rightarrow> store_op \<Rightarrow> sql_db \<Rightarrow> string option \<times> sql_db" where
  "sql_do d dr (OpUpsert js) db = sql_UpsertJobs d dr db js"
| "sql_do d dr (OpAttempts as) db = sql_SaveAttempts d dr db as"
| "sql_do d dr (OpHeartbeat e t) db = sql_Heartbeat d dr db e t"
| "sql_do d dr (OpReconcile now e dur) db = map_prod failure id (sql_ReconcileEpoch d dr now db e dur)"
| "sql_do d dr (OpPrune t sts) db = map_prod failure id (sql_Prune d dr db t sts)"

text \<open>The operations of a run that reported success, and the database after the run.\<close>

fun sql_run :: "sql_dialect \<Rightarrow> (driver \<times> store_op) list \<Rightarrow> sql_db \<Rightarrow> store_op list \<times> sql_db" where
  "sql_run d [] db = ([], db)"
| "sql_run d ((dr, opn) # rest) db =
     (let (err, db1) = sql_do d dr opn db; (succeeded, db2) = sql_run d rest db1
      in (if err = None then opn # succeeded else succeeded, db2))"

fun canon_op :: "store_op \<Rightarrow> store_op" where
  "canon_op (OpUpsert js) = OpUpsert (map canon_job js)"
| "canon_op (OpAttempts as) = OpAttempts (map canon_att as)"
| "canon_op (OpHeartbeat e t) = OpHeartbeat e (canon_time t)"
| "canon_op (OpReconcile now e dur) = OpReconcile (canon_time (now - dur)) e 0"
| "canon_op (OpPrune t sts) = OpPrune (canon_time t) sts"

fun op_ok :: "(string \<Rightarrow> string) \<Rightarrow> store_op \<Rightarrow> bool" where
  "op_ok id_of (OpUpsert js) \<longleftrightarrow> list_all job_ok js"
| "op_ok id_of (OpAttempts as) \<longleftrightarrow> list_all (att_ok id_of) as"
| "op_ok id_of (OpHeartbeat e t) \<longleftrightarrow> time_ok t"
| "op_ok id_of (OpReconcile now e dur) \<longleftrightarrow> time_ok (now - dur)"
| "op_ok id_of (OpPrune t sts) \<longleftrightarrow> time_ok t"

lemma sql_do_success:
  assumes "sql_do d dr opn db = (None, db')" "op_ok id_of opn" "db_ok id_of db" "stands_for db s"
  shows "db_ok id_of db' \<and> stands_for db' (apply_op (canon_op opn) s)"
proof (cases opn)
  case (OpUpsert js)
  then show ?thesis using assms Upsert_simulates by simp
next
  case (OpAttempts as)
  then show ?thesis using assms SaveAttempts_simulates by simp
next
  case (OpHeartbeat e t)
  then show ?thesis using assms Heartbeat_simulates by simp
next
  case (OpReconcile now e dur)
  then obtain n where "sql_ReconcileEpoch d dr now db e dur = (Inr n, db')"
    using assms(1) by (auto simp: failure_def map_prod_def split: prod.splits sum.splits)
  then show ?thesis using OpReconcile assms Reconcile_simulates by simp
next
  case (OpPrune t sts)
  then obtain n where "sql_Prune d dr db t sts = (Inr n, db')"
    using assms(1) by (auto simp: failure_def map_prod_def split: prod.splits sum.splits)
  then show ?thesis using OpPrune assms Prune_simulates by simp
qed

text \<open>An operation that reports an error left the tables alone, as long as updates are counted.\<close>

lemma sql_do_failure:
  assumes "sql_do d dr opn db = (Some e, db')" "dr_rows dr = None"
  shows "db' = db"
  using assms
  by (cases opn)
    (auto simp: sql_UpsertJobs_def sql_SaveAttempts_def sql_Heartbeat_def sql_ReconcileEpoch_def sql_Prune_def
      failure_def Let_def split: if_splits option.splits sum.splits)

lemma sql_run_simulates:
  assumes "list_all (\<lambda>(dr, opn). dr_rows dr = None \<and> op_ok id_of opn) ops"
    and "sql_run d ops db = (succeeded, db')" "db_ok id_of db" "stands_for db s"
  shows "db_ok id_of db' \<and> stands_for db' (fold apply_op (map canon_op succeeded) s)"
  using assms
proof (induction ops arbitrary: db s succeeded db')
  case Nil
  then show ?case by simp
next
  case (Cons x ops)
  obtain dr opn where x: "x = (dr, opn)" by (cases x)
  obtain err db1 where do: "sql_do d dr opn db = (err, db1)" by fastforce
  obtain rest db2 where run: "sql_run d ops db1 = (rest, db2)" by fastforce
  have res: "succeeded = (if err = None then opn # rest else rest)" "db' = db2"
    using Cons.prems(2) by (simp_all add: x do run split: if_splits)
  have ok: "dr_rows dr = None" "op_ok id_of opn"
    "list_all (\<lambda>(dr, opn). dr_rows dr = None \<and> op_ok id_of opn) ops"
    using Cons.prems(1) by (simp_all add: x)
  show ?case
  proof (cases err)
    case None
    with sql_do_success [OF _ ok(2) Cons.prems(3,4)] do
    have "db_ok id_of db1 \<and> stands_for db1 (apply_op (canon_op opn) s)" by simp
    with Cons.IH [OF ok(3) run, of "apply_op (canon_op opn) s"] show ?thesis by (simp add: res None)
  next
    case (Some e)
    with sql_do_failure ok(1) do have "db1 = db" by simp
    with Cons.IH [OF ok(3) run, of s] Cons.prems(3,4) show ?thesis by (simp add: res Some)
  qed
qed

end
