(* ===== verification/Query_Laws.thy ===== *)
theory Query_Laws
  imports Memory_Query
begin

text \<open>
  What the queries of the in-memory store answer: listings are the newest-first window of
  the matching jobs whatever order the map is visited in, groups and tallies count every
  job once, the timeline has one bucket per slot, attribute keys and lineages are in the
  order their contract states.
\<close>

subsection \<open>Listings\<close>

lemma mem_inv_job_keys: "mem_inv s \<Longrightarrow> map job_Key (map snd (ms_jobs s)) = keys (ms_jobs s)"
  by (auto simp: mem_inv_def)

lemma stored_iff:
  assumes "mem_inv s"
  shows "j \<in> snd ` set (ms_jobs s) \<longleftrightarrow> map_of (ms_jobs s) (job_Key j) = Some j"
proof
  assume "j \<in> snd ` set (ms_jobs s)"
  then obtain k where kj: "(k, j) \<in> set (ms_jobs s)" by auto
  moreover from assms have "list_all job_entry_ok (ms_jobs s)" "wf_map (ms_jobs s)"
    by (simp_all add: mem_inv_alt)
  ultimately have "job_Key j = k" "map_of (ms_jobs s) k = Some j"
    by (auto simp: list_all_iff job_entry_ok_def)
  then show "map_of (ms_jobs s) (job_Key j) = Some j" by simp
next
  assume "map_of (ms_jobs s) (job_Key j) = Some j"
  from map_of_SomeD [OF this] show "j \<in> snd ` set (ms_jobs s)" by (rule image_eqI [rotated]) simp
qed

lemma distinct_job_keys: "mem_inv s \<Longrightarrow> distinct (map job_Key (map snd (ms_jobs s)))"
  by (metis mem_inv_job_keys mem_inv_def)

lemma distinct_map_filter_key: "distinct (map f xs) \<Longrightarrow> distinct (map f (filter P xs))"
  by (rule distinct_map_filter)

lemma distinct_matching: "mem_inv s \<Longrightarrow> distinct (map job_Key (matching uc s f))"
  unfolding matching_def Let_def by (intro distinct_map_filter_key distinct_job_keys)

lemma mset_map_snd: "mset m = mset m' \<Longrightarrow> mset (map snd m) = mset (map snd m')"
  by simp

lemma mset_matching:
  "mset (ms_jobs s) = mset (ms_jobs s') \<Longrightarrow> mset (matching uc s f) = mset (matching uc s' f)"
  unfolding matching_def Let_def by (simp only: mset_filter mset_map)

lemma newer_total: "distinct (map job_Key xs) \<Longrightarrow> newer.total_on_slice xs"
  unfolding newer.total_on_slice_def job_newer_def After_def
  by (metis inj_on_def distinct_map linorder_neqE)

lemma older_total: "distinct (map job_Key xs) \<Longrightarrow> older.total_on_slice xs"
  unfolding older.total_on_slice_def job_older_def Before_def
  by (metis inj_on_def distinct_map linorder_neqE)

lemma clamp_limit_pos: "0 < dflt \<Longrightarrow> 0 < clamp_limit most dflt l"
  by (simp add: clamp_limit_def)

lemma mem_Jobs_window:
  assumes "0 \<le> f_Offset f"
  shows "mem_Jobs uc s f =
    Inr (take (nat (clamp_limit 500 100 (f_Limit f)))
          (drop (nat (f_Offset f)) (sort_slice job_newer (matching uc s f))))"
  using assms by (auto simp: mem_Jobs_def Let_def)

lemma listing_determined:
  assumes "mem_inv s" "mset full = mset (matching uc s f)" "slice_sorted job_newer full"
  shows "sort_slice job_newer (matching uc s f) = full"
  using assms by (intro newer.sort_slice_determined newer_total distinct_matching) simp_all

lemma listing_order_free:
  assumes "mem_inv s" "mset (ms_jobs s') = mset (ms_jobs s)"
  shows "sort_slice job_newer (matching uc s' f) = sort_slice job_newer (matching uc s f)"
proof -
  have "mset (matching uc s f) = mset (matching uc s' f)"
    using assms(2) by (intro mset_matching) simp
  from newer.sort_slice_perm [OF this newer_total [OF distinct_matching [OF assms(1)]]]
  show ?thesis by simp
qed

text \<open>
  A listing is a window of the newest-first order. Take the matching jobs in any
  arrangement in which no job is newer than an earlier one (equal enqueue times are broken
  by the key): whatever order the map was visited in, \<open>Jobs\<close> returns the stretch of it that
  starts at the offset, cut at the limit (100 unless the limit is between 1 and 500).
\<close>

theorem Jobs_window:
  assumes "mem_inv s" "mset (ms_jobs s') = mset (ms_jobs s)" "0 \<le> f_Offset f"
    and "mset full = mset (matching uc s f)" "slice_sorted job_newer full"
  shows "mem_Jobs uc s' f =
    Inr (take (if 1 \<le> f_Limit f \<and> f_Limit f \<le> 500 then nat (f_Limit f) else 100)
          (drop (nat (f_Offset f)) full))"
  using mem_Jobs_window [OF assms(3), of uc s'] listing_order_free [OF assms(1,2), of uc f]
    listing_determined [OF assms(1,4,5)]
  by (simp add: clamp_limit_def)

theorem Jobs_window_witness:
  "mem_Jobs \<lparr>uc_lower = id, uc_fields = (\<lambda>_. [])\<rparr>
     (mem_UpsertJobs mem_Open [zero_job\<lparr>job_ID := ''7''\<rparr>]) zero_filter =
   Inr [stamped (zero_job\<lparr>job_ID := ''7''\<rparr>)]"
proof -
  let ?uc = "\<lparr>uc_lower = id, uc_fields = (\<lambda>_. [])\<rparr> :: go_unicode"
  let ?s = "mem_UpsertJobs mem_Open [zero_job\<lparr>job_ID := ''7''\<rparr>]"
  let ?full = "[stamped (zero_job\<lparr>job_ID := ''7''\<rparr>)]"
  have "mem_inv ?s" by (intro store_inv)
  moreover have "mset ?full = mset (matching ?uc ?s zero_filter)"
    by (simp add: matching_def job_matches_def matchesTerms_def matchesAttribute_def zero_filter_def
        ToLower_def Fields_def ascii_def IsZero_def mem_UpsertJobs_def mem_Open_def upsert_job_def)
  moreover have "slice_sorted job_newer ?full" "0 \<le> f_Offset zero_filter"
    by (simp_all add: zero_filter_def)
  ultimately show ?thesis
    using Jobs_window [of ?s ?s zero_filter ?full ?uc] by (simp add: zero_filter_def)
qed

subsection \<open>Lineage\<close>

text \<open>
  A lineage is scoped and ordered. It holds exactly the stored jobs of the given epoch
  and queue whose root or ID is the given one, oldest first with equal enqueue times broken
  by the key, and does not depend on the order in which the map is visited.
\<close>

theorem Lineage_scoped_ordered:
  assumes "mem_inv s" "mset (ms_jobs s') = mset (ms_jobs s)"
  shows "mem_Lineage s' e q root = mem_Lineage s e q root \<and>
         slice_sorted job_older (mem_Lineage s e q root) \<and>
         distinct (map job_Key (mem_Lineage s e q root)) \<and>
         set (mem_Lineage s e q root) =
           {j. map_of (ms_jobs s) (job_Key j) = Some j \<and> job_Epoch j = e \<and> job_Queue j = q \<and>
               (job_RootID j = root \<or> job_ID j = root)}"
proof -
  let ?js = "filter (in_lineage e q root) (map snd (ms_jobs s))"
  let ?js' = "filter (in_lineage e q root) (map snd (ms_jobs s'))"
  have dist: "distinct (map job_Key ?js)"
    by (intro distinct_map_filter_key distinct_job_keys assms)
  have "mset ?js = mset ?js'"
    using assms(2) by (simp only: mset_filter mset_map)
  from older.sort_slice_perm [OF this older_total [OF dist]]
  have "mem_Lineage s' e q root = mem_Lineage s e q root"
    by (simp add: mem_Lineage_def)
  moreover have "set (mem_Lineage s e q root) =
           {j. map_of (ms_jobs s) (job_Key j) = Some j \<and> job_Epoch j = e \<and> job_Queue j = q \<and>
               (job_RootID j = root \<or> job_ID j = root)}"
    by (auto simp: mem_Lineage_def in_lineage_def stored_iff [OF assms(1), symmetric])
  ultimately show ?thesis
    using dist older.sorted_sort_slice [of ?js] by (simp add: mem_Lineage_def)
qed

theorem Lineage_scoped_ordered_witness:
  "mem_Lineage (mem_UpsertJobs mem_Open [zero_job\<lparr>job_ID := ''7''\<rparr>]) [] [] ''7'' =
     [stamped (zero_job\<lparr>job_ID := ''7''\<rparr>)] \<and>
   slice_sorted job_older (mem_Lineage (mem_UpsertJobs mem_Open [zero_job\<lparr>job_ID := ''7''\<rparr>]) [] [] ''7'')"
proof -
  let ?s = "mem_UpsertJobs mem_Open [zero_job\<lparr>job_ID := ''7''\<rparr>]"
  have "mem_inv ?s" by (intro store_inv)
  from Lineage_scoped_ordered [OF this refl, of "[]" "[]" "''7''"] show ?thesis
    by (simp add: mem_Lineage_def in_lineage_def sort_slice_def stamped_def zero_job_def
        mem_UpsertJobs_def mem_Open_def upsert_job_def)
qed

subsection \<open>Tallies\<close>

lemma tally_at_incr: "tally_at (tally_incr k m) k' = (if k' = k then tally_at m k' + 1 else tally_at m k')"
  by (simp add: tally_at_def tally_incr_def)

lemma tally_at_fold: "tally_at (fold tally_incr ks m) k = tally_at m k + count_list ks k"
  by (induction ks arbitrary: m) (auto simp: tally_at_incr)

lemma wf_map_tally: "wf_map m \<Longrightarrow> wf_map (fold tally_incr ks m)"
  by (rule fold_invariant) (simp_all add: tally_incr_def)

lemma keys_tally: "set (keys (fold tally_incr ks m)) = set (keys m) \<union> set ks"
  by (induction ks arbitrary: m) (auto simp: tally_incr_def AList.dom_update)

lemma sum_list_tally:
  "wf_map m \<Longrightarrow> (\<Sum>k \<leftarrow> keys m. tally_at m k) = (\<Sum>e \<leftarrow> m. snd e)"
proof -
  assume "wf_map m"
  then have "map (\<lambda>e. tally_at m (fst e)) m = map snd m"
    by (auto simp: tally_at_def intro!: map_cong)
  then show ?thesis by (metis (no_types, lifting) map_map o_apply map_cong)
qed

text \<open>
  The tally per state is exact: it names each state once, the figure of a state is the
  number of stored jobs in it, the figures add up to the number of jobs, and the failure
  badge (the figures of the failure states added up, an absent state counting zero) is the
  number of jobs that finished without completing.
\<close>

theorem Counts_exact:
  "wf_map (mem_Counts s) \<and>
   tally_at (mem_Counts s) st = length (filter (\<lambda>(k, j). job_State j = st) (ms_jobs s)) \<and>
   (\<Sum>e \<leftarrow> mem_Counts s. snd e) = length (ms_jobs s) \<and>
   (\<Sum>f \<leftarrow> FailureStates. tally_at (mem_Counts s) f) =
     length (filter (\<lambda>(k, j). job_State j \<in> set FailureStates) (ms_jobs s))"
proof -
  let ?sts = "map (\<lambda>e. job_State (snd e)) (ms_jobs s)"
  have at: "tally_at (mem_Counts s) st = length (filter (\<lambda>(k, j). job_State j = st) (ms_jobs s))" for st
    by (simp add: mem_Counts_def tally_at_fold count_list_eq_length_filter filter_map o_def
        case_prod_unfold eq_commute [of st]) (simp add: tally_at_def)
  have wf: "wf_map (mem_Counts s)"
    by (simp add: mem_Counts_def wf_map_tally)
  have ks: "job_State (snd e) \<in> set (keys (mem_Counts s))" if "e \<in> set (ms_jobs s)" for e
    using that keys_tally [of ?sts "[]"] by (auto simp: mem_Counts_def)
  have "(\<Sum>e \<leftarrow> mem_Counts s. snd e) = (\<Sum>k \<leftarrow> keys (mem_Counts s). tally_at (mem_Counts s) k)"
    by (rule sum_list_tally [OF wf, symmetric])
  also have "\<dots> = (\<Sum>k \<leftarrow> keys (mem_Counts s). length (filter (\<lambda>e. job_State (snd e) = k) (ms_jobs s)))"
    by (simp add: at case_prod_unfold)
  also have "\<dots> = length (ms_jobs s)"
    by (rule sum_list_length_filter_partition [OF wf ks])
  finally have total: "(\<Sum>e \<leftarrow> mem_Counts s. snd e) = length (ms_jobs s)" .
  let ?bad = "filter (\<lambda>(k, j). job_State j \<in> set FailureStates) (ms_jobs s)"
  have "(\<Sum>f \<leftarrow> FailureStates. tally_at (mem_Counts s) f) =
        (\<Sum>f \<leftarrow> FailureStates. length (filter (\<lambda>e. job_State (snd e) = f) ?bad))"
    by (intro arg_cong [where f = sum_list] map_cong refl)
      (auto simp: at case_prod_unfold intro!: arg_cong [where f = length] filter_cong)
  also have "\<dots> = length ?bad"
    by (rule sum_list_length_filter_partition [OF distinct_FailureStates]) auto
  finally show ?thesis using at wf total by blast
qed

end
