(* ===== verification/Aggregate_Laws.thy ===== *)
theory Aggregate_Laws
  imports Query_Laws
begin

text \<open>
  The aggregating queries of the in-memory store: groups, timeline and attribute keys. All
  three keep a tally in a map, adding a default entry the first time a key is met; the
  first section proves once what such a loop computes.
\<close>

subsection \<open>Tallies with a default entry\<close>

definition tally_by ::
    "('a \<Rightarrow> 'k) \<Rightarrow> ('k \<Rightarrow> 'v) \<Rightarrow> ('a \<Rightarrow> 'v \<Rightarrow> 'v) \<Rightarrow> 'a \<Rightarrow> ('k, 'v) gomap \<Rightarrow> ('k, 'v) gomap" where
  "tally_by key dflt bump x m =
     AList.update (key x) (bump x (case map_of m (key x) of None \<Rightarrow> dflt (key x) | Some v \<Rightarrow> v)) m"

lemma map_of_tally_by:
  "map_of (fold (tally_by key dflt bump) xs m) k =
     (if filter (\<lambda>x. key x = k) xs = [] then map_of m k
      else Some (fold bump (filter (\<lambda>x. key x = k) xs)
                   (case map_of m k of None \<Rightarrow> dflt k | Some v \<Rightarrow> v)))"
  by (induction xs arbitrary: m) (auto simp: tally_by_def)

lemma wf_map_tally_by: "wf_map m \<Longrightarrow> wf_map (fold (tally_by key dflt bump) xs m)"
  by (rule fold_invariant) (simp_all add: tally_by_def)

lemma keys_tally_by: "set (keys (fold (tally_by key dflt bump) xs m)) = set (keys m) \<union> key ` set xs"
  by (induction xs arbitrary: m) (auto simp: tally_by_def AList.dom_update)

lemma tally_by_entry:
  assumes "(k, v) \<in> set (fold (tally_by key dflt bump) xs [])"
  shows "v = fold bump (filter (\<lambda>x. key x = k) xs) (dflt k)" "k \<in> key ` set xs"
proof -
  let ?t = "fold (tally_by key dflt bump) xs []"
  have "map_of ?t k = Some v"
    using assms by (simp add: wf_map_tally_by)
  then show "v = fold bump (filter (\<lambda>x. key x = k) xs) (dflt k)"
    by (auto simp: map_of_tally_by split: if_splits)
  have "k \<in> set (keys ?t)" using assms by force
  then show "k \<in> key ` set xs" by (simp only: keys_tally_by) simp
qed

subsection \<open>Groups\<close>

definition family :: "group \<Rightarrow> group_key" where
  "family g = (grp_Pattern g, grp_State g, grp_Err g)"

lemma group_job_tally: "group_job = tally_by group_of new_group bump_group"
  by (intro ext) (simp add: group_job_def tally_by_def Let_def)

lemma family_new_group [simp]: "family (new_group k) = k"
  by (cases k rule: new_group.cases) (simp add: family_def)

lemma new_group_fields [simp]: "grp_Count (new_group k) = 0" "grp_LastSeen (new_group k) = zeroTime"
  by (cases k rule: new_group.cases, simp)+

lemma fold_bump_group:
  "family (fold bump_group js g) = family g"
  "grp_Count (fold bump_group js g) = grp_Count g + length js"
  "grp_LastSeen (fold bump_group js g) = Max (insert (grp_LastSeen g) (lastActive ` set js))"
proof (induction js arbitrary: g)
  case Nil
  { case 1 show ?case by simp }
  { case 2 show ?case by simp }
  { case 3 show ?case by simp }
next
  case (Cons j js)
  { case 1 show ?case by (simp add: Cons.IH(1)) (simp add: family_def bump_group_def) }
  { case 2 show ?case by (simp add: Cons.IH(2)) (simp add: bump_group_def) }
  { case 3
    have "grp_LastSeen (bump_group j g) = max (lastActive j) (grp_LastSeen g)"
      by (simp add: bump_group_def After_def)
    then show ?case
      by (simp add: Cons.IH(3) insert_commute [of "grp_LastSeen g"])
        (cases "js = []", simp_all add: max.assoc) }
qed

lemma group_tally_entry:
  assumes "(k, g) \<in> set (fold group_job js [])"
  shows "family g = k" "grp_Count g = length (filter (\<lambda>j. group_of j = k) js)"
    "grp_LastSeen g = Max (insert zeroTime (lastActive ` {j \<in> set js. group_of j = k}))"
    "k \<in> group_of ` set js"
  using tally_by_entry [OF assms [unfolded group_job_tally]]
  by (simp_all add: fold_bump_group)

lemma group_tally_families:
  "map family (map snd (fold group_job js [])) = keys (fold group_job js [])"
  by (auto dest: group_tally_entry(1) intro!: map_cong)

lemma take_if_longer: "(if int (length xs) > l then take (nat l) xs else xs) = take (nat l) xs"
  by (cases "0 \<le> l") auto

lemma sum_group_counts:
  "(\<Sum>g \<leftarrow> map snd (fold group_job js []). grp_Count g) = length js"
proof -
  let ?t = "fold group_job js []"
  have "(\<Sum>g \<leftarrow> map snd ?t. grp_Count g) = (\<Sum>e \<leftarrow> ?t. length (filter (\<lambda>j. group_of j = fst e) js))"
    by (simp add: o_def) (rule arg_cong [where f = sum_list], auto simp: group_tally_entry(2))
  also have "\<dots> = (\<Sum>k \<leftarrow> keys ?t. length (filter (\<lambda>j. group_of j = k) js))"
    by (simp add: o_def)
  also have "\<dots> = length js"
    unfolding group_job_tally
    by (rule sum_list_length_filter_partition)
      (use wf_map_tally_by [of "[]"] keys_tally_by [of group_of new_group bump_group js "[]"] in auto)
  finally show ?thesis .
qed

text \<open>
  C29. Groups summarize the matching jobs exactly. There is at most one group per family
  (pattern, state and error), a group's count is the number of matching jobs of its family
  (never zero), its last-seen time is the latest activity among them, the groups come
  largest first, and when no family is cut off by the limit the counts add up to the number
  of matching jobs; all this in whatever order the groups of equal rank come.
\<close>

theorem GroupJobs_exact:
  fixes uc s f limit ord
  defines "js \<equiv> matching uc s f"
  shows "distinct (map family (mem_GroupJobs ord uc s f limit)) \<and>
    (\<forall>g \<in> set (mem_GroupJobs ord uc s f limit).
       grp_Count g = length (filter (\<lambda>j. group_of j = family g) js) \<and> 0 < grp_Count g \<and>
       grp_LastSeen g = Max (insert zeroTime (lastActive ` {j \<in> set js. group_of j = family g}))) \<and>
    slice_sorted group_before (mem_GroupJobs ord uc s f limit) \<and>
    length (mem_GroupJobs ord uc s f limit) = min (nat (clamp_limit 200 50 limit)) (card (group_of ` set js)) \<and>
    (card (group_of ` set js) \<le> nat (clamp_limit 200 50 limit) \<longrightarrow>
       (\<Sum>g \<leftarrow> mem_GroupJobs ord uc s f limit. grp_Count g) = mem_CountJobs uc s f)"
proof -
  let ?t = "fold group_job js []" and ?lim = "nat (clamp_limit 200 50 limit)"
  let ?all = "sort_slice group_before (range_order ord (map snd ?t))"
  have res: "mem_GroupJobs ord uc s f limit = take ?lim ?all"
    by (simp add: mem_GroupJobs_def Let_def take_if_longer js_def del: length_sort_slice)
  have wf: "wf_map ?t"
    unfolding group_job_tally by (rule wf_map_tally_by) simp
  have entry: "grp_Count g = length (filter (\<lambda>j. group_of j = family g) js) \<and> 0 < grp_Count g \<and>
       grp_LastSeen g = Max (insert zeroTime (lastActive ` {j \<in> set js. group_of j = family g}))"
    if "g \<in> set ?all" for g
  proof -
    from that obtain k where k: "(k, g) \<in> set ?t" by auto
    note e = group_tally_entry [OF k]
    from e(4) have "filter (\<lambda>j. group_of j = k) js \<noteq> []" by (auto simp: filter_empty_conv)
    with e show ?thesis by simp
  qed
  have dist: "distinct (map family ?all)"
    by (simp only: distinct_map_sort_slice distinct_map_range_order group_tally_families wf)
  have "set (keys ?t) = group_of ` set js"
    unfolding group_job_tally by (simp only: keys_tally_by) simp
  then have len: "length ?all = card (group_of ` set js)"
    using distinct_card [OF wf] by simp
  have "sum_list (map grp_Count ?all) = length js"
    using sum_group_counts [of js]
    by (metis mset_map mset_range_order mset_sort_slice sum_mset_sum_list)
  then have sum: "?lim \<ge> length ?all \<longrightarrow> (\<Sum>g \<leftarrow> take ?lim ?all. grp_Count g) = length js"
    by simp
  show ?thesis
    unfolding res mem_CountJobs_def js_def [symmetric] len [symmetric]
    using dist entry groups.sorted_sort_slice sum
    by (auto simp: take_map [symmetric] slice_sorted_take dest: in_set_takeD
        simp del: set_sort_slice length_sort_slice)
qed

lemma card_groups_le: "card (group_of ` set (matching uc s f)) \<le> length (ms_jobs s)"
proof -
  have "card (group_of ` set (matching uc s f)) \<le> length (matching uc s f)"
    by (metis List.finite_set card_image_le card_length le_trans)
  also have "\<dots> \<le> length (ms_jobs s)"
    unfolding matching_def Let_def using length_filter_le [of _ "map snd (ms_jobs s)"] by simp
  finally show ?thesis .
qed

theorem GroupJobs_exact_witness:
  "(\<Sum>g \<leftarrow> mem_GroupJobs rev \<lparr>uc_lower = id, uc_fields = (\<lambda>_. [])\<rparr>
       (mem_UpsertJobs mem_Open [zero_job\<lparr>job_ID := ''7''\<rparr>, zero_job\<lparr>job_ID := ''8''\<rparr>]) zero_filter 50.
     grp_Count g) =
   mem_CountJobs \<lparr>uc_lower = id, uc_fields = (\<lambda>_. [])\<rparr>
       (mem_UpsertJobs mem_Open [zero_job\<lparr>job_ID := ''7''\<rparr>, zero_job\<lparr>job_ID := ''8''\<rparr>]) zero_filter"
proof -
  let ?uc = "\<lparr>uc_lower = id, uc_fields = (\<lambda>_. [])\<rparr>"
  let ?s = "mem_UpsertJobs mem_Open [zero_job\<lparr>job_ID := ''7''\<rparr>, zero_job\<lparr>job_ID := ''8''\<rparr>]"
  have "length (ms_jobs ?s) \<le> 50"
    by (simp add: mem_UpsertJobs_def mem_Open_def upsert_job_def record_key_def KeyFor_def zero_job_def Let_def)
  then have "card (group_of ` set (matching ?uc ?s zero_filter)) \<le> nat (clamp_limit 200 50 50)"
    using card_groups_le [of ?uc ?s zero_filter] by (simp add: clamp_limit_def)
  with GroupJobs_exact [where uc = ?uc and s = ?s and f = zero_filter and limit = 50 and ord = rev] show ?thesis by blast
qed

text \<open>Where no two groups have the same count and last activity, their order is determined.\<close>

definition groups_untied :: "go_unicode \<Rightarrow> mem_store \<Rightarrow> job_filter \<Rightarrow> bool" where
  "groups_untied uc s f \<longleftrightarrow>
     distinct (map (\<lambda>g. (grp_Count g, grp_LastSeen g)) (map snd (fold group_job (matching uc s f) [])))"

lemma groups_untied_total: "groups_untied uc s f \<Longrightarrow> groups.total_on_slice (map snd (fold group_job (matching uc s f) []))"
  unfolding groups.total_on_slice_def groups_untied_def distinct_map inj_on_def group_before_def After_def
  by (metis linorder_neqE_nat linorder_neqE_linordered_idom prod.inject)

lemma GroupJobs_untied:
  assumes "groups_untied uc s f"
  shows "mem_GroupJobs ord uc s f limit = mem_GroupJobs ord' uc s f limit"
proof -
  let ?gs = "map snd (fold group_job (matching uc s f) [])"
  have "sort_slice group_before (range_order ord ?gs) = sort_slice group_before (range_order ord' ?gs)"
    using groups_untied_total [OF assms] by (intro groups.sort_slice_perm) (simp_all add: groups.total_on_slice_def)
  then show ?thesis by (simp add: mem_GroupJobs_def Let_def)
qed

subsection \<open>Timeline\<close>

definition hit_bucket :: "job \<Rightarrow> bucket \<Rightarrow> bucket" where
  "hit_bucket j b =
     (if job_State j = StateCompleted then b\<lparr>bkt_Completed := bkt_Completed b + 1\<rparr>
      else if job_State j \<in> set FailureStates then b\<lparr>bkt_Failed := bkt_Failed b + 1\<rparr>
      else b)"

definition in_window :: "gotime \<Rightarrow> job \<Rightarrow> bool" where
  "in_window since j \<longleftrightarrow> Terminal (job_State j) \<and> since \<le> lastActive j"

definition time_slot :: "int \<Rightarrow> job \<Rightarrow> int" where
  "time_slot width j = UnixNano (lastActive j) sdiv width"

lemma timeline_job_tally:
  "timeline_job since width j =
     (if in_window since j then tally_by (time_slot width) (empty_bucket width) hit_bucket j else id)"
  unfolding timeline_job_def in_window_def tally_by_def hit_bucket_def time_slot_def Before_def Let_def
  by (rule ext) auto

lemma fold_timeline_job:
  "fold (timeline_job since width) js m =
     fold (tally_by (time_slot width) (empty_bucket width) hit_bucket) (filter (in_window since) js) m"
  by (induction js arbitrary: m) (auto simp: timeline_job_tally)

lemma fold_hit_bucket:
  "fold hit_bucket js b =
     b\<lparr>bkt_Completed := bkt_Completed b + length (filter (\<lambda>j. job_State j = StateCompleted) js),
       bkt_Failed := bkt_Failed b + length (filter (\<lambda>j. job_State j \<in> set FailureStates) js)\<rparr>"
proof (induction js arbitrary: b)
  case Nil
  show ?case by simp
next
  case (Cons j js)
  have "StateCompleted \<notin> set FailureStates" using FailureStates_Terminal by blast
  then show ?case by (simp add: Cons.IH) (simp add: hit_bucket_def)
qed

text \<open>The jobs that belong to one slot of the window.\<close>

definition slot_jobs :: "mem_store \<Rightarrow> gotime \<Rightarrow> int \<Rightarrow> int \<Rightarrow> job list" where
  "slot_jobs s since width n =
     filter (\<lambda>j. in_window since j \<and> time_slot width j = n) (map snd (ms_jobs s))"

lemma timeline_bucket:
  "(case map_of (fold (timeline_job since width) (map snd (ms_jobs s)) []) n of
      Some found \<Rightarrow> found | None \<Rightarrow> empty_bucket width n) =
   \<lparr>bkt_Start = int64 (n * width),
    bkt_Completed = length (filter (\<lambda>j. job_State j = StateCompleted) (slot_jobs s since width n)),
    bkt_Failed = length (filter (\<lambda>j. job_State j \<in> set FailureStates) (slot_jobs s since width n))\<rparr>"
proof -
  have "filter (\<lambda>j. time_slot width j = n) (filter (in_window since) (map snd (ms_jobs s))) =
        slot_jobs s since width n"
    by (simp add: slot_jobs_def conj_commute)
  then show ?thesis
    by (simp add: fold_timeline_job map_of_tally_by fold_hit_bucket empty_bucket_def time_Unix_def)
qed

lemma sdiv_UnixNano: "0 \<le> t \<Longrightarrow> t \<le> maxInt64 \<Longrightarrow> 0 < w \<Longrightarrow> UnixNano t sdiv w = t div w"
  by (simp add: UnixNano_def int64_id sdiv_nonneg)

lemma slot_start_in_range:
  fixes n w :: int
  assumes "0 \<le> n" "n \<le> t div w" "0 \<le> t" "t \<le> maxInt64" "0 < w"
  shows "int64 (n * w) = n * w"
proof (rule int64_id)
  have "n * w \<le> t div w * w" using assms by (simp add: mult_right_mono)
  also have "\<dots> \<le> t" using assms by (simp add: minus_mod_eq_div_mult [symmetric])
  finally show "n * w \<le> maxInt64" using assms by simp
  have "0 \<le> n * w" using assms by simp
  then show "minInt64 \<le> n * w" by simp
qed

lemma Timeline_eq:
  assumes "0 \<le> since" "since \<le> now'" "now' \<le> maxInt64" "0 < width"
    and "time_Sub now since sdiv width \<le> maxBuckets"
  shows "mem_Timeline now now' s since width =
    Inr (map (\<lambda>n. \<lparr>bkt_Start = int64 (n * width),
                    bkt_Completed = length (filter (\<lambda>j. job_State j = StateCompleted) (slot_jobs s since width n)),
                    bkt_Failed = length (filter (\<lambda>j. job_State j \<in> set FailureStates) (slot_jobs s since width n))\<rparr>)
           [since div width..now' div width])"
proof -
  have "UnixNano since sdiv width = since div width" "UnixNano now' sdiv width = now' div width"
    "since div width \<le> now' div width"
    using assms by (simp_all add: sdiv_UnixNano zdiv_mono1)
  then show ?thesis
    using assms by (simp add: mem_Timeline_def Let_def timeline_bucket)
qed

text \<open>
  C30. The timeline has one bucket per slot and counts each job in its slot. For a cutoff
  between 1970 and now, with no more than the permitted number of buckets, \<open>Timeline\<close>
  returns the buckets from the cutoff's slot to the present one without a gap, oldest
  first; the i-th starts i widths after the first slot and counts the completed and the
  failed jobs last active at or after the cutoff that fall in it.
\<close>

theorem Timeline_buckets:
  assumes "0 \<le> since" "since \<le> now'" "now' \<le> maxInt64" "0 < width"
    and "time_Sub now since sdiv width \<le> maxBuckets"
  shows "mem_Timeline now now' s since width =
    Inr (map (\<lambda>n. \<lparr>bkt_Start = n * width,
                    bkt_Completed = length (filter (\<lambda>j. job_State j = StateCompleted) (slot_jobs s since width n)),
                    bkt_Failed = length (filter (\<lambda>j. job_State j \<in> set FailureStates) (slot_jobs s since width n))\<rparr>)
           [since div width..now' div width])"
proof -
  have "0 \<le> since div width" using assms by (simp add: pos_imp_zdiv_nonneg_iff)
  then have "int64 (n * width) = n * width" if "n \<in> set [since div width..now' div width]" for n
    using that assms by (intro slot_start_in_range [of n now' width]) auto
  then show ?thesis using Timeline_eq [OF assms, of s] by (simp cong: map_cong)
qed

theorem Timeline_buckets_witness:
  "mem_Timeline 120000000000 120000000000 mem_Open 60000000000 Minute =
     Inr [\<lparr>bkt_Start = 60000000000, bkt_Completed = 0, bkt_Failed = 0\<rparr>,
          \<lparr>bkt_Start = 120000000000, bkt_Completed = 0, bkt_Failed = 0\<rparr>]"
proof -
  have "time_Sub 120000000000 60000000000 sdiv Minute \<le> maxBuckets"
    by (simp add: time_Sub_def maxBuckets_def sdiv_nonneg)
  from Timeline_buckets [OF _ _ _ _ this, of 120000000000 mem_Open] show ?thesis
    by (simp add: slot_jobs_def mem_Open_def upto.simps)
qed

lemma div_sum_le:
  fixes a b w :: int
  assumes "0 < w"
  shows "(a + b) div w \<le> a div w + b div w + 1"
proof -
  have "a = a div w * w + a mod w" "b = b div w * w + b mod w" by simp_all
  moreover have "a mod w < w" "b mod w < w" using assms by simp_all
  ultimately have "a + b < a div w * w + b div w * w + 2 * w" by linarith
  moreover have "(a + b) div w * w \<le> a + b"
    using assms by (simp add: minus_mod_eq_div_mult [symmetric])
  ultimately have "(a + b) div w * w < (a div w + b div w + 2) * w"
    by (simp add: distrib_right)
  then have "(a + b) div w < a div w + b div w + 2"
    using assms by (simp only: mult_less_cancel_right_disj) simp
  then show ?thesis by simp
qed

text \<open>
  The guard bounds the work: with one reading of the clock, the number of buckets never
  exceeds the limit by more than two.
\<close>

lemma Timeline_length_bound:
  assumes "0 \<le> since" "since \<le> now" "now \<le> maxInt64" "0 < width"
    and "mem_Timeline now now s since width = Inr bs"
  shows "length bs \<le> 10002"
proof -
  have "now - since \<le> maxInt64" "0 \<le> now - since" using assms by linarith+
  then have sub: "time_Sub now since sdiv width = (now - since) div width"
    using assms by (simp add: time_Sub_def sdiv_nonneg)
  have guard: "(now - since) div width \<le> 10000"
    using assms(5) assms(1) sub
    by (auto simp: mem_Timeline_def Let_def maxBuckets_def assms(4) not_less [symmetric] split: if_splits)
  have "now div width \<le> since div width + (now - since) div width + 1"
    using div_sum_le [OF assms(4), of since "now - since"] by simp
  moreover have "length bs = nat (now div width - since div width + 1)"
    using Timeline_eq [of since now width now s] assms sub guard
    by (auto simp: maxBuckets_def)
  ultimately show ?thesis using guard by simp
qed

text \<open>A cutoff more than a slot ahead of the clock makes the code panic instead of answering.\<close>

lemma Timeline_future_panics:
  "mem_Timeline 0 0 mem_Open 120000000000 Minute = Inl (MemPanic MakeSliceCap)"
  by (simp add: mem_Timeline_def Let_def time_Sub_def maxBuckets_def UnixNano_def int64_id
      signed_divide_int_def)

subsection \<open>Attribute keys\<close>

lemma fold_fold_concat: "fold (\<lambda>x. fold g (h x)) xs m = fold g (concat (map h xs)) m"
  by (induction xs arbitrary: m) auto

definition attr_uses :: "mem_store \<Rightarrow> string list" where
  "attr_uses s = concat (map (\<lambda>j. keys (job_Attributes j)) (map snd (ms_jobs s)))"

lemma attr_tally_eq: "attr_tally s = fold tally_incr (attr_uses s) []"
  by (simp add: attr_tally_def attr_uses_def fold_fold_concat)

text \<open>How many stored jobs carry a key.\<close>

definition carriers :: "mem_store \<Rightarrow> string \<Rightarrow> nat" where
  "carriers s k = length (filter (\<lambda>(_, j). k \<in> set (keys (job_Attributes j))) (ms_jobs s))"

lemma count_list_distinct: "distinct xs \<Longrightarrow> count_list xs k = (if k \<in> set xs then 1 else 0)"
  by (induction xs) auto

lemma count_attr_uses:
  assumes "\<forall>(k, j) \<in> set (ms_jobs s). wf_map (job_Attributes j)"
  shows "count_list (attr_uses s) k = carriers s k"
proof -
  have "count_list (concat (map (\<lambda>e. keys (job_Attributes (snd e))) es)) k =
        length (filter (\<lambda>(_, j). k \<in> set (keys (job_Attributes j))) es)"
    if "\<forall>(k, j) \<in> set es. wf_map (job_Attributes j)" for es :: "(string, job) gomap"
    using that by (induction es) (auto simp: count_list_distinct simp del: set_map)
  from this [OF assms] show ?thesis by (simp add: attr_uses_def carriers_def o_def)
qed

lemma tally_at_attr_tally:
  "\<forall>(k, j) \<in> set (ms_jobs s). wf_map (job_Attributes j) \<Longrightarrow> tally_at (attr_tally s) k = carriers s k"
  by (simp add: attr_tally_eq tally_at_fold count_attr_uses) (simp add: tally_at_def)

lemma set_keys_attr_tally:
  assumes "\<forall>(k, j) \<in> set (ms_jobs s). wf_map (job_Attributes j)"
  shows "set (keys (attr_tally s)) = {k. 0 < carriers s k}"
proof -
  have "set (keys (attr_tally s)) = set (attr_uses s)"
    using keys_tally [of "attr_uses s" "[]"] by (simp add: attr_tally_eq)
  also have "\<dots> = {k. 0 < carriers s k}"
    by (simp only: count_attr_uses [OF assms, symmetric] neq0_conv [symmetric] count_list_0_iff) auto
  finally show ?thesis .
qed

lemma sorted_wrt_irrefl_distinct: "sorted_wrt P xs \<Longrightarrow> (\<And>x. \<not> P x x) \<Longrightarrow> distinct xs"
  by (induction xs) auto

lemma carriers_order_free: "mset (ms_jobs s') = mset (ms_jobs s) \<Longrightarrow> carriers s' k = carriers s k"
  unfolding carriers_def by (metis mset_filter size_mset)

definition attr_ranked :: "mem_store \<Rightarrow> string list \<Rightarrow> bool" where
  "attr_ranked s ks \<longleftrightarrow>
     sorted_wrt (\<lambda>a b. carriers s b < carriers s a \<or> carriers s a = carriers s b \<and> a < b) ks"

text \<open>
  Attribute keys come most common first. List the keys carried by at least one stored
  job by descending number of jobs, alphabetically among equals: whatever order the maps
  are visited in, \<open>AttributeKeys\<close> returns that list cut at the limit (20 unless the limit is
  between 1 and 50).
\<close>

theorem AttributeKeys_ranked:
  assumes "\<forall>(k, j) \<in> set (ms_jobs s). wf_map (job_Attributes j)"
    and "mset (ms_jobs s') = mset (ms_jobs s)"
    and "set full = {k. 0 < carriers s k}" "attr_ranked s full"
  shows "mem_AttributeKeys s' limit =
           take (if 1 \<le> limit \<and> limit \<le> 50 then nat limit else 20) full"
proof -
  let ?t = "attr_tally s'"
  have wf': "\<forall>(k, j) \<in> set (ms_jobs s'). wf_map (job_Attributes j)"
    using assms(1) mset_eq_setD [OF assms(2)] by simp
  have at: "tally_at ?t k = carriers s k" for k
    by (simp add: tally_at_attr_tally [OF wf'] carriers_order_free [OF assms(2)])
  have lt: "attr_before ?t a b \<longleftrightarrow>
      carriers s b < carriers s a \<or> carriers s a = carriers s b \<and> a < b" for a b
    by (auto simp: attr_before_def at)
  have "distinct full"
    using assms(4) unfolding attr_ranked_def by (rule sorted_wrt_irrefl_distinct) auto
  moreover have "distinct (keys ?t)" by (simp add: attr_tally_eq wf_map_tally)
  moreover have "set (keys ?t) = set full"
    using set_keys_attr_tally [OF wf'] assms(3) by (simp add: carriers_order_free [OF assms(2)])
  ultimately have "mset (keys ?t) = mset full"
    by (metis set_eq_iff_mset_eq_distinct)
  moreover have "slice_sorted (attr_before ?t) full"
    using assms(4) unfolding attr_ranked_def slice_sorted_def
    by (rule sorted_wrt_mono_rel [rotated]) (auto simp: lt)
  moreover have "attrs.total_on_slice ?t (keys ?t)"
    by (auto simp: attrs.total_on_slice_def lt)
  ultimately have "sort_slice (attr_before ?t) (keys ?t) = full"
    by (rule attrs.sort_slice_determined)
  then show ?thesis
    by (simp add: mem_AttributeKeys_def Let_def take_if_longer clamp_limit_def del: length_sort_slice)
qed

theorem AttributeKeys_ranked_witness:
  "mem_AttributeKeys (mem_UpsertJobs mem_Open [zero_job\<lparr>job_Attributes := [(''tenant'', ''acme'')]\<rparr>]) 12 =
     [''tenant'']"
proof -
  let ?s = "mem_UpsertJobs mem_Open [zero_job\<lparr>job_Attributes := [(''tenant'', ''acme'')]\<rparr>]"
  have jobs: "ms_jobs ?s = [(''::'', stamped (zero_job\<lparr>job_Attributes := [(''tenant'', ''acme'')]\<rparr>))]"
    by (simp add: mem_UpsertJobs_def mem_Open_def upsert_job_def record_key_def KeyFor_def zero_job_def)
  have "set [''tenant''] = {k. 0 < carriers ?s k}" "attr_ranked ?s [''tenant'']"
    by (auto simp: carriers_def jobs stamped_def attr_ranked_def split: if_splits)
  moreover have "\<forall>(k, j) \<in> set (ms_jobs ?s). wf_map (job_Attributes j)"
    by (simp add: jobs stamped_def)
  ultimately show ?thesis
    using AttributeKeys_ranked [of ?s ?s "[''tenant'']" 12] by simp
qed

end
