(* ===== verification/Sql_Reads.thy ===== *)
theory Sql_Reads
  imports Sql_Refine Aggregate_Laws
begin

text \<open>
  What the queries of a SQL backend answer, against the in-memory store its database stands
  for. A dialect promises (locale \<open>sql_matching_laws\<close>) that a plain search term is searched
  for as a substring without regard to ASCII case, and that a plain attribute key names the
  attribute; both dialects keep the promise, for every engine.
\<close>

subsection \<open>Search terms\<close>

definition plain_term :: "string \<Rightarrow> bool" where
  "plain_term t \<longleftrightarrow> list_all (\<lambda>c. c \<noteq> CHR ''%'' \<and> c \<noteq> CHR ''_'' \<and> c \<noteq> CHR 0x5C) t"

abbreviation lower :: "string \<Rightarrow> string" where
  "lower \<equiv> map ascii_lower"

lemma like_any [simp]: "like_match esc [CHR ''%''] s"
  by (induction s) auto

lemma like_prefix:
  "plain_term t \<Longrightarrow> like_match esc (t @ [CHR ''%'']) s \<longleftrightarrow> HasPrefix (lower s) (lower t)"
proof (induction t arbitrary: s)
  case Nil
  show ?case by (simp add: HasPrefix_def del: like_match.simps)
next
  case (Cons c t)
  then show ?case by (cases s) (auto simp: plain_term_def HasPrefix_def)
qed

lemma like_contains:
  assumes "plain_term t"
  shows "like_match esc (CHR ''%'' # t @ [CHR ''%'']) s \<longleftrightarrow> Contains (lower s) (lower t)"
proof (induction s)
  case Nil
  show ?case by (simp add: like_prefix [OF assms] Contains.simps [of "[]"])
next
  case (Cons c s)
  then show ?case by (simp add: like_prefix [OF assms] Contains.simps [of "ascii_lower c # lower s"])
qed

locale sql_matching_laws =
  fixes d :: sql_dialect
  assumes like_plain: "plain_term t \<Longrightarrow> ascii t \<Longrightarrow> ascii s \<Longrightarrow>
      dl_like d (''%'' @ t @ ''%'') s \<longleftrightarrow> Contains (lower s) (lower t)"
    and attr_plain: "plain_label k \<Longrightarrow> dl_attr d m k = map_of m k"

lemma ascii_pattern: "ascii (''%'' @ t @ ''%'') \<longleftrightarrow> ascii t"
  by (simp add: ascii_def byte_def)

interpretation sqlite: sql_matching_laws "sqlite en" for en
  by unfold_locales (simp_all add: sqlite_def like_contains ascii_pattern [simplified] del: like_match.simps)

interpretation postgres: sql_matching_laws "postgres en" for en
  by unfold_locales (simp_all add: postgres_def like_contains ascii_pattern [simplified] del: like_match.simps)

subsection \<open>Splitting and lowering a search\<close>

lemma byte_lower: "byte (ascii_lower c) = (if 65 \<le> byte c \<and> byte c \<le> 90 then byte c + 32 else byte c)"
  by (simp add: ascii_lower_def byte_def)

lemma ascii_space_lower [simp]: "ascii_space (ascii_lower c) \<longleftrightarrow> ascii_space c"
  by (auto simp: ascii_space_def byte_lower)

lemma ascii_lower_ascii: "ascii s \<Longrightarrow> ascii (lower s)"
  by (auto simp: ascii_def list_all_iff byte_lower)

lemma ascii_fields_lower: "ascii_fields (lower cur) (lower s) = map lower (ascii_fields cur s)"
proof (induction s arbitrary: cur)
  case Nil
  show ?case by simp
next
  case (Cons c s)
  from Cons.IH [of "[]"] Cons.IH [of "cur @ [c]"] show ?case by simp
qed

lemma ascii_fields_chars: "t \<in> set (ascii_fields cur s) \<Longrightarrow> set t \<subseteq> set cur \<union> set s"
proof (induction s arbitrary: cur)
  case Nil
  then show ?case by (auto split: if_splits)
next
  case (Cons c s)
  show ?case
  proof (cases "ascii_space c")
    case True
    with Cons.prems have "t = cur \<or> t \<in> set (ascii_fields [] s)" by (auto split: if_splits)
    then show ?thesis using Cons.IH [of "[]"] by auto
  next
    case False
    with Cons.prems Cons.IH [of "cur @ [c]"] show ?thesis by auto
  qed
qed

text \<open>What a filter has to be for the backends to agree on it.\<close>

definition filter_plain :: "job_filter \<Rightarrow> bool" where
  "filter_plain f \<longleftrightarrow> ascii (f_Search f) \<and> plain_term (f_Search f) \<and>
     (f_AttrKey f \<noteq> [] \<longrightarrow> plain_label (f_AttrKey f)) \<and> time_ok (f_Before f)"

definition row_plain :: "sql_dialect \<Rightarrow> string \<times> job_row \<Rightarrow> bool" where
  "row_plain d = (\<lambda>(k, r). ascii (jr_id r) \<and> ascii (jr_name r) \<and> dl_json d (jr_attributes r) = jr_attributes r)"

lemma scanJob_row_job: "row_plain d (k, r) \<Longrightarrow> scanJob d k r = row_job k r"
  by (simp add: row_plain_def scanJob_def row_job_def read_attributes_def)

lemma before_iff:
  assumes "0 \<le> e" "time_ok t" "\<not> IsZero t"
  shows "e \<le> unix t \<longleftrightarrow> \<not> After (fromUnix e) t"
proof -
  from assms(2,3) have t: "0 \<le> t" "t div 1000 \<le> maxInt64" by (auto simp: time_ok_def IsZero_def)
  have "e \<le> t div 1000 \<longleftrightarrow> e * 1000 \<le> t"
    by linarith
  then show ?thesis
    using t assms(1) zeroTime_neg
    by (auto simp: unix_eq After_def fromUnix_def time_UnixMicro_def not_less pos_imp_zdiv_nonneg_iff)
qed

context sql_matching_laws
begin

lemma terms_iff:
  assumes "filter_plain f" "row_plain d (k, r)"
  shows "list_all (\<lambda>term. let like = ''%'' @ term @ ''%'' in dl_like d like (jr_id r) \<or> dl_like d like (jr_name r))
           (Fields uc (f_Search f)) \<longleftrightarrow>
         matchesTerms uc (row_job k r) (Fields uc (ToLower uc (f_Search f)))"
proof -
  have f: "ascii (f_Search f)" "plain_term (f_Search f)" and r: "ascii (jr_id r)" "ascii (jr_name r)"
    using assms by (simp_all add: filter_plain_def row_plain_def)
  have fields: "Fields uc (ToLower uc (f_Search f)) = map lower (Fields uc (f_Search f))"
    using f ascii_fields_lower [of "[]" "f_Search f"] by (simp add: Fields_def ToLower_def ascii_lower_ascii)
  have tm: "ascii t" "plain_term t" if "t \<in> set (Fields uc (f_Search f))" for t
  proof -
    have "set t \<subseteq> set (f_Search f)" using that f(1) ascii_fields_chars [of t "[]"] by (simp add: Fields_def)
    then show "ascii t" "plain_term t" using f by (auto simp: ascii_def plain_term_def list_all_iff)
  qed
  have "dl_like d (''%'' @ t @ ''%'') (jr_id r) \<or> dl_like d (''%'' @ t @ ''%'') (jr_name r) \<longleftrightarrow>
      Contains (ToLower uc (jr_id r)) (lower t) \<or> Contains (ToLower uc (jr_name r)) (lower t)"
    if "t \<in> set (Fields uc (f_Search f))" for t
    using like_plain [OF tm(2) [OF that] tm(1) [OF that]] r by (simp add: ToLower_def)
  then show ?thesis
    unfolding matchesTerms_def fields Let_def list_all_iff by (auto simp: row_job_def)
qed

lemma attribute_iff:
  assumes "filter_plain f" "row_plain d (k, r)"
  shows "(f_AttrKey f \<noteq> [] \<longrightarrow>
            (if f_AttrValue f = [] then dl_attr d (read_attributes d r) (f_AttrKey f) \<noteq> None
             else dl_attr d (read_attributes d r) (f_AttrKey f) = Some (f_AttrValue f))) \<longleftrightarrow>
         matchesAttribute (row_job k r) f"
  using assms
  by (auto simp: filter_plain_def row_plain_def attr_plain matchesAttribute_def row_job_def
      read_attributes_def split: option.splits)

lemma predicate_iff:
  assumes "filter_plain f" "row_plain d (k, r)" "row_ok (k, r)"
  shows "predicate d uc f r \<longleftrightarrow> job_matches uc f (Fields uc (ToLower uc (f_Search f))) (row_job k r)"
proof -
  have "0 \<le> jr_enqueued_at r" "time_ok (f_Before f)"
    using assms by (simp_all add: row_ok_def filter_plain_def)
  from before_iff [OF this] have
    "(\<not> IsZero (f_Before f) \<longrightarrow> jr_enqueued_at r \<le> unix (f_Before f)) \<longleftrightarrow>
     \<not> (\<not> IsZero (f_Before f) \<and> After (job_EnqueuedAt (row_job k r)) (f_Before f))"
    by (auto simp: row_job_def)
  then show ?thesis
    unfolding predicate_def job_matches_def terms_iff [OF assms(1,2)] attribute_iff [OF assms(1,2)]
    by (auto simp: row_job_def)
qed

lemma matching_agrees:
  assumes "db_ok id_of db" "stands_for db s" "filter_plain f" "list_all (row_plain d) (db_jobs db)"
  shows "map (scan d) (sql_matching d uc db f) = matching uc s f"
proof -
  have "predicate d uc f r \<longleftrightarrow> job_matches uc f (Fields uc (ToLower uc (f_Search f))) (row_job k r)"
      "scanJob d k r = row_job k r"
    if "(k, r) \<in> set (db_jobs db)" for k r
  proof -
    from that assms have "row_plain d (k, r)" "row_ok (k, r)" by (simp_all add: db_ok_def list_all_iff)
    then show "predicate d uc f r \<longleftrightarrow> job_matches uc f (Fields uc (ToLower uc (f_Search f))) (row_job k r)"
      "scanJob d k r = row_job k r"
      using predicate_iff [OF assms(3)] scanJob_row_job by blast+
  qed
  then have "map (scan d) (sql_matching d uc db f) =
      map (\<lambda>(k, r). row_job k r)
        (filter (\<lambda>(k, r). job_matches uc f (Fields uc (ToLower uc (f_Search f))) (row_job k r)) (db_jobs db))"
    unfolding sql_matching_def by (auto cong: filter_cong intro!: map_cong filter_cong)
  also have "\<dots> = matching uc s f"
    using assms(2)
    by (simp add: matching_def stands_for_def abs_jobs_def Let_def filter_map o_def case_prod_unfold)
  finally show ?thesis .
qed

end

subsection \<open>Sorting and grouping rows\<close>

lemma sort_slice_map:
  assumes "\<And>x y. x \<in> set xs \<Longrightarrow> y \<in> set xs \<Longrightarrow> lt' (f x) (f y) \<longleftrightarrow> lt x y"
  shows "sort_slice lt' (map f xs) = map f (sort_slice lt xs)"
proof -
  have sift: "sift lt' (f x) (map f ys) = map f (sift lt x ys)"
    if "x \<in> set xs" "set ys \<subseteq> set xs" for x ys
    using that by (induction ys) (auto simp: assms)
  have "foldl (\<lambda>acc x. sift lt' x acc) (map f acc) (map f zs) = map f (foldl (\<lambda>acc x. sift lt x acc) acc zs)"
    if "set acc \<subseteq> set xs" "set zs \<subseteq> set xs" for acc zs
    using that by (induction zs arbitrary: acc) (auto simp: sift)
  from this [of "[]" xs] show ?thesis by (simp add: sort_slice_def rev_map)
qed

lemma keys_update: "keys (AList.update k v m) = (if k \<in> set (keys m) then keys m else keys m @ [k])"
  by (induction m) auto

lemma keys_fold_tally_by:
  "keys (fold (tally_by key dflt bump) xs []) = rev (remdups (rev (map key xs)))"
proof (induction xs rule: rev_induct)
  case Nil
  show ?case by simp
next
  case (snoc x xs)
  have "set (keys (fold (tally_by key dflt bump) xs [])) = key ` set xs"
    using keys_tally_by [of key dflt bump xs "[]"] by simp
  with snoc show ?case by (simp add: tally_by_def keys_update)
qed

lemma tally_by_values:
  "map snd (fold (tally_by key dflt bump) xs []) =
     map (\<lambda>k. fold bump (filter (\<lambda>x. key x = k) xs) (dflt k)) (rev (remdups (rev (map key xs))))"
  unfolding keys_fold_tally_by [of key dflt bump xs, symmetric] map_map o_def
  by (rule map_cong [OF refl]) (use tally_by_entry(1) [of _ _ key dflt bump xs] in force)

lemma group_of_row: "row_ok (k, r) \<Longrightarrow> group_of (row_job k r) = (family_of r, jr_state r, jr_err r)"
  by (simp add: group_of_def row_job_def family_of_def)

lemma lastActive_row: "row_ok (k, r) \<Longrightarrow> lastActive (row_job k r) = fromUnix (row_active r)"
  by (simp add: lastActive_max row_job_def row_ok_def row_active_def fromUnix_max)

lemma Max_fromUnix:
  assumes "finite A" "A \<noteq> {}" "\<And>x. x \<in> A \<Longrightarrow> 0 \<le> x"
  shows "Max (insert zeroTime (fromUnix ` A)) = fromUnix (Max A)"
proof (rule Max_eqI)
  have max: "Max A \<in> A" "\<And>x. x \<in> A \<Longrightarrow> x \<le> Max A" using assms by auto
  have "zeroTime \<le> fromUnix x" if "0 \<le> x" for x
    using that zeroTime_neg by (simp add: fromUnix_def time_UnixMicro_def)
  then show "y \<le> fromUnix (Max A)" if "y \<in> insert zeroTime (fromUnix ` A)" for y
    using that max assms(3) by (auto simp: fromUnix_order)
  show "fromUnix (Max A) \<in> insert zeroTime (fromUnix ` A)" using max(1) by simp
qed (simp add: assms)

lemma aggregate_group:
  assumes "list_all row_ok rows" "gk \<in> set (group_keys rows)"
  defines "js \<equiv> map (\<lambda>(k, r). row_job k r) rows"
  shows "scan_group (aggregate rows gk) = fold bump_group (filter (\<lambda>j. group_of j = gk) js) (new_group gk)"
proof -
  let ?m = "filter (\<lambda>(_, r). (family_of r, jr_state r, jr_err r) = gk) rows"
  let ?A = "set (map (\<lambda>(_, r). row_active r) ?m)"
  have ok: "row_ok x" if "x \<in> set rows" for x using that assms(1) by (simp add: list_all_iff)
  have members: "filter (\<lambda>j. group_of j = gk) js = map (\<lambda>(k, r). row_job k r) ?m"
    unfolding js_def filter_map o_def
    by (rule arg_cong [where f = "map _"], rule filter_cong) (auto dest!: ok simp: group_of_row)
  have "?m \<noteq> []" using assms(2) by (auto simp: group_keys_def filter_empty_conv)
  then have A1: "?A \<noteq> {}" by (simp only: set_empty map_is_Nil_conv not_False_eq_True)
  have A2: "0 \<le> x" if "x \<in> ?A" for x
    using that ok by (auto simp: row_active_def row_ok_def le_max_iff_disj)
  have "lastActive ` set (map (\<lambda>(k, r). row_job k r) ?m) = fromUnix ` ?A"
    using ok by (force simp: image_iff lastActive_row)
  then have "grp_LastSeen (fold bump_group (filter (\<lambda>j. group_of j = gk) js) (new_group gk)) = fromUnix (Max ?A)"
    using Max_fromUnix [OF _ A1 A2] by (simp add: members fold_bump_group(3) del: set_map)
  moreover have "grp_Pattern (fold bump_group xs (new_group gk)) = fst gk \<and>
      grp_State (fold bump_group xs (new_group gk)) = fst (snd gk) \<and>
      grp_Err (fold bump_group xs (new_group gk)) = snd (snd gk)" for xs
    using fold_bump_group(1) [of xs "new_group gk"] by (metis family_def family_new_group fst_conv snd_conv)
  ultimately show ?thesis
    by (intro group.equality)
      (simp_all add: scan_group_def aggregate_def Let_def members fold_bump_group(2))
qed

text \<open>
  The rows a \<open>GROUP BY\<close> makes are the groups of the in-memory tally, and sorting them commutes
  with reading them, in whatever order they come.
\<close>

lemma group_rows_tally:
  assumes "list_all row_ok rows"
  defines "js \<equiv> map (\<lambda>(k, r). row_job k r) rows"
  shows "map snd (fold group_job js []) = map scan_group (map (aggregate rows) (group_keys rows))"
proof -
  have keys: "rev (remdups (rev (map group_of js))) = group_keys rows"
    unfolding group_keys_def js_def map_map o_def
    by (intro arg_cong [where f = rev] arg_cong [where f = remdups] map_cong refl)
      (use assms(1) in \<open>auto simp: list_all_iff group_of_row\<close>)
  show ?thesis
    unfolding group_job_tally tally_by_values keys map_map o_def
    by (rule map_cong [OF refl]) (simp add: aggregate_group [OF assms(1)] js_def)
qed

lemma group_row_seen:
  assumes "list_all row_ok rows" "z \<in> set (map (aggregate rows) (group_keys rows))"
  shows "0 \<le> gr_last_seen z"
proof -
  from assms(2) obtain gk where gk: "gk \<in> set (group_keys rows)" "z = aggregate rows gk" by auto
  let ?m = "filter (\<lambda>(_, r). (family_of r, jr_state r, jr_err r) = gk) rows"
  have "set (map (\<lambda>(_, r). row_active r) ?m) \<noteq> {}"
    using gk(1) by (auto simp: group_keys_def filter_empty_conv)
  then have "Max (set (map (\<lambda>(_, r). row_active r) ?m)) \<in> set (map (\<lambda>(_, r). row_active r) ?m)"
    by (intro Max_in) simp_all
  then show ?thesis
    using assms(1) by (auto simp: gk(2) aggregate_def Let_def list_all_iff row_active_def row_ok_def le_max_iff_disj)
qed

lemma groups_agree:
  assumes "list_all row_ok rows"
  defines "rs \<equiv> map (aggregate rows) (group_keys rows)"
    and "gs \<equiv> map snd (fold group_job (map (\<lambda>(k, r). row_job k r) rows) [])"
  shows "\<exists>ord'. map scan_group (sort_slice group_row_before (range_order ord rs)) =
                sort_slice group_before (range_order ord' gs)"
proof -
  have gs: "gs = map scan_group rs"
    using group_rows_tally [OF assms(1)] by (simp only: gs_def rs_def)
  have "group_before (scan_group x) (scan_group y) \<longleftrightarrow> group_row_before x y"
    if "x \<in> set rs" "y \<in> set rs" for x y
    using group_row_seen [OF assms(1), of x] group_row_seen [OF assms(1), of y] that
    by (simp add: rs_def group_before_def group_row_before_def scan_group_def After_def fromUnix_order)
  then have "map scan_group (sort_slice group_row_before (range_order ord rs)) =
      sort_slice group_before (map scan_group (range_order ord rs))"
    by (intro sort_slice_map [symmetric]) simp
  moreover have "mset (map scan_group (range_order ord rs)) = mset gs"
    by (simp add: gs del: mset_map) (simp only: mset_map mset_range_order)
  ultimately show ?thesis
    by (intro exI [where x = "\<lambda>_. map scan_group (range_order ord rs)"]) (simp only: range_order_is)
qed

subsection \<open>Listings\<close>

interpretation row_newer: slice_order row_newer
  unfolding row_newer_def by (rule slice_order_flip [OF slice_order_by_key])

definition answers :: "driver \<Rightarrow> bool" where
  "answers dr \<longleftrightarrow> dr_exec dr 0 = None \<and> dr_rows dr = None"

lemma sql_query_answers: "answers dr \<Longrightarrow> sql_query dr what x = Inr x"
  by (simp add: answers_def sql_query_def)

lemma row_job_in: "(k, r) \<in> set rows \<Longrightarrow> row_job k r \<in> (\<lambda>(k, r). row_job k r) ` set rows"
  by force

text \<open>Newest first, the rows are the listing of the in-memory store wherever times decide.\<close>

lemma newest_first_agrees:
  assumes "list_all row_ok rows"
  defines "js \<equiv> map (\<lambda>(k, r). row_job k r) rows"
  assumes "distinct (map job_EnqueuedAt js)"
  shows "map (\<lambda>(k, r). row_job k r) (sort_slice row_newer (rev rows)) = sort_slice job_newer js"
proof (rule newer.sort_slice_determined [symmetric])
  show "mset js = mset (map (\<lambda>(k, r). row_job k r) (sort_slice row_newer (rev rows)))"
    by (simp add: js_def)
  show "newer.total_on_slice js"
    unfolding newer.total_on_slice_def
    using assms(3) by (auto simp: job_newer_def After_def distinct_map inj_on_def)
  have "sorted_wrt (\<lambda>x y. \<not> row_newer y x) (sort_slice row_newer (rev rows))"
    using row_newer.sorted_sort_slice by (simp add: slice_sorted_def)
  then have "sorted_wrt (\<lambda>x y. \<not> job_newer (row_job (fst y) (snd y)) (row_job (fst x) (snd x)))
      (sort_slice row_newer (rev rows))"
  proof (rule sorted_wrt_mono_rel [rotated])
    fix x y assume xy: "x \<in> set (sort_slice row_newer (rev rows))" "y \<in> set (sort_slice row_newer (rev rows))"
      "\<not> row_newer y x"
    let ?a = "row_job (fst x) (snd x)" and ?b = "row_job (fst y) (snd y)"
    from xy have "x \<in> set rows" "y \<in> set rows" by simp_all
    then have "?a \<in> set js" "?b \<in> set js" and ok: "row_ok x" "row_ok y"
      using assms(1) by (auto simp: js_def case_prod_unfold list_all_iff)
    then have same: "job_EnqueuedAt ?b = job_EnqueuedAt ?a \<Longrightarrow> ?b = ?a"
      using assms(3) by (simp add: distinct_map inj_on_def)
    have "job_EnqueuedAt ?b \<le> job_EnqueuedAt ?a"
      using ok xy(3) by (auto simp: row_newer_def row_job_def row_ok_def fromUnix_order case_prod_unfold)
    then show "\<not> job_newer ?b ?a"
      using same newer.irrefl [of ?a] by (cases "job_EnqueuedAt ?b = job_EnqueuedAt ?a") (auto simp: job_newer_def After_def)
  qed
  then show "slice_sorted job_newer (map (\<lambda>(k, r). row_job k r) (sort_slice row_newer (rev rows)))"
    by (simp add: slice_sorted_def sorted_wrt_map case_prod_unfold)
qed

end
