(* ===== verification/Sql_Backends.thy ===== *)
theory Sql_Backends
  imports Sql_Reads
begin

text \<open>
  The Postgres backend by name (the SQLite backend is the generic code under the dialect
  \<open>sqlite\<close>), and the properties of both: along any run with failures a database stands for
  the in-memory store after the operations that succeeded, and its queries answer what that
  store answers.
\<close>

subsection \<open>Opening SQLite\<close>

text \<open>What \<open>sql.Open\<close> returned and how the driver takes the pragmas are arguments.\<close>

definition sqlite_Open :: "string + 'd \<Rightarrow> ('d \<Rightarrow> string option) \<Rightarrow> string + 'd" where
  "sqlite_Open opened pragma =
     (case opened of
        Inl err \<Rightarrow> Inl (''sqlite: open: '' @ err)
      | Inr db \<Rightarrow> (case pragma db of Some err \<Rightarrow> Inl (''sqlite: pragma: '' @ err) | None \<Rightarrow> Inr db))"

subsection \<open>Postgres\<close>

text \<open>The tables the schema creates, empty.\<close>

definition pg_New :: sql_db where "pg_New = sql_New"

definition pg_Migrate where "pg_Migrate en = sql_Migrate (postgres en)"
definition pg_UpsertJobs where "pg_UpsertJobs en = sql_UpsertJobs (postgres en)"
definition pg_SaveAttempts where "pg_SaveAttempts en = sql_SaveAttempts (postgres en)"
definition pg_Heartbeat where "pg_Heartbeat en = sql_Heartbeat (postgres en)"
definition pg_ReconcileEpoch where "pg_ReconcileEpoch en = sql_ReconcileEpoch (postgres en)"
definition pg_Prune where "pg_Prune en = sql_Prune (postgres en)"
definition pg_predicate where "pg_predicate en = predicate (postgres en)"
definition pg_Jobs where "pg_Jobs en = sql_Jobs (postgres en)"
definition pg_CountJobs where "pg_CountJobs en = sql_CountJobs (postgres en)"
definition pg_GroupJobs where "pg_GroupJobs en = sql_GroupJobs (postgres en)"
definition pg_Timeline where "pg_Timeline en = sql_Timeline (postgres en)"
definition pg_AttributeKeys where "pg_AttributeKeys en = sql_AttributeKeys (postgres en)"
definition pg_Job where "pg_Job en = sql_Job (postgres en)"
definition pg_Lineage where "pg_Lineage en = sql_Lineage (postgres en)"
definition pg_Counts where "pg_Counts en = sql_Counts (postgres en)"

text \<open>
  The conflict clause and the conversions of \<open>postgres.go\<close>, which spell the maximum
  \<open>GREATEST\<close> and read \<open>JSONB\<close> as bytes.
\<close>

definition pg_upsert_set where "pg_upsert_set = upsert_set"
definition pg_scanJob where "pg_scanJob en = scanJob (postgres en)"
definition pg_unix where "pg_unix = unix"
definition pg_fromUnix where "pg_fromUnix = fromUnix"

lemmas pg_defs =
  pg_New_def pg_Migrate_def pg_UpsertJobs_def pg_SaveAttempts_def pg_Heartbeat_def pg_ReconcileEpoch_def
  pg_Prune_def pg_predicate_def pg_Jobs_def pg_CountJobs_def pg_GroupJobs_def pg_Timeline_def
  pg_AttributeKeys_def pg_Job_def pg_Lineage_def pg_Counts_def pg_upsert_set_def pg_scanJob_def
  pg_unix_def pg_fromUnix_def

subsection \<open>Queries\<close>

context sql_matching_laws
begin

lemma CountJobs_agrees:
  assumes "db_ok id_of db" "stands_for db s" "filter_plain f" "list_all (row_plain d) (db_jobs db)" "answers dr"
  shows "sql_CountJobs d uc dr db f = Inr (mem_CountJobs uc s f)"
  using matching_agrees [OF assms(1-4), of uc, THEN arg_cong [where f = length]] assms(5)
  by (simp add: sql_CountJobs_def mem_CountJobs_def answers_def)

lemma rows_matching:
  assumes "db_ok id_of db" "list_all (row_plain d) (db_jobs db)"
  shows "list_all row_ok (sql_matching d uc db f)"
    and "map (scan d) (sql_matching d uc db f) = map (\<lambda>(k, r). row_job k r) (sql_matching d uc db f)"
    and "x \<in> set (sql_matching d uc db f) \<Longrightarrow> scan d x = (\<lambda>(k, r). row_job k r) x"
  using assms by (auto simp: sql_matching_def db_ok_def list_all_iff scanJob_row_job)

lemma GroupJobs_agrees:
  assumes "db_ok id_of db" "stands_for db s" "filter_plain f" "list_all (row_plain d) (db_jobs db)" "answers dr"
  shows "\<exists>ord. sql_GroupJobs d uc dr db f limit = Inr (mem_GroupJobs ord uc s f limit)"
proof -
  let ?rows = "sql_matching d uc db f"
  have js: "map (\<lambda>(k, r). row_job k r) ?rows = matching uc s f"
    using matching_agrees [OF assms(1-4), of uc] rows_matching(2) [OF assms(1,4), of uc f] by simp
  from groups_agree [OF rows_matching(1) [OF assms(1,4), of uc f], of "dl_groups d"]
  obtain ord where "map scan_group (sort_slice group_row_before
        (range_order (dl_groups d) (map (aggregate ?rows) (group_keys ?rows)))) =
      sort_slice group_before (range_order ord (map snd (fold group_job (matching uc s f) [])))"
    unfolding js by blast
  then have "sql_GroupJobs d uc dr db f limit = Inr (mem_GroupJobs ord uc s f limit)"
    using assms(5)
    by (simp add: sql_GroupJobs_def mem_GroupJobs_def Let_def sql_query_answers take_if_longer take_map [symmetric])
  then show ?thesis by blast
qed

lemma Jobs_agrees:
  assumes "db_ok id_of db" "stands_for db s" "filter_plain f" "list_all (row_plain d) (db_jobs db)" "answers dr"
    and "0 \<le> f_Offset f" "distinct (map job_EnqueuedAt (matching uc s f))"
  shows "\<exists>js. sql_Jobs d uc dr db f = Inr js \<and> mem_Jobs uc s f = Inr js"
proof -
  let ?rows = "sql_matching d uc db f"
  have js: "map (\<lambda>(k, r). row_job k r) ?rows = matching uc s f"
    using matching_agrees [OF assms(1-4), of uc] rows_matching(2) [OF assms(1,4), of uc f] by simp
  have "map (scan d) (sort_slice row_newer (rev ?rows)) = sort_slice job_newer (matching uc s f)"
  proof -
    have "map (scan d) (sort_slice row_newer (rev ?rows)) =
        map (\<lambda>(k, r). row_job k r) (sort_slice row_newer (rev ?rows))"
      by (rule map_cong [OF refl]) (simp add: rows_matching(3) [OF assms(1,4), of _ uc f])
    then show ?thesis
      using newest_first_agrees [OF rows_matching(1) [OF assms(1,4), of uc f]] assms(7) by (simp add: js)
  qed
  then have "sql_Jobs d uc dr db f = Inr (take (nat (clamp_limit 500 100 (f_Limit f)))
      (drop (nat (f_Offset f)) (sort_slice job_newer (matching uc s f))))"
    using assms(5) by (simp add: sql_Jobs_def Let_def sql_query_answers take_map [symmetric] drop_map [symmetric])
  moreover have "mem_Jobs uc s f = Inr (take (nat (clamp_limit 500 100 (f_Limit f)))
      (drop (nat (f_Offset f)) (sort_slice job_newer (matching uc s f))))"
    using assms(6) by (auto simp: mem_Jobs_def Let_def nat_le_iff)
  ultimately show ?thesis by blast
qed

end

lemma Counts_agrees: "stands_for db s \<Longrightarrow> answers dr \<Longrightarrow> sql_Counts d dr db = Inr (mem_Counts s)"
  by (simp add: sql_Counts_def mem_Counts_def sql_query_answers stands_for_def abs_jobs_def o_def
      case_prod_unfold row_job_def)

subsection \<open>Timeline\<close>

text \<open>The errors of the in-memory store as the SQL backends report them.\<close>

fun as_sql_error :: "mem_error \<Rightarrow> sql_error" where
  "as_sql_error ErrNotFound = NoRows []"
| "as_sql_error ErrBucketLimit = BucketLimit"
| "as_sql_error (MemPanic p) = SqlPanic p"

lemma slot_of_micros:
  fixes a w :: int
  assumes "0 \<le> a" "0 < w"
  shows "(a * 1000) div (1000 * w) = a div w"
  using assms by (simp add: mult.commute)

lemma int_div_div_1000: "(t::int) div 1000 div w = t div (1000 * w)" if "0 < w"
  using that by (simp add: zdiv_zmult2_eq)

text \<open>A window and a bucket width of whole microseconds, the window starting after the first bucket.\<close>

definition micro_window :: "gotime \<Rightarrow> duration \<Rightarrow> int \<Rightarrow> int \<Rightarrow> bool" where
  "micro_window since bucket start w \<longleftrightarrow>
     bucket = 1000 * w \<and> 0 < w \<and> since = 1000 * start \<and> bucket \<le> since \<and> since \<le> maxInt64"

lemma micro_window_start:
  assumes "micro_window since bucket start w"
  shows "w \<le> start" "0 < start" "unix since = start"
proof -
  show "w \<le> start" "0 < start" using assms by (auto simp: micro_window_def)
  then show "unix since = start" using assms by (auto simp: micro_window_def unix_eq)
qed

lemma row_in_window:
  assumes "micro_window since bucket start w" "row_ok (k, r)" "row_active r * 1000 \<le> maxInt64"
  shows "in_window since (row_job k r) \<and> time_slot bucket (row_job k r) = n \<longleftrightarrow>
         jr_state_rank r = 3 \<and> start \<le> row_active r \<and> row_active r sdiv w = n"
proof -
  note start = micro_window_start [OF assms(1)]
  have w: "bucket = 1000 * w" "0 < w" "since = 1000 * start" using assms(1) by (auto simp: micro_window_def)
  have a: "0 \<le> row_active r" using assms(2) by (auto simp: row_ok_def row_active_def le_max_iff_disj)
  have "Terminal (job_State (row_job k r)) \<longleftrightarrow> jr_state_rank r = 3"
    using assms(2) by (auto simp: row_ok_def Terminal_def row_job_def)
  moreover have "since \<le> fromUnix (row_active r) \<longleftrightarrow> start \<le> row_active r"
    using start w(3) zeroTime_neg by (auto simp: fromUnix_def time_UnixMicro_def)
  moreover have "UnixNano (fromUnix (row_active r)) sdiv bucket = row_active r sdiv w" if "start \<le> row_active r"
  proof -
    have "fromUnix (row_active r) = row_active r * 1000"
      using that start by (simp add: fromUnix_def time_UnixMicro_def)
    then show ?thesis
      using a w assms(3) by (simp add: sdiv_UnixNano sdiv_nonneg slot_of_micros)
  qed
  ultimately show ?thesis
    by (auto simp: in_window_def time_slot_def lastActive_row [OF assms(2)])
qed

lemma slot_jobs_rows:
  assumes "micro_window since bucket start w" "list_all row_ok (db_jobs db)"
    and "list_all (\<lambda>(_, r). row_active r * 1000 \<le> maxInt64) (db_jobs db)" "stands_for db s"
  shows "map job_State (slot_jobs s since bucket n) =
         map jr_state (filter (\<lambda>r. row_active r sdiv w = n) (timeline_rows db start))"
proof -
  have "(\<lambda>(k, r). in_window since (row_job k r) \<and> time_slot bucket (row_job k r) = n) x \<longleftrightarrow>
      (\<lambda>(_, r). jr_state_rank r = 3 \<and> start \<le> row_active r \<and> row_active r sdiv w = n) x"
    if "x \<in> set (db_jobs db)" for x
    using that assms(2,3) row_in_window [OF assms(1), of "fst x" "snd x" n]
    by (simp add: list_all_iff case_prod_unfold)
  then have "filter (\<lambda>(k, r). in_window since (row_job k r) \<and> time_slot bucket (row_job k r) = n) (db_jobs db) =
      filter (\<lambda>(_, r). jr_state_rank r = 3 \<and> start \<le> row_active r \<and> row_active r sdiv w = n) (db_jobs db)"
    by (rule filter_cong [OF refl])
  then have "filter (\<lambda>j. in_window since j \<and> time_slot bucket j = n) (map snd (ms_jobs s)) =
      map (\<lambda>(k, r). row_job k r) (filter (\<lambda>(_, r). jr_state_rank r = 3 \<and> start \<le> row_active r \<and>
        row_active r sdiv w = n) (db_jobs db))"
    using assms(4) by (simp add: stands_for_def abs_jobs_def filter_map o_def case_prod_unfold)
  then show ?thesis
    by (simp add: slot_jobs_def timeline_rows_def filter_map o_def case_prod_unfold row_job_def conj_assoc)
qed

lemma length_filter_map_eq:
  assumes "map f xs = map g ys"
  shows "length (filter (\<lambda>x. P (f x)) xs) = length (filter (\<lambda>y. P (g y)) ys)"
proof -
  have "length (filter P (map f xs)) = length (filter P (map g ys))" by (simp only: assms)
  then show ?thesis by (simp add: filter_map o_def)
qed

lemma bucket_agrees:
  assumes "micro_window since bucket start w" "list_all row_ok (db_jobs db)"
    and "list_all (\<lambda>(_, r). row_active r * 1000 \<le> maxInt64) (db_jobs db)" "stands_for db s"
    and "start div w \<le> n" "n * bucket \<le> maxInt64"
  shows "(case map_of (fold (timeline_job since bucket) (map snd (ms_jobs s)) []) n of
            Some found \<Rightarrow> found | None \<Rightarrow> empty_bucket bucket n) =
         slot_bucket (timeline_rows db start) w n"
proof -
  have w: "bucket = 1000 * w" "0 < w" using assms(1) by (auto simp: micro_window_def)
  have "0 < start div w" using micro_window_start [OF assms(1)] w(2) by (simp add: pos_imp_zdiv_pos_iff)
  then have pos: "0 < n * w" using w(2) assms(5) by simp
  then have "int64 (n * w) = n * w" "int64 (n * bucket) = n * w * 1000"
    using assms(6) w by (simp_all add: int64_id algebra_simps)
  with pos have "int64 (n * bucket) = fromUnix (int64 (n * w))"
    by (auto simp: fromUnix_def time_UnixMicro_def)
  moreover note slots = slot_jobs_rows [OF assms(1-4), of n]
  note length_filter_map_eq [OF slots, of "\<lambda>st. st = StateCompleted"]
    length_filter_map_eq [OF slots, of "\<lambda>st. st \<in> set FailureStates"]
  ultimately show ?thesis
    by (simp add: timeline_bucket slot_bucket_def Let_def StateCompleted_def)
qed

lemma slot_bucket_empty:
  "n \<notin> set (map (\<lambda>r. row_active r sdiv w) rows) \<Longrightarrow>
   slot_bucket rows w n = \<lparr>bkt_Start = fromUnix (int64 (n * w)), bkt_Completed = 0, bkt_Failed = 0\<rparr>"
  by (simp add: slot_bucket_def Let_def filter_empty_conv image_iff) (metis)

lemma Timeline_agrees:
  assumes "micro_window since bucket start w" "db_ok id_of db"
    and "list_all (\<lambda>(_, r). row_active r * 1000 \<le> maxInt64) (db_jobs db)" "stands_for db s"
    and "answers dr" "0 \<le> now'" "now' \<le> maxInt64"
  shows "sql_Timeline d dr now now' db since bucket =
         map_sum as_sql_error id (mem_Timeline now now' s since bucket)"
proof -
  note start = micro_window_start [OF assms(1)]
  have w: "bucket = 1000 * w" "0 < w" and since: "since = 1000 * start" "since \<le> maxInt64"
    using assms(1) by (auto simp: micro_window_def)
  let ?first = "start div w" and ?last = "now' div bucket"
  have first: "UnixNano since sdiv bucket = ?first" "start sdiv w = ?first"
    using start since w by (simp_all add: sdiv_UnixNano sdiv_nonneg)
  have last: "UnixNano now' sdiv bucket = ?last" "unix now' sdiv w = ?last"
  proof -
    show "UnixNano now' sdiv bucket = ?last" using assms(6,7) w by (simp add: sdiv_UnixNano)
    have "unix now' = now' div 1000" using assms(6,7) by (simp add: unix_eq)
    then show "unix now' sdiv w = ?last"
      using assms(6) w by (simp add: sdiv_nonneg pos_imp_zdiv_nonneg_iff int_div_div_1000)
  qed
  have widths: "Microseconds bucket = w" "0 < bucket" using w by (simp_all add: Microseconds_def sdiv_nonneg)
  let ?sql = "\<lambda>n. if n \<in> set (map (\<lambda>r. row_active r sdiv w) (timeline_rows db start))
      then slot_bucket (timeline_rows db start) w n
      else \<lparr>bkt_Start = fromUnix (int64 (n * w)), bkt_Completed = 0, bkt_Failed = 0\<rparr>"
  let ?mem = "\<lambda>n. case map_of (fold (timeline_job since bucket) (map snd (ms_jobs s)) []) n of
      Some found \<Rightarrow> found | None \<Rightarrow> empty_bucket bucket n"
  have "?sql n = ?mem n" if "n \<in> set [?first..?last]" for n
  proof -
    have "n * bucket \<le> ?last * bucket" using that widths(2) by (intro mult_right_mono) auto
    also have "\<dots> \<le> maxInt64"
      using assms(7) div_mult_mod_eq [of now' bucket] pos_mod_sign [OF widths(2), of now'] by linarith
    finally show ?thesis
      using bucket_agrees [OF assms(1) _ assms(3,4), of n] assms(2) that slot_bucket_empty
      by (simp add: db_ok_def)
  qed
  then have buckets: "map ?sql [?first..?last] = map ?mem [?first..?last]" by (rule map_cong [OF refl])
  have zero: "\<not> IsZero since" "start \<noteq> 0" "w \<noteq> 0" "\<not> bucket \<le> 0" using start since w by auto
  have "sql_Timeline d dr now now' db since bucket =
      (if time_Sub now since sdiv bucket > maxBuckets then Inl BucketLimit
       else if ?last - ?first + 1 < 0 then Inl (SqlPanic MakeSliceCap) else Inr (map ?sql [?first..?last]))"
    unfolding sql_Timeline_def Let_def if_not_P [OF zero(4)] widths(1) start(3) first last
      sql_query_answers [OF assms(5)] using zero(2,3) by simp
  moreover have "mem_Timeline now now' s since bucket =
      (if time_Sub now since sdiv bucket > maxBuckets then Inl ErrBucketLimit
       else if ?last - ?first + 1 < 0 then Inl (MemPanic MakeSliceCap) else Inr (map ?mem [?first..?last]))"
    unfolding mem_Timeline_def Let_def if_not_P [OF zero(4)] first last using zero(1) by simp
  ultimately show ?thesis unfolding buckets by simp
qed

subsection \<open>Where the backends part\<close>

text \<open>
  Below a microsecond a bucket has width zero, and a quiet database makes the code divide by
  it. The zero time as a start, answered with no buckets by the in-memory store, exceeds the
  bucket limit here: the order of the two tests differs.
\<close>

lemma sql_Timeline_tiny_bucket:
  "sql_Timeline d quiet (2 * Microsecond) (2 * Microsecond) sql_New Microsecond 500 = Inl (SqlPanic DivideByZero)"
  by (simp add: sql_Timeline_def Let_def time_Sub_def maxBuckets_def Microseconds_def signed_divide_int_def
      unix_eq sql_query_def quiet_def timeline_rows_def sql_New_def)

lemma Timeline_zero_since:
  "sql_Timeline d quiet 0 0 sql_New zeroTime Minute = Inl BucketLimit \<and>
   mem_Timeline 0 0 mem_Open zeroTime Minute = Inr []"
  by (simp add: sql_Timeline_def mem_Timeline_def Let_def time_Sub_def maxBuckets_def zeroTime_def IsZero_def
      signed_divide_int_def)

text \<open>The attempts read back have lost their queue.\<close>

lemma sql_Job_drops_queue:
  "sql_Job d dr db key = Inr (j, as) \<Longrightarrow> a \<in> set as \<Longrightarrow> att_Queue a = []"
  by (auto simp: sql_Job_def Let_def scan_attempt_def zero_attempt_def split: option.splits prod.splits)

text \<open>An underscore in a search term is a wildcard for the SQL backends only.\<close>

lemma search_wildcard:
  "dl_like (sqlite en) ''%a_b%'' ''a-b'' \<and> dl_like (postgres en) ''%a_b%'' ''a-b'' \<and> \<not> Contains ''a-b'' ''a_b''"
proof -
  have "ascii ''%a_b%''" "ascii ''a-b''" by (simp_all add: ascii_def byte_def)
  moreover have "\<not> Contains ''a-b'' ''a_b''" by (simp add: Contains.simps HasPrefix_def)
  ultimately show ?thesis by (simp add: sqlite_def postgres_def)
qed

subsection \<open>Properties\<close>

text \<open>
  C2. The SQL backends refine the in-memory store. Run any sequence of writes against an
  empty SQLite or Postgres database, each against a driver that may fail at any of its calls.
  The database then stands for the in-memory store to which exactly the writes that reported
  success were applied, with every time cut to microseconds: the same rows under the same
  keys in the same order, the same heartbeats, the same attempts. (Times are unset or after
  1970, the key of an attempt's job determines its ID, and the driver counts affected rows.)
\<close>

theorem sql_simulates_memory:
  assumes "list_all (\<lambda>(dr, opn). dr_rows dr = None \<and> op_ok id_of opn) ops"
    and "sql_run d ops sql_New = (succeeded, db)"
  shows "db_ok id_of db \<and> stands_for db (fold apply_op (map canon_op succeeded) mem_Open)"
  using sql_run_simulates [OF assms db_ok_New stands_for_New] .

definition demo_engine :: sql_engine where
  "demo_engine = \<lparr>en_like = (\<lambda>_ _. False), en_path = (\<lambda>_ _. None), en_json = id,
     en_groups = rev, en_keys = rev\<rparr>"

definition demo_row :: job where
  "demo_row = zero_job\<lparr>job_ID := ''7'', job_Epoch := ''a'', job_State := StateFailed, job_EnqueuedAt := 5001\<rparr>"

definition demo_run :: "(driver \<times> store_op) list" where
  "demo_run = [(quiet, OpUpsert [demo_row]), (quiet\<lparr>dr_commit := Some ''disk full''\<rparr>, OpHeartbeat ''a'' 9000),
     (quiet\<lparr>dr_commit := Some ''disk full''\<rparr>, OpUpsert [demo_row\<lparr>job_ID := ''8''\<rparr>])]"

lemma demo_row_ok: "job_ok demo_row" "job_ok (demo_row\<lparr>job_ID := i\<rparr>)"
  by (simp_all add: job_ok_def time_ok_def demo_row_def zero_job_def)

lemma canon_demo_row: "canon_job demo_row = demo_row\<lparr>job_EnqueuedAt := 5000\<rparr>"
proof -
  have "canon_time zeroTime = zeroTime" by (simp add: canon_time_def unix_def IsZero_def fromUnix_def)
  then show ?thesis
    by (simp add: canon_job_def demo_row_def zero_job_def)
      (simp add: canon_time_def unix_eq fromUnix_def time_UnixMicro_def)
qed

lemma demo_run_ok: "list_all (\<lambda>(dr, opn). dr_rows dr = None \<and> op_ok id opn) demo_run"
  by (simp add: demo_run_def quiet_def demo_row_ok time_ok_def)

theorem sql_simulates_memory_witness:
  "fst (sql_run (sqlite demo_engine) demo_run sql_New) = [OpUpsert [demo_row], OpHeartbeat ''a'' 9000] \<and>
   stands_for (snd (sql_run (sqlite demo_engine) demo_run sql_New))
     (mem_Heartbeat (mem_UpsertJobs mem_Open [demo_row\<lparr>job_EnqueuedAt := 5000\<rparr>]) ''a'' 9000)"
proof -
  have run: "fst (sql_run (sqlite demo_engine) demo_run sql_New) = [OpUpsert [demo_row], OpHeartbeat ''a'' 9000]"
    by (simp add: demo_run_def sql_UpsertJobs_def sql_Heartbeat_def in_tx_def quiet_def Let_def
        split: sum.splits prod.splits)
  have "canon_time 9000 = 9000" by (simp add: canon_time_def unix_eq fromUnix_def time_UnixMicro_def)
  then show ?thesis
    using sql_simulates_memory [OF demo_run_ok, where d = "sqlite demo_engine", OF prod.collapse [symmetric]] run
    by (simp add: canon_demo_row)
qed

text \<open>
  C24. The backends answer alike. Over a database and the in-memory store it stands for,
  SQLite and Postgres count and tally the same jobs as the in-memory store, list the same page
  wherever the enqueue times decide the order, and group the jobs as the in-memory store does
  for some order in which its map yields the groups; where no two groups have the same count
  and last activity, that is the same list whatever the order. Groups of equal rank may come
  in a different order, and a limit may cut between them differently. (Search terms without
  the characters special to \<open>LIKE\<close>, attribute keys without those special to a JSON path, names
  and IDs in ASCII, attributes that JSON reads back as written.)
\<close>

theorem sql_queries_agree:
  assumes "d = sqlite en \<or> d = postgres en"
    and "db_ok id_of db" "stands_for db s" "filter_plain f" "list_all (row_plain d) (db_jobs db)" "answers dr"
  shows "sql_CountJobs d uc dr db f = Inr (mem_CountJobs uc s f) \<and>
         sql_Counts d dr db = Inr (mem_Counts s) \<and>
         (\<exists>ord. sql_GroupJobs d uc dr db f limit = Inr (mem_GroupJobs ord uc s f limit)) \<and>
         (groups_untied uc s f \<longrightarrow>
            (\<forall>ord. sql_GroupJobs d uc dr db f limit = Inr (mem_GroupJobs ord uc s f limit))) \<and>
         (0 \<le> f_Offset f \<and> distinct (map job_EnqueuedAt (matching uc s f)) \<longrightarrow>
            (\<exists>js. sql_Jobs d uc dr db f = Inr js \<and> mem_Jobs uc s f = Inr js))"
proof -
  have laws: "sql_matching_laws d"
    using assms(1) sqlite.sql_matching_laws_axioms postgres.sql_matching_laws_axioms by blast
  obtain ord where grouped: "sql_GroupJobs d uc dr db f limit = Inr (mem_GroupJobs ord uc s f limit)"
    using sql_matching_laws.GroupJobs_agrees [OF laws assms(2-6)] by blast
  then have "\<forall>ord. sql_GroupJobs d uc dr db f limit = Inr (mem_GroupJobs ord uc s f limit)"
    if "groups_untied uc s f"
    using GroupJobs_untied [OF that] by metis
  with grouped show ?thesis
    using sql_matching_laws.CountJobs_agrees [OF laws assms(2-6)]
      sql_matching_laws.Jobs_agrees [OF laws assms(2-6)] Counts_agrees [OF assms(3,6)]
    by blast
qed

theorem sql_queries_agree_witness:
  "let uc = \<lparr>uc_lower = id, uc_fields = (\<lambda>_. [])\<rparr>;
       db = sql_New\<lparr>db_jobs := upsert_exec demo_row []\<rparr>;
       s = mem_UpsertJobs mem_Open [demo_row\<lparr>job_EnqueuedAt := 5000\<rparr>];
       f = zero_filter\<lparr>f_Search := ''7''\<rparr>
   in sql_CountJobs (sqlite demo_engine) uc quiet db f = Inr (mem_CountJobs uc s f) \<and>
      (\<forall>ord. sql_GroupJobs (sqlite demo_engine) uc quiet db f 50 = Inr (mem_GroupJobs ord uc s f 50))"
proof -
  let ?uc = "\<lparr>uc_lower = id, uc_fields = (\<lambda>_. [])\<rparr> :: go_unicode"
  let ?db = "sql_New\<lparr>db_jobs := upsert_exec demo_row []\<rparr>"
  let ?s = "mem_UpsertJobs mem_Open [demo_row\<lparr>job_EnqueuedAt := 5000\<rparr>]"
  let ?f = "zero_filter\<lparr>f_Search := ''7''\<rparr>"
  have "sql_UpsertJobs (sqlite demo_engine) quiet sql_New [demo_row] = (None, ?db)"
    by (simp add: sql_UpsertJobs_def in_tx_def quiet_def) (simp add: sql_New_def)
  from Upsert_simulates [OF this db_ok_New stands_for_New, of id]
  have ok: "db_ok id ?db" "stands_for ?db ?s"
    by (simp_all add: canon_demo_row demo_row_ok)
  have "filter_plain ?f"
    by (simp add: filter_plain_def ascii_def byte_def plain_term_def zero_filter_def time_ok_def)
  moreover have "list_all (row_plain (sqlite demo_engine)) (db_jobs ?db)"
    by (simp add: upsert_exec_def row_plain_def sql_values_def demo_row_def zero_job_def ascii_def byte_def
        sqlite_def demo_engine_def)
  moreover have "answers quiet" by (simp add: answers_def quiet_def)
  moreover have "groups_untied ?uc ?s ?f"
    by (simp add: groups_untied_def matching_def mem_UpsertJobs_def mem_Open_def upsert_job_def group_job_def Let_def)
  ultimately show ?thesis
    using sql_queries_agree [of "sqlite demo_engine" demo_engine id ?db ?s ?f quiet ?uc 50] ok by (simp add: Let_def)
qed

text \<open>
  C25. The throughput timeline of a SQL backend is that of the in-memory store it stands for,
  bucket by bucket, and refuses what that store refuses with the corresponding error, for a
  window that starts at least one bucket after 1970 on a whole microsecond, a positive bucket
  of whole microseconds, and times that fit in 64 bits of nanoseconds. (A zero start, on which
  the backends differ when the range is absurd, is outside these bounds.)
\<close>

theorem sql_timeline_agrees:
  assumes "db_ok id_of db" "stands_for db s" "answers dr"
    and "list_all (\<lambda>(_, r). row_active r * 1000 \<le> maxInt64) (db_jobs db)"
    and "0 < w" "w \<le> start" "1000 * start \<le> maxInt64" "0 \<le> now'" "now' \<le> maxInt64"
  shows "sql_Timeline d dr now now' db (1000 * start) (1000 * w) =
         map_sum as_sql_error id (mem_Timeline now now' s (1000 * start) (1000 * w))"
  by (rule Timeline_agrees [OF _ assms(1,4,2,3,8,9)]) (use assms(5-7) in \<open>simp add: micro_window_def\<close>)

theorem sql_timeline_agrees_witness:
  "let db = sql_New\<lparr>db_jobs := upsert_exec demo_row []\<rparr>;
       s = mem_UpsertJobs mem_Open [demo_row\<lparr>job_EnqueuedAt := 5000\<rparr>]
   in sql_Timeline (postgres demo_engine) quiet 7000 7000 db 2000 1000 =
      map_sum as_sql_error id (mem_Timeline 7000 7000 s 2000 1000) \<and>
      map_sum id (map bkt_Failed) (sql_Timeline (postgres demo_engine) quiet 7000 7000 db 2000 1000) =
      Inr [0, 0, 0, 1, 0, 0]"
proof -
  let ?db = "sql_New\<lparr>db_jobs := upsert_exec demo_row []\<rparr>"
  let ?s = "mem_UpsertJobs mem_Open [demo_row\<lparr>job_EnqueuedAt := 5000\<rparr>]"
  have "sql_UpsertJobs (postgres demo_engine) quiet sql_New [demo_row] = (None, ?db)"
    by (simp add: sql_UpsertJobs_def in_tx_def quiet_def) (simp add: sql_New_def)
  from Upsert_simulates [OF this db_ok_New stands_for_New, of id]
  have ok: "db_ok id ?db" "stands_for ?db ?s" by (simp_all add: canon_demo_row demo_row_ok)
  have "unix zeroTime = 0" by (simp add: unix_def IsZero_def)
  then have "list_all (\<lambda>(_, r). row_active r * 1000 \<le> maxInt64) (db_jobs ?db)"
    by (simp add: upsert_exec_def sql_values_def demo_row_def zero_job_def row_active_def unix_eq IsZero_def)
  from sql_timeline_agrees [OF ok _ this, where w = 1 and start = 2 and now' = 7000 and dr = quiet and
      d = "postgres demo_engine" and now = 7000]
  have eq: "sql_Timeline (postgres demo_engine) quiet 7000 7000 ?db 2000 1000 =
      map_sum as_sql_error id (mem_Timeline 7000 7000 ?s 2000 1000)"
    by (simp add: answers_def quiet_def)
  have "map_sum id (map bkt_Failed) (sql_Timeline (postgres demo_engine) quiet 7000 7000 ?db 2000 1000) =
      Inr [0, 0, 0, 1, 0, 0]"
    by code_simp
  with eq show ?thesis by (simp add: Let_def)
qed

end
