(* ===== verification/Conformance_Laws.thy ===== *)
theory Conformance_Laws
  imports Conformance_Suite Sql_Backends
begin

text \<open>
  What a backend has to promise to pass the conformance suite, and that the promise is
  enough. The contract (locale \<open>faithful_store\<close>) compares a backend with the in-memory store
  through a relation \<open>R\<close>: on plain records (times unset or within the range of \<open>int64\<close>
  nanoseconds, names and IDs in ASCII) every write keeps \<open>R\<close>, with times cut to the
  resolution \<open>res\<close> of the backend, and every query answers as the in-memory store would,
  except for the order of rows that no time tells apart. Each case of the suite is proved
  once, over the contract, for every reading of the clock.
\<close>

subsection \<open>Plain records and their resolution\<close>

definition cut :: "int \<Rightarrow> gotime \<Rightarrow> gotime" where
  "cut res t = (if t = zeroTime then zeroTime else t div res * res)"

definition cut_job :: "int \<Rightarrow> job \<Rightarrow> job" where
  "cut_job res j =
     j\<lparr>job_EnqueuedAt := cut res (job_EnqueuedAt j), job_StartedAt := cut res (job_StartedAt j),
       job_FinishedAt := cut res (job_FinishedAt j), job_ProgressAt := cut res (job_ProgressAt j)\<rparr>"

definition cut_att :: "int \<Rightarrow> attempt \<Rightarrow> attempt" where
  "cut_att res a =
     a\<lparr>att_StartedAt := cut res (att_StartedAt a), att_FinishedAt := cut res (att_FinishedAt a)\<rparr>"

definition plain_time :: "gotime \<Rightarrow> bool" where
  "plain_time t \<longleftrightarrow> t = zeroTime \<or> (1000 \<le> t \<and> t \<le> maxInt64)"

definition plain_attrs :: "(string, string) gomap \<Rightarrow> bool" where
  "plain_attrs m \<longleftrightarrow> wf_map m \<and> list_all (\<lambda>(k, v). ascii k \<and> ascii v) m"

definition plain_job :: "job \<Rightarrow> bool" where
  "plain_job j \<longleftrightarrow> plain_time (job_EnqueuedAt j) \<and> plain_time (job_StartedAt j) \<and>
     plain_time (job_FinishedAt j) \<and> plain_time (job_ProgressAt j) \<and>
     ascii (job_ID j) \<and> ascii (job_Name j) \<and> plain_attrs (job_Attributes j)"

text \<open>The last segment of a row key is the job ID, where the ID is free of colons.\<close>

definition key_id :: "string \<Rightarrow> string" where
  "key_id k = rev (takeWhile (\<lambda>c. c \<noteq> CHR '':'') (rev k))"

definition plain_att :: "attempt \<Rightarrow> bool" where
  "plain_att a \<longleftrightarrow> plain_time (att_StartedAt a) \<and> plain_time (att_FinishedAt a) \<and>
     CHR '':'' \<notin> set (att_JobID a)"

lemma plain_zeroTime [simp]: "plain_time zeroTime"
  by (simp add: plain_time_def)

lemma plain_time_ok: "plain_time t \<Longrightarrow> time_ok t"
  by (auto simp: plain_time_def time_ok_def)

lemma cut_zeroTime [simp]: "cut res zeroTime = zeroTime"
  by (simp add: cut_def)

lemma key_id_KeyFor: "CHR '':'' \<notin> set i \<Longrightarrow> key_id (KeyFor e q i) = i"
proof -
  assume "CHR '':'' \<notin> set i"
  then have "takeWhile (\<lambda>c. c \<noteq> CHR '':'') (rev i @ CHR '':'' # xs) = rev i" for xs
    by (subst takeWhile_append2) auto
  then show ?thesis by (simp add: key_id_def KeyFor_def)
qed

lemma sort_slice_Nil_iff [simp]: "sort_slice lt xs = [] \<longleftrightarrow> xs = []"
  by (metis length_0_conv length_sort_slice)

locale resolution =
  fixes res :: int
  assumes res_pos: "0 < res" and res_dvd: "res dvd 1000"
begin

lemma res_le: "res \<le> 1000"
  using res_dvd by (rule zdvd_imp_le) simp

lemma cut_bounds: "0 \<le> t \<Longrightarrow> cut res t \<le> t \<and> t < cut res t + 1000"
proof -
  assume "0 \<le> t"
  moreover have "t div res * res \<le> t" "t < t div res * res + 1000"
    using div_mult_mod_eq [of t res] pos_mod_sign [OF res_pos, of t] pos_mod_bound [OF res_pos, of t] res_le
    by linarith+
  ultimately show ?thesis using zeroTime_neg by (simp add: cut_def)
qed

lemma cut_pos: "1000 \<le> t \<Longrightarrow> 0 < cut res t"
  using cut_bounds [of t] by linarith

lemma cut_mono: "0 \<le> t \<Longrightarrow> t \<le> u \<Longrightarrow> cut res t \<le> cut res u"
  using res_pos zeroTime_neg by (auto simp: cut_def intro: zdiv_mono1)

lemma cut_shift: "0 \<le> t \<Longrightarrow> 0 \<le> t + 1000 * k \<Longrightarrow> cut res (t + 1000 * k) = cut res t + 1000 * k"
proof -
  assume t: "0 \<le> t" "0 \<le> t + 1000 * k"
  obtain n where n: "1000 = res * n" using res_dvd by blast
  have "(t + res * (n * k)) div res = t div res + n * k"
    using res_pos by simp
  then have "(t + 1000 * k) div res * res = t div res * res + 1000 * k"
    unfolding n by (simp add: algebra_simps)
  with t zeroTime_neg show ?thesis by (simp add: cut_def)
qed

lemma cut_not_zero [simp]: "1000 \<le> t \<Longrightarrow> cut res t \<noteq> zeroTime"
  using cut_pos [of t] zeroTime_neg by linarith

end

subsection \<open>The contract\<close>

locale faithful_store = resolution +
  fixes st :: "('s, 'e) store"
    and uc :: go_unicode
    and R :: "'s \<Rightarrow> mem_store \<Rightarrow> bool"
  assumes upsert: "R s m \<Longrightarrow> list_all plain_job js \<Longrightarrow>
      \<exists>s'. si_UpsertJobs st s js = (None, s') \<and> R s' (mem_UpsertJobs m (map (cut_job res) js))"
    and attempts: "R s m \<Longrightarrow> list_all plain_att as \<Longrightarrow>
      \<exists>s'. si_SaveAttempts st s as = (None, s') \<and> R s' (mem_SaveAttempts m (map (cut_att res) as))"
    and heartbeat: "R s m \<Longrightarrow> plain_time t \<Longrightarrow>
      \<exists>s'. si_Heartbeat st s e t = (None, s') \<and> R s' (mem_Heartbeat m e (cut res t))"
    and reconcile: "R s m \<Longrightarrow> plain_time (now - d) \<Longrightarrow>
      \<exists>s'. si_ReconcileEpoch st now s e d = (Inr (snd (mem_ReconcileEpoch (cut res (now - d)) m e 0)), s') \<and>
           R s' (fst (mem_ReconcileEpoch (cut res (now - d)) m e 0))"
    and prune: "R s m \<Longrightarrow> plain_time t \<Longrightarrow>
      \<exists>s'. si_Prune st s t sts = (Inr (snd (mem_Prune m (cut res t) sts)), s') \<and>
           R s' (fst (mem_Prune m (cut res t) sts))"
    and one_job: "R s m \<Longrightarrow>
      (case mem_Job m key of
         Inl _ \<Rightarrow> refused (st_Job st s key)
       | Inr (j, as) \<Rightarrow> \<exists>as'. st_Job st s key = Inr (j, as') \<and> map unscoped as' = map unscoped as)"
    and listing: "R s m \<Longrightarrow> filter_plain f \<Longrightarrow> 0 \<le> f_Offset f \<Longrightarrow>
      \<exists>js ms. st_Jobs st s f = Inr js \<and> mem_Jobs uc m f = Inr ms \<and> length js = length ms \<and>
           (distinct (map job_EnqueuedAt (matching uc m f)) \<longrightarrow> js = ms)"
    and counting: "R s m \<Longrightarrow> filter_plain f \<Longrightarrow> st_CountJobs st s f = Inr (mem_CountJobs uc m f)"
    and grouping: "R s m \<Longrightarrow> filter_plain f \<Longrightarrow>
      \<exists>ord. st_GroupJobs st s f limit = Inr (mem_GroupJobs ord uc m f limit)"
    and chains: "R s m \<Longrightarrow>
      \<exists>js. st_Lineage st s e q r = Inr js \<and> mset js = mset (mem_Lineage m e q r) \<and>
           (distinct (map job_EnqueuedAt (mem_Lineage m e q r)) \<longrightarrow> js = mem_Lineage m e q r)"
    and tallies: "R s m \<Longrightarrow> st_Counts st s = Inr (mem_Counts m)"
    and attribute_keys: "R s m \<Longrightarrow>
      \<exists>ks. st_AttributeKeys st s limit = Inr ks \<and>
           (int (length (attr_tally m)) \<le> clamp_limit 50 20 limit \<longrightarrow> set ks = set (keys (attr_tally m)))"
    and timeline: "R s m \<Longrightarrow> plain_time since \<Longrightarrow> 1000 dvd width \<Longrightarrow> 0 < width \<Longrightarrow> width \<le> cut res since \<Longrightarrow>
      0 \<le> now' \<Longrightarrow> now' \<le> maxInt64 \<Longrightarrow> mem_Timeline now now' m (cut res since) width = Inr bs \<Longrightarrow>
      st_Timeline st now now' s since width = Inr bs"
    and absurd: "R s m \<Longrightarrow> since \<noteq> zeroTime \<Longrightarrow> 0 < width \<Longrightarrow> time_Sub now since sdiv width > maxBuckets \<Longrightarrow>
      refused (st_Timeline st now now' s since width)"
begin

text \<open>The helpers of the suite, as rules that advance a case by one call.\<close>

lemma saveI:
  assumes "R s m" "list_all plain_job js"
    and "\<And>s'. R s' (mem_UpsertJobs m (map (cut_job res) js)) \<Longrightarrow> rest s'"
  shows "save st s js rest"
  using upsert [OF assms(1,2)] assms(3) by (auto simp: save_def wrote_def)

lemma attemptsI:
  assumes "R s m" "list_all plain_att as"
    and "\<And>s'. R s' (mem_SaveAttempts m (map (cut_att res) as)) \<Longrightarrow> rest s'"
  shows "wrote (si_SaveAttempts st s as) rest"
  using attempts [OF assms(1,2)] assms(3) by (auto simp: wrote_def)

lemma heartbeatI:
  assumes "R s m" "plain_time t" "\<And>s'. R s' (mem_Heartbeat m e (cut res t)) \<Longrightarrow> rest s'"
  shows "wrote (si_Heartbeat st s e t) rest"
  using heartbeat [OF assms(1,2), of e] assms(3) by (auto simp: wrote_def)

lemma reconcileI:
  assumes "R s m" "plain_time (now - d)" "mem_ReconcileEpoch (cut res (now - d)) m e 0 = (m', n)"
    and "\<And>s'. R s' m' \<Longrightarrow> rest n s'"
  shows "let (r, s') = si_ReconcileEpoch st now s e d in got r (\<lambda>n. rest n s')"
  using reconcile [OF assms(1,2), of e] assms(3,4) by (auto simp: got_def)

lemma pruneI:
  assumes "R s m" "plain_time t" "mem_Prune m (cut res t) sts = (m', n)" "\<And>s'. R s' m' \<Longrightarrow> rest n s'"
  shows "let (r, s') = si_Prune st s t sts in got r (\<lambda>n. rest n s')"
  using prune [OF assms(1,2), of sts] assms(3,4) by (auto simp: got_def)

lemma loadFromI:
  assumes "R s m" "case map_of (ms_jobs m) (KeyFor e q i) of None \<Rightarrow> False | Some j \<Rightarrow> rest j"
  shows "loadFrom st s e q i rest"
  using one_job [OF assms(1), of "KeyFor e q i"] assms(2)
  by (auto simp: loadFrom_def mem_Job_def got_def split: option.splits)

lemma loadI:
  assumes "R s m" "case map_of (ms_jobs m) (KeyFor e ''default'' i) of None \<Rightarrow> False | Some j \<Rightarrow> rest j"
  shows "load st s e i rest"
  unfolding load_def using assms by (rule loadFromI)

lemma missingI: "R s m \<Longrightarrow> map_of (ms_jobs m) k = None \<Longrightarrow> refused (st_Job st s k)"
  using one_job [of s m k] by (simp add: mem_Job_def)

lemma lengthI:
  assumes "R s m" "filter_plain f" "f_Offset f = 0" "f_Limit f = 0"
    and "length (matching uc m f) = n" "n \<le> 100"
  shows "got (st_Jobs st s f) (\<lambda>found. length found = n)"
proof -
  obtain js ms where "st_Jobs st s f = Inr js" "mem_Jobs uc m f = Inr ms" "length js = length ms"
    using listing [OF assms(1,2)] assms(3) by auto
  with assms(3-6) show ?thesis
    by (auto simp: got_def mem_Jobs_def Let_def clamp_limit_def split: if_splits)
qed

lemma jobsI:
  assumes "R s m" "filter_plain f" "0 \<le> f_Offset f" "distinct (map job_EnqueuedAt (matching uc m f))"
    and "case mem_Jobs uc m f of Inl _ \<Rightarrow> False | Inr js \<Rightarrow> rest js"
  shows "got (st_Jobs st s f) rest"
  using listing [OF assms(1-3)] assms(4,5) by (auto simp: got_def)

lemma countI: "R s m \<Longrightarrow> filter_plain f \<Longrightarrow> rest (mem_CountJobs uc m f) \<Longrightarrow> got (st_CountJobs st s f) rest"
  by (simp add: counting got_def)

lemma groupsI:
  "R s m \<Longrightarrow> filter_plain f \<Longrightarrow> (\<And>ord. rest (mem_GroupJobs ord uc m f n)) \<Longrightarrow> got (st_GroupJobs st s f n) rest"
  using grouping [of s m f n] by (auto simp: got_def)

lemma chainI:
  assumes "R s m" "distinct (map job_EnqueuedAt (mem_Lineage m e q r))" "rest (mem_Lineage m e q r)"
  shows "got (st_Lineage st s e q r) rest"
  using chains [OF assms(1), of e q r] assms(2,3) by (auto simp: got_def)

lemma attribute_keysI:
  assumes "R s m" "int (length (attr_tally m)) \<le> clamp_limit 50 20 limit"
    and "\<And>ks. set ks = set (keys (attr_tally m)) \<Longrightarrow> rest ks"
  shows "got (st_AttributeKeys st s limit) rest"
  using attribute_keys [OF assms(1), of limit] assms(2,3) by (auto simp: got_def)

lemma attempts_readI:
  assumes "R s m"
    and "case mem_Job m k of Inl _ \<Rightarrow> False
         | Inr (j, as) \<Rightarrow> (\<forall>as'. map unscoped as' = map unscoped as \<longrightarrow> rest j as')"
  shows "got (st_Job st s k) (\<lambda>(found, as). rest found as)"
  using one_job [OF assms(1), of k] assms(2) by (auto simp: got_def split: sum.splits)

lemma timelineI:
  assumes "R s m" "plain_time since" "1000 dvd width" "0 < width" "width \<le> cut res since" "0 \<le> now'" "now' \<le> maxInt64"
    and "mem_Timeline now now' m (cut res since) width = Inr bs" "rest bs"
  shows "got (st_Timeline st now now' s since width) rest"
  using timeline [OF assms(1-8)] assms(9) by (simp add: got_def)

end

end
