(* ===== verification/Conformance_Cases.thy ===== *)
theory Conformance_Cases
  imports Conformance_Laws
begin

text \<open>
  Every case of the suite passes on every store that meets the contract, whatever the
  (plausible) readings of the clock.
\<close>

subsection \<open>The clock of a test run\<close>

text \<open>
  Time does not run backwards, a case takes less than a minute, and the test runs between
  February 1970 and the end of the \<open>int64\<close> nanoseconds in 2262.
\<close>

definition suite_clock :: "(nat \<Rightarrow> gotime) \<Rightarrow> bool" where
  "suite_clock clk \<longleftrightarrow> mono clk \<and> 31 * 24 * Hour \<le> clk 0 \<and> clk 0 \<le> maxInt64 - Hour \<and>
     (\<forall>i. clk i < clk 0 + Minute)"

lemma suite_clock_bounds:
  assumes "suite_clock clk"
  shows "clk 0 \<le> clk i" "clk i < clk 0 + Minute" "31 * 24 * Hour \<le> clk i" "clk i \<le> maxInt64 - Hour + Minute"
proof -
  show "clk 0 \<le> clk i" using assms by (simp add: suite_clock_def monoD)
  then show "31 * 24 * Hour \<le> clk i" using assms by (auto simp: suite_clock_def)
  show "clk i < clk 0 + Minute" using assms by (simp add: suite_clock_def)
  moreover have "clk 0 \<le> maxInt64 - Hour" using assms by (simp add: suite_clock_def)
  ultimately show "clk i \<le> maxInt64 - Hour + Minute" by linarith
qed

lemma plain_reading [simp]: "suite_clock clk \<Longrightarrow> plain_time (clk i)"
  using suite_clock_bounds(3,4) [of clk i] by (simp add: plain_time_def)

lemma plain_reading_Add [simp]:
  "suite_clock clk \<Longrightarrow> - 31 * 24 * Hour + 1000 \<le> d \<Longrightarrow> d \<le> 59 * Minute \<Longrightarrow> plain_time (time_Add (clk i) d)"
  using suite_clock_bounds(3,4) [of clk i] by (simp add: plain_time_def time_Add_def)

subsection \<open>Records on a fresh store\<close>

lemma update_fresh: "k \<notin> set (keys m) \<Longrightarrow> AList.update k v m = m @ [(k, v)]"
  by (induction m) auto

lemma fold_upsert_fresh:
  "distinct (keys tbl @ map record_key js) \<Longrightarrow>
   fold upsert_job js tbl = tbl @ map (\<lambda>j. (record_key j, stamped j)) js"
proof (induction js arbitrary: tbl)
  case (Cons j js)
  then have fresh: "record_key j \<notin> set (keys tbl)" by simp
  then have "map_of tbl (record_key j) = None" by (simp add: map_of_eq_None_iff)
  with fresh have "upsert_job j tbl = tbl @ [(record_key j, stamped j)]"
    by (simp add: upsert_job_def Let_def update_fresh)
  with Cons show ?case by auto
qed simp

lemma record_key_cut [simp]: "record_key (cut_job res j) = record_key j"
  by (simp add: record_key_def cut_job_def)

definition fresh_rows :: "int \<Rightarrow> job list \<Rightarrow> (string, job) gomap" where
  "fresh_rows res js = map (\<lambda>j. (record_key j, stamped (cut_job res j))) js"

lemma upsert_fresh:
  "distinct (map record_key js) \<Longrightarrow>
   mem_UpsertJobs mem_Open (map (cut_job res) js) = mem_Open\<lparr>ms_jobs := fresh_rows res js\<rparr>"
  by (simp add: mem_UpsertJobs_def mem_Open_def fold_upsert_fresh fresh_rows_def o_def)

lemma cut_job_simps [simp]:
  "job_ID (cut_job res j) = job_ID j" "job_Epoch (cut_job res j) = job_Epoch j"
  "job_Queue (cut_job res j) = job_Queue j" "job_Name (cut_job res j) = job_Name j"
  "job_State (cut_job res j) = job_State j" "job_Err (cut_job res j) = job_Err j"
  "job_RootID (cut_job res j) = job_RootID j" "job_Parent (cut_job res j) = job_Parent j"
  "job_Attributes (cut_job res j) = job_Attributes j"
  "job_EnqueuedAt (cut_job res j) = cut res (job_EnqueuedAt j)"
  "job_StartedAt (cut_job res j) = cut res (job_StartedAt j)"
  "job_FinishedAt (cut_job res j) = cut res (job_FinishedAt j)"
  "job_ProgressAt (cut_job res j) = cut res (job_ProgressAt j)"
  by (simp_all add: cut_job_def)

lemma stamped_more [simp]:
  "job_EnqueuedAt (stamped j) = job_EnqueuedAt j" "job_FinishedAt (stamped j) = job_FinishedAt j"
  "job_Err (stamped j) = job_Err j"
  by (simp_all add: stamped_def)

lemmas plain_defs = build_defs plain_job_def plain_attrs_def ascii_def byte_def

lemmas stored_defs =
  UpsertJobs_lookup record_key_def build_defs KeyFor_def absorb_def merge_def mem_Open_def stamped_def cut_job_def

lemmas fresh_defs = fresh_rows_def record_key_def build_defs KeyFor_def stamped_def cut_job_def

lemmas match_defs =
  fresh_defs matching_def job_matches_def matchesTerms_def matchesAttribute_def zero_filter_def IsZero_def
  State_defs FailureStates_def Let_def Fields_def ToLower_def ascii_def byte_def

lemmas filter_plain_defs = filter_plain_def zero_filter_def ascii_def byte_def plain_term_def plain_label_def time_ok_def

lemmas saved_defs = save_attempt_def attempt_key_def attempts_at_def mk_attempt_def zero_attempt_def cut_att_def Let_def

lemmas pruned_defs = prune_entry.simps lastActive_def Before_def After_def IsZero_def Let_def time_Add_def

lemma unscoped_eqD:
  "unscoped a = unscoped b \<Longrightarrow> att_Attempt a = att_Attempt b \<and> att_Err a = att_Err b \<and> att_State a = att_State b"
  by (cases a, cases b) (simp add: unscoped_def)

lemma two_groups:
  assumes keys: "map group_of (matching uc m f) = [a, a, a, a, a, b]" and ab: "a \<noteq> b"
  shows "\<exists>g g'. mem_GroupJobs ord uc m f 10 = [g, g'] \<and> family g = a \<and> grp_Count g = 5"
proof -
  let ?members = "\<lambda>k. filter (\<lambda>j. group_of j = k) (matching uc m f)"
  let ?g = "\<lambda>k. fold bump_group (?members k) (new_group k)"
  have sizes: "length (?members k) = length (filter (\<lambda>k'. k' = k) [a, a, a, a, a, b])" for k
    unfolding keys [symmetric] filter_map length_map o_def ..
  have size: "grp_Count (?g a) = 5" "grp_Count (?g b) = 1"
    using ab by (simp_all add: fold_bump_group sizes)
  have "map snd (fold group_job (matching uc m f) []) = [?g a, ?g b]"
    unfolding group_job_tally tally_by_values keys using ab by simp
  moreover have "sort_slice group_before (range_order ord [?g a, ?g b]) = [?g a, ?g b]"
    by (rule groups.sort_slice_determined) (auto simp: groups.total_on_slice_def group_before_def size)
  ultimately have "mem_GroupJobs ord uc m f 10 = [?g a, ?g b]"
    by (simp add: mem_GroupJobs_def clamp_limit_def Let_def take_if_longer)
  moreover have "family (?g a) = a" by (simp add: fold_bump_group)
  ultimately show ?thesis using size(1) by blast
qed

lemma timeline_total:
  assumes "\<And>j. j \<in> set (map snd (ms_jobs m)) \<Longrightarrow> in_window since j \<Longrightarrow> time_slot width j \<in> {a..b}"
  shows "(\<Sum>n \<leftarrow> [a..b]. length (filter P (slot_jobs m since width n))) =
         length (filter (\<lambda>j. P j \<and> in_window since j) (map snd (ms_jobs m)))"
proof -
  let ?js = "filter (\<lambda>j. P j \<and> in_window since j) (map snd (ms_jobs m))"
  have "filter P (slot_jobs m since width n) = filter (\<lambda>j. time_slot width j = n) ?js" for n
    unfolding slot_jobs_def filter_filter by (rule filter_cong) auto
  then show ?thesis
    using sum_list_length_filter_partition [of "[a..b]" ?js "time_slot width"] assms by simp
qed

text \<open>Jobs whose last activity is one instant of the window are each counted once, by their state.\<close>

lemma timeline_states:
  assumes active: "\<And>j. j \<in> set (map snd (ms_jobs m)) \<Longrightarrow> lastActive j = t"
    and terminal: "list_all Terminal (map job_State (map snd (ms_jobs m)))"
    and t: "0 \<le> t" "t \<le> maxInt64" "since \<le> t" "0 < width" "t div width \<in> {a..b}"
  shows "(\<Sum>n \<leftarrow> [a..b]. length (filter (\<lambda>j. P (job_State j)) (slot_jobs m since width n))) =
         length (filter P (map job_State (map snd (ms_jobs m))))"
proof -
  have "time_slot width j \<in> {a..b}" if "j \<in> set (map snd (ms_jobs m))" for j
    using active [OF that] t by (simp add: time_slot_def sdiv_UnixNano)
  from timeline_total [where P = "\<lambda>j. P (job_State j)" and since = since, OF this]
  have "(\<Sum>n \<leftarrow> [a..b]. length (filter (\<lambda>j. P (job_State j)) (slot_jobs m since width n))) =
      length (filter (\<lambda>j. P (job_State j) \<and> in_window since j) (map snd (ms_jobs m)))" .
  also have "filter (\<lambda>j. P (job_State j) \<and> in_window since j) (map snd (ms_jobs m)) =
      filter (\<lambda>j. P (job_State j)) (map snd (ms_jobs m))"
    using active terminal t(3) by (intro filter_cong) (auto simp: in_window_def list_all_iff)
  finally show ?thesis unfolding length_filter_map by (simp only: o_def)
qed

lemma buckets_ordered:
  assumes "0 \<le> since" "0 \<le> now'" "now' \<le> maxInt64" "0 < width"
    and bs: "bs = map (\<lambda>n. \<lparr>bkt_Start = int64 (n * width), bkt_Completed = f n, bkt_Failed = g n\<rparr>)
               [since div width..now' div width]"
  shows "list_all (\<lambda>i. After (bkt_Start (bs ! i)) (bkt_Start (bs ! (i - 1)))) [1..<length bs]"
proof -
  let ?a = "since div width"
  have a: "0 \<le> ?a" using assms by (simp add: pos_imp_zdiv_nonneg_iff)
  have start: "bkt_Start (bs ! i) = (?a + int i) * width" if "i < length bs" for i
  proof -
    from that have le: "?a + int i \<le> now' div width" by (simp add: bs)
    then have "int64 ((?a + int i) * width) = (?a + int i) * width"
      using slot_start_in_range [OF _ le] a assms by simp
    moreover have "[?a..now' div width] ! i = ?a + int i" by (rule nth_upto [OF le])
    ultimately show ?thesis using that by (simp add: bs del: nth_upto)
  qed
  then show ?thesis
    using assms(4) by (auto simp: list_all_iff After_def intro!: mult_strict_right_mono)
qed

lemma rune_chars:
  "char_of (97::nat) = CHR ''a''" "char_of (98::nat) = CHR ''b''" "char_of (99::nat) = CHR ''c''"
  "char_of (100::nat) = CHR ''d''" "char_of (101::nat) = CHR ''e''" "char_of (102::nat) = CHR ''f''"
  "char_of (103::nat) = CHR ''g''" "char_of (104::nat) = CHR ''h''" "char_of (105::nat) = CHR ''i''"
  "char_of (106::nat) = CHR ''j''" "char_of (48::nat) = CHR ''0''" "char_of (49::nat) = CHR ''1''"
  "char_of (50::nat) = CHR ''2''" "char_of (51::nat) = CHR ''3''" "char_of (52::nat) = CHR ''4''"
  by code_simp+

lemmas rune_defs = rune_string_def upt_rec rune_chars

lemma import_rows_patterns:
  "NormalizeName ''import-rows-1'' = NormalizeName ''import-rows-0''"
  "NormalizeName ''import-rows-2'' = NormalizeName ''import-rows-0''"
  "NormalizeName ''import-rows-3'' = NormalizeName ''import-rows-0''"
  "NormalizeName ''import-rows-4'' = NormalizeName ''import-rows-0''"
  "NormalizeName ''import-rows-0'' \<noteq> NormalizeName ''send-email''"
  by code_simp+

context faithful_store
begin

lemma freshI:
  assumes "R s mem_Open" "list_all plain_job js" "distinct (map record_key js)"
    and "\<And>s' m. R s' m \<Longrightarrow> ms_jobs m = fresh_rows res js \<Longrightarrow> ms_attempts m = [] \<Longrightarrow> ms_epochs m = [] \<Longrightarrow> rest s'"
  shows "save st s js rest"
  by (rule saveI [OF assms(1,2)], erule assms(4)) (simp_all add: upsert_fresh [OF assms(3)], simp_all add: mem_Open_def)

subsection \<open>Merging\<close>

lemma pass_UpsertMergesOutOfOrderEvents:
  assumes "suite_clock clk" "R s mem_Open"
  shows "upsertMergesOutOfOrderEvents st s clk"
proof -
  have t: "1000 \<le> clk i" for i using suite_clock_bounds(3) [OF assms(1), of i] by simp
  show ?thesis
    unfolding upsertMergesOutOfOrderEvents_def Let_def
    by (rule saveI [OF assms(2)], simp add: plain_defs assms(1), erule saveI,
        simp add: plain_defs assms(1), erule loadI) (simp add: stored_defs IsZero_def t)
qed

lemma replay_states_pass:
  assumes "suite_clock clk"
  shows "R s m \<Longrightarrow> list_all (\<lambda>t. Terminal t \<and> ascii t) sts \<Longrightarrow> distinct sts \<Longrightarrow>
    (\<forall>t \<in> set sts. map_of (ms_jobs m) (KeyFor ''epoch-a'' ''default'' t) = None) \<Longrightarrow>
    replay_states st clk i sts s"
proof (induction sts arbitrary: s m i)
  case (Cons t sts)
  show ?case
    unfolding replay_states.simps Let_def
    apply (rule saveI [OF Cons.prems(1)])
    subgoal using assms Cons.prems(2) by (simp add: plain_defs)
    apply (erule saveI)
    subgoal using assms Cons.prems(2) by (simp add: plain_defs)
    apply (erule saveI)
    subgoal using assms Cons.prems(2) by (simp add: plain_defs)
    apply (rule conjI)
     apply (erule loadI)
    subgoal using Cons.prems by (simp add: stored_defs Terminal_def)
    apply (erule Cons.IH)
    subgoal using Cons.prems by simp
    subgoal using Cons.prems by simp
    subgoal using Cons.prems by (auto simp add: stored_defs)
    done
qed simp

lemma pass_UpsertKeepsLatestProgress:
  assumes "suite_clock clk" "R s mem_Open"
  shows "upsertKeepsLatestProgress st s clk"
proof -
  have le: "cut res (time_Add (clk 0) (- Minute)) \<le> cut res (clk 0)"
    using suite_clock_bounds(3) [OF assms(1), of 0] by (intro cut_mono) (simp_all add: time_Add_def)
  show ?thesis
    unfolding upsertKeepsLatestProgress_def Let_def
    by (rule saveI [OF assms(2)], simp add: plain_defs assms(1), erule loadI)
      (use le in \<open>simp add: stored_defs After_def\<close>)
qed

lemma pass_EpochsIsolateIdenticalIDs:
  assumes "suite_clock clk" "R s mem_Open"
  shows "epochsIsolateIdenticalIDs st s clk"
  unfolding epochsIsolateIdenticalIDs_def
  by (rule freshI [OF assms(2)], simp add: plain_defs assms(1), simp add: fresh_defs)
    (rule loadI, assumption, simp add: fresh_defs)+

lemma pass_QueuesIsolateIdenticalIDs:
  assumes "suite_clock clk" "R s mem_Open"
  shows "queuesIsolateIdenticalIDs st s clk"
  unfolding queuesIsolateIdenticalIDs_def
  by (rule freshI [OF assms(2)], simp add: plain_defs assms(1), simp add: fresh_defs,
      (rule loadFromI, assumption, simp add: fresh_defs)+, (intro conjI; (rule lengthI, assumption)))
    (simp_all add: filter_plain_defs match_defs)

subsection \<open>Filters, search, pages\<close>

lemma pass_FilterByQueueNameAndState:
  assumes "suite_clock clk" "R s mem_Open"
  shows "filterByQueueNameAndState st s clk"
  unfolding filterByQueueNameAndState_def list.pred_inject split_conv
  by (rule freshI [OF assms(2)], simp add: plain_defs assms(1), simp add: fresh_defs,
      (intro conjI list.pred_inject(1); (rule lengthI, assumption)))
    (simp_all add: filter_plain_defs match_defs)

lemma pass_FilterByAttribute:
  assumes "suite_clock clk" "R s mem_Open"
  shows "filterByAttribute st s clk"
  unfolding filterByAttribute_def list.pred_inject split_conv
  by (rule freshI [OF assms(2)], simp add: plain_defs assms(1), simp add: fresh_defs,
      (intro conjI list.pred_inject(1); (rule lengthI, assumption)))
    (simp_all add: filter_plain_defs match_defs)

lemma pass_SearchMatchesAllTerms:
  assumes "suite_clock clk" "R s mem_Open"
  shows "searchMatchesAllTerms st s clk"
  unfolding searchMatchesAllTerms_def list.pred_inject split_conv
  by (rule freshI [OF assms(2)], simp add: plain_defs assms(1), simp add: fresh_defs,
      (intro conjI list.pred_inject(1); (rule lengthI, assumption)))
    (simp_all add: filter_plain_defs match_defs ascii_space_def ascii_lower_def Contains.simps HasPrefix_def)

lemma pass_BeforeFreezesTheWindow:
  assumes "suite_clock clk" "R s mem_Open"
  shows "beforeFreezesTheWindow st s clk"
proof -
  let ?f = "zero_filter\<lparr>f_Before := clk 0\<rparr>"
  note t = suite_clock_bounds(3,4) [OF assms(1), of 0]
  have window: "\<not> clk 0 < cut res (clk 0 - Minute)" "clk 0 < cut res (clk 0 + Minute)" "clk 0 \<noteq> zeroTime"
    using t cut_bounds [of "clk 0 - Minute"] cut_bounds [of "clk 0 + Minute"] zeroTime_neg by auto
  have f: "filter_plain ?f" "f_Limit ?f = 0" "f_Offset ?f = 0"
    using plain_time_ok [OF plain_reading [OF assms(1)]]
    by (simp_all add: filter_plain_def zero_filter_def ascii_def plain_term_def)
  show ?thesis
    unfolding beforeFreezesTheWindow_def Let_def
  proof (rule freshI [OF assms(2)])
    fix s' m assume R: "R s' m" and m: "ms_jobs m = fresh_rows res
        [build_job (clk 1) ''old'' [withEnqueued (time_Add (clk 0) (- Minute))],
         build_job (clk 2) ''new'' [withEnqueued (time_Add (clk 0) Minute)]]"
    have one: "\<exists>j. matching uc m ?f = [j] \<and> job_ID j = ''old''"
      using window by (simp add: m match_defs time_Add_def After_def)
    then obtain j where j: "matching uc m ?f = [j]" "job_ID j = ''old''" by blast
    then have "mem_Jobs uc m ?f = Inr [j]" "mem_CountJobs uc m ?f = 1"
      using f by (simp_all add: mem_Jobs_def mem_CountJobs_def clamp_limit_def sort_slice_def)
    with j f show "got (st_Jobs st s' ?f) (\<lambda>found. ids found = [''old''] \<and>
        got (st_CountJobs st s' ?f) (\<lambda>total. total = 1))"
      by (intro jobsI [OF R]) (simp_all add: ids_def counting [OF R] got_def)
  qed (simp_all add: plain_defs assms(1) fresh_defs)
qed

text \<open>Rows made oldest first, each later than the one before, are listed in reverse.\<close>

lemma listing_rev:
  assumes "sorted_wrt (\<lambda>a b. job_EnqueuedAt a < job_EnqueuedAt b) js"
  shows "sort_slice job_newer js = rev js"
proof (rule newer.sort_slice_determined)
  show "mset js = mset (rev js)" by simp
  show "slice_sorted job_newer (rev js)"
    unfolding slice_sorted_def sorted_wrt_rev
    by (rule sorted_wrt_mono_rel [OF _ assms]) (auto simp: job_newer_def After_def)
  have "sorted_wrt (<) (map job_EnqueuedAt js)" by (simp add: sorted_wrt_map assms)
  then have "distinct (map job_EnqueuedAt js)" by (simp add: strict_sorted_iff)
  then show "newer.total_on_slice js"
    by (auto simp: newer.total_on_slice_def job_newer_def After_def distinct_map inj_on_def)
qed

text \<open>Ten rows made a minute apart, read four at a time from an offset.\<close>

lemma page_of_four:
  assumes R: "R s m" and b: "b = 0 \<or> b = 4"
    and match: "\<And>a b. matching uc m (zero_filter\<lparr>f_Limit := a, f_Offset := b\<rparr>) = js"
    and order: "sorted_wrt (\<lambda>x y. job_EnqueuedAt x < job_EnqueuedAt y) js"
    and rest: "rest (take 4 (drop (nat b) (rev js)))"
  shows "got (st_Jobs st s (zero_filter\<lparr>f_Limit := 4, f_Offset := b\<rparr>)) rest"
proof (rule jobsI [OF R])
  show "filter_plain (zero_filter\<lparr>f_Limit := 4, f_Offset := b\<rparr>)" by (simp add: filter_plain_defs)
  have "sorted_wrt (<) (map job_EnqueuedAt js)" by (simp add: sorted_wrt_map order)
  then show "distinct (map job_EnqueuedAt (matching uc m (zero_filter\<lparr>f_Limit := 4, f_Offset := b\<rparr>)))"
    unfolding match by (simp add: strict_sorted_iff)
  have "mem_Jobs uc m (zero_filter\<lparr>f_Limit := 4, f_Offset := b\<rparr>) = Inr (take 4 (drop (nat b) (rev js)))"
    using b unfolding mem_Jobs_def match listing_rev [OF order] by (auto simp: clamp_limit_def Let_def)
  then show "case mem_Jobs uc m (zero_filter\<lparr>f_Limit := 4, f_Offset := b\<rparr>) of Inl _ \<Rightarrow> False | Inr js \<Rightarrow> rest js"
    using rest by simp
qed (use b in auto)

lemma pass_PaginationIsStableAndCounted:
  assumes "suite_clock clk" "R s mem_Open"
  shows "paginationIsStableAndCounted st s clk"
proof -
  let ?base = "time_Add (clk 0) (- Hour)"
  let ?job = "\<lambda>i. build_job (clk (i + 1)) (rune_string (CHR ''a'') i) [withEnqueued (time_Add ?base (int i * Minute))]"
  note t = suite_clock_bounds(3,4) [OF assms(1), of 0]
  have time: "cut res (time_Add ?base (int i * Minute)) = cut res ?base + int i * Minute" for i
    using cut_shift [of ?base "int i * 60000000"] t by (simp add: time_Add_def mult.commute)
  have plain: "plain_time (time_Add ?base (int i * Minute))" if "i < 10" for i
    using that t by (simp add: plain_time_def time_Add_def)
  have f: "filter_plain (zero_filter\<lparr>f_Limit := a, f_Offset := b\<rparr>)" for a b
    by (simp add: filter_plain_defs)
  show ?thesis
    unfolding paginationIsStableAndCounted_def Let_def
  proof (rule freshI [OF assms(2)])
    show "list_all plain_job (map ?job [0..<10])"
      using plain by (simp add: list_all_iff plain_defs rune_string_def)
    show "distinct (map record_key (map ?job [0..<10]))"
      by (simp add: fresh_defs rune_defs)
    fix s' m assume R: "R s' m" and m: "ms_jobs m = fresh_rows res (map ?job [0..<10])"
    have match: "matching uc m (zero_filter\<lparr>f_Limit := a, f_Offset := b\<rparr>) =
        map (\<lambda>i. stamped (cut_job res (?job i))) [0..<10]" for a b
      by (simp add: m matching_def fresh_rows_def o_def filter_map job_matches_def matchesTerms_def
          matchesAttribute_def zero_filter_def IsZero_def ToLower_def Fields_def ascii_def)
    let ?rows = "map (\<lambda>i. stamped (cut_job res (?job i))) [0..<10]"
    have order: "sorted_wrt (\<lambda>x y. job_EnqueuedAt x < job_EnqueuedAt y) ?rows"
      using time by (simp add: sorted_wrt_map build_defs sorted_wrt_iff_nth_less)
    note page = page_of_four [OF R _ match order]
    have names: "map job_ID (rev ?rows) = [''j'', ''i'', ''h'', ''g'', ''f'', ''e'', ''d'', ''c'', ''b'', ''a'']"
      by (simp add: rune_defs build_defs)
    let ?first = "take 4 (rev ?rows)" and ?second = "take 4 (drop 4 (rev ?rows))"
    have two: "ids ?first = [''j'', ''i'', ''h'', ''g'']" "ids ?second = [''f'', ''e'', ''d'', ''c'']"
      unfolding ids_def take_map [symmetric] drop_map [symmetric] names by simp_all
    have len: "length ?first = 4" "length ?second = 4" by simp_all
    then have top: "job_ID (?first ! 0) = ''j''"
      using two(1) nth_map [of 0 ?first job_ID] by (simp add: ids_def)
    have z: "zero_filter\<lparr>f_Limit := 4\<rparr> = zero_filter\<lparr>f_Limit := 4, f_Offset := 0\<rparr>"
      by (simp add: zero_filter_def)
    show "got (st_Jobs st s' (zero_filter\<lparr>f_Limit := 4\<rparr>)) (\<lambda>first.
         got (st_Jobs st s' (zero_filter\<lparr>f_Limit := 4, f_Offset := 4\<rparr>)) (\<lambda>second.
           length first = 4 \<and> length second = 4 \<and>
           job_ID (first ! 0) = ''j'' \<and>
           distinct (ids first @ ids second) \<and>
         got (st_CountJobs st s' (zero_filter\<lparr>f_Limit := 4\<rparr>)) (\<lambda>total. total = 10)))"
    proof (rule page [where b = 0, folded z], simp, rule page, simp)
      have "distinct (ids ?first @ ids ?second)" unfolding two by simp
      moreover have "mem_CountJobs uc m (zero_filter\<lparr>f_Limit := 4\<rparr>) = 10"
        by (simp add: mem_CountJobs_def match [where a = 4 and b = 0, folded z])
      ultimately show "length (take 4 (drop (nat 0) (rev ?rows))) = 4 \<and>
          length (take 4 (drop (nat 4) (rev ?rows))) = 4 \<and>
          job_ID (take 4 (drop (nat 0) (rev ?rows)) ! 0) = ''j'' \<and>
          distinct (ids (take 4 (drop (nat 0) (rev ?rows))) @ ids (take 4 (drop (nat 4) (rev ?rows)))) \<and>
          got (st_CountJobs st s' (zero_filter\<lparr>f_Limit := 4\<rparr>)) (\<lambda>total. total = 10)"
        using len top by (simp add: counting [OF R f [where a = 4 and b = 0, folded z]] got_def)
    qed
  qed
qed

lemma pass_CountsByState:
  assumes "suite_clock clk" "R s mem_Open"
  shows "countsByState st s clk"
  unfolding countsByState_def
  apply (rule freshI [OF assms(2)], simp add: plain_defs assms(1), simp add: fresh_defs)
  by (simp add: tallies got_def mem_Counts_def fresh_defs tally_incr_def tally_at_def State_defs)

lemma pass_AttributeKeysAreDiscovered:
  assumes "suite_clock clk" "R s mem_Open"
  shows "attributeKeysAreDiscovered st s clk"
  unfolding attributeKeysAreDiscovered_def
  by (rule freshI [OF assms(2)], simp add: plain_defs assms(1), simp add: fresh_defs, rule attribute_keysI, assumption)
    (simp_all add: attr_tally_def fresh_defs tally_incr_def tally_at_def clamp_limit_def)

lemma pass_MissingJobIsAnError:
  assumes "suite_clock clk" "R s mem_Open"
  shows "missingJobIsAnError st s clk"
  unfolding missingJobIsAnError_def by (rule missingI [OF assms(2)]) (simp add: mem_Open_def)

lemma pass_ReconcileMarksDeadEpochs:
  assumes "suite_clock clk" "R s mem_Open"
  shows "reconcileMarksDeadEpochs st s clk"
proof -
  have t: "plain_time (clk 3 - Minute)"
    using plain_reading_Add [OF assms(1), of "- Minute" 3] by (simp add: time_Add_def)
  show ?thesis
    unfolding reconcileMarksDeadEpochs_def list.pred_inject split_conv
    by (rule freshI [OF assms(2)], simp add: plain_defs assms(1), simp add: fresh_defs,
        rule reconcileI [OF _ t], assumption, simp add: mem_ReconcileEpoch_def fresh_defs still_beating_def)
      (simp, intro conjI list.pred_inject(1); (rule loadI, assumption, simp add: KeyFor_def))
qed

lemma pass_ReconcileSparesLiveSiblings:
  assumes "suite_clock clk" "R s mem_Open"
  shows "reconcileSparesLiveSiblings st s clk"
proof -
  note t = suite_clock_bounds [OF assms(1)]
  have cutoff: "plain_time (clk 5 - Minute)"
    using plain_reading_Add [OF assms(1), of "- Minute" 5] by (simp add: time_Add_def)
  have live: "cut res (clk 5 - Minute) \<le> cut res (clk 3)" "cut res (clk 3) \<noteq> zeroTime"
    using t(2) [of 5] t(1,3) [of 3] t(3) [of 5] by (auto intro!: cut_mono)
  have dead: "cut res (clk 4 - Hour) < cut res (clk 5 - Minute)"
    using t(2,3) [of 4] t(1,3) [of 5] cut_bounds [of "clk 4 - Hour"] cut_bounds [of "clk 5 - Minute"]
    by simp
  show ?thesis
    unfolding reconcileSparesLiveSiblings_def list.pred_inject split_conv
    apply (rule freshI [OF assms(2)], simp add: plain_defs assms(1), simp add: fresh_defs)
    apply (rule heartbeatI, assumption, simp add: assms(1))
    apply (rule heartbeatI, assumption, simp add: assms(1))
    apply (rule heartbeatI, assumption, simp)
    apply (rule reconcileI [OF _ cutoff], assumption)
     apply (use live dead in \<open>simp add: mem_ReconcileEpoch_def fresh_defs still_beating_def mem_Heartbeat_def
          IsZero_def Before_def Let_def time_Add_def\<close>)
    apply (simp, intro conjI list.pred_inject(1); (rule loadI, assumption, simp add: KeyFor_def))
    done
qed

lemma pass_AttemptsRoundTrip:
  assumes "suite_clock clk" "R s mem_Open"
  shows "attemptsRoundTrip st s clk"
proof -
  note t = suite_clock_bounds [OF assms(1), of 0]
  have later: "cut res (clk 0 + Second) = cut res (clk 0) + Second"
    using cut_shift [of "clk 0" 1000000] t by simp
  show ?thesis
    unfolding attemptsRoundTrip_def Let_def
    apply (rule freshI [OF assms(2)], simp add: plain_defs assms(1), simp add: fresh_defs)
    apply (rule attemptsI, assumption)
    subgoal using assms(1) by (simp add: plain_att_def mk_attempt_def zero_attempt_def)
    apply (rule attempts_readI, assumption)
    apply (use later in \<open>auto simp: mem_Job_def mem_SaveAttempts_def fresh_defs saved_defs sort_slice_def
      attempt_before_def Before_def time_Add_def map_eq_Cons_conv dest!: unscoped_eqD\<close>)
    done
qed

lemma pass_LineageIsScopedAndOrdered:
  assumes "suite_clock clk" "R s mem_Open"
  shows "lineageIsScopedAndOrdered st s clk"
proof -
  note t = suite_clock_bounds [OF assms(1), of 0]
  have later: "cut res (clk 0 - Hour + Second) = cut res (clk 0 - Hour) + Second"
    "cut res (clk 0 - Hour + 2 * Second) = cut res (clk 0 - Hour) + 2 * Second"
    using cut_shift [of "clk 0 - Hour" 1000000] cut_shift [of "clk 0 - Hour" 2000000] t by simp_all
  have plain: "plain_time (clk 0 - Hour)" "plain_time (clk 0 - Hour + Second)" "plain_time (clk 0 - Hour + 2 * Second)"
    using t by (simp_all add: plain_time_def)
  show ?thesis
    unfolding lineageIsScopedAndOrdered_def Let_def
    apply (rule freshI [OF assms(2)], use plain in \<open>simp add: plain_defs time_Add_def\<close>, simp add: fresh_defs)
    apply (rule chainI, assumption)
    subgoal using later by (simp add: mem_Lineage_def fresh_defs sort_slice_def in_lineage_def job_older_def Before_def time_Add_def)
    apply (intro conjI)
    subgoal using later by (simp add: mem_Lineage_def fresh_defs sort_slice_def in_lineage_def job_older_def Before_def time_Add_def ids_def)
    subgoal using later by (simp add: mem_Lineage_def fresh_defs sort_slice_def in_lineage_def job_older_def Before_def time_Add_def)
    apply (rule chainI, assumption)
    subgoal using later by (simp add: mem_Lineage_def fresh_defs sort_slice_def in_lineage_def job_older_def Before_def time_Add_def)
    subgoal using later by (simp add: mem_Lineage_def fresh_defs sort_slice_def in_lineage_def job_older_def Before_def time_Add_def)
    done
qed

lemma pass_PruneRespectsStates:
  assumes "suite_clock clk" "R s mem_Open"
  shows "pruneRespectsStates st s clk"
proof -
  note t = suite_clock_bounds [OF assms(1)]
  have old: "plain_time (clk 0 - 48 * Hour)" "cut res (clk 0 - 48 * Hour) < cut res (clk 3)" "cut res (clk 3) \<noteq> zeroTime"
    using t(1,3) [of 3] t(3,4) [of 0] cut_bounds [of "clk 0 - 48 * Hour"] cut_bounds [of "clk 3"]
    by (auto simp: plain_time_def)
  moreover have "StateFailed \<noteq> StateCompleted" by (simp add: State_defs)
  ultimately show ?thesis
    unfolding pruneRespectsStates_def Let_def
    apply -
    apply (rule freshI [OF assms(2)], simp add: plain_defs time_Add_def, simp add: fresh_defs)
    apply (rule pruneI [unfolded Let_def], assumption, simp add: assms(1))
    apply (simp add: mem_Prune_def fresh_defs pruned_defs)
    apply (simp, rule loadI, assumption, simp add: KeyFor_def)
    done
qed

lemma pass_PruneRemovesOnlyAgedTerminal:
  assumes "suite_clock clk" "R s mem_Open"
  shows "pruneRemovesOnlyAgedTerminal st s clk"
proof -
  note t = suite_clock_bounds [OF assms(1)]
  have old: "plain_time (clk 0 - 48 * Hour)" "plain_time (clk 1 - Minute)" "plain_time (clk 5 - 24 * Hour)"
    using t(3,4) [of 0] t(3,4) [of 1] t(3,4) [of 5] by (simp_all add: plain_time_def)
  have cutoff: "cut res (clk 0 - 48 * Hour) < cut res (clk 5 - 24 * Hour)" "cut res (clk 5 - 24 * Hour) \<noteq> zeroTime"
    "\<not> cut res (clk 1 - Minute) < cut res (clk 5 - 24 * Hour)"
    using t(1,2,3) [of 5] t(3,4) [of 0] t(1) [of 1] cut_bounds [of "clk 0 - 48 * Hour"] cut_bounds [of "clk 5 - 24 * Hour"]
      cut_bounds [of "clk 1 - Minute"]
    by (auto)
  show ?thesis
    unfolding pruneRemovesOnlyAgedTerminal_def Let_def
    apply (rule freshI [OF assms(2)], use old in \<open>simp add: plain_defs time_Add_def\<close>, simp add: fresh_defs)
    apply (rule attemptsI, assumption, use old in \<open>simp add: plain_att_def mk_attempt_def zero_attempt_def time_Add_def\<close>)
    apply (rule pruneI [unfolded Let_def], assumption, use old in \<open>simp add: time_Add_def\<close>)
    apply (use cutoff in \<open>simp add: mem_Prune_def mem_SaveAttempts_def fresh_defs pruned_defs time_Add_def\<close>)
    apply (simp, intro conjI)
     apply (rule missingI, assumption, simp add: KeyFor_def)
    apply (rule loadI, assumption, simp add: KeyFor_def)
    apply (rule loadI, assumption, simp add: KeyFor_def)
    using prune [where t = zeroTime and sts = "[]"] 
    apply (force simp: got_def mem_Prune_def IsZero_def)
    done
qed

lemma pass_GroupsCollapseIdentifiers:
  assumes "suite_clock clk" "R s mem_Open"
  shows "groupsCollapseIdentifiers st s clk"
proof -
  let ?f = "zero_filter\<lparr>f_States := FailureStates\<rparr>"
  let ?job = "\<lambda>i. build_job (clk i) (rune_string (CHR ''a'') i) [withName (''import-rows-'' @ rune_string (CHR ''0'') i),
      withState StateFailed, withErr ''invalid payload'']"
  let ?z = "build_job (clk 5) ''z'' [withName ''send-email'', withState StateFailed, withErr ''timeout'']"
  let ?js = "map ?job [0..<5] @ [?z]"
  have f: "filter_plain ?f" by (simp add: filter_plain_defs)
  show ?thesis
    unfolding groupsCollapseIdentifiers_def Let_def
  proof (rule freshI [OF assms(2)])
    show "list_all plain_job ?js"
      using assms(1) by (simp add: list_all_iff plain_defs rune_string_def)
    show "distinct (map record_key ?js)"
      by (simp add: fresh_defs rune_defs)
    fix s' m assume R: "R s' m" and m: "ms_jobs m = fresh_rows res ?js"
    let ?a = "(NormalizeName ''import-rows-0'', StateFailed, ''invalid payload'')"
    let ?b = "(NormalizeName ''send-email'', StateFailed, ''timeout'')"
    have rows: "matching uc m ?f = map (\<lambda>j. stamped (cut_job res j)) ?js"
      by (simp add: m matching_def fresh_rows_def o_def job_matches_def matchesTerms_def matchesAttribute_def
          zero_filter_def IsZero_def ToLower_def Fields_def ascii_def build_defs FailureStates_def)
    have "map group_of (matching uc m ?f) = [?a, ?a, ?a, ?a, ?a, ?b]"
      unfolding rows using import_rows_patterns by (simp add: group_of_def build_defs rune_defs)
    then have groups: "\<exists>g g'. mem_GroupJobs ord uc m ?f 10 = [g, g'] \<and> family g = ?a \<and> grp_Count g = 5" for ord
      by (rule two_groups) simp
    show "got (st_GroupJobs st s' ?f 10) (\<lambda>groups.
           length groups = 2 \<and>
           grp_Count (groups ! 0) = 5 \<and>
           grp_Pattern (groups ! 0) = NormalizeName ''import-rows-0'' \<and>
           grp_Err (groups ! 0) = ''invalid payload'')"
    proof (rule groupsI [OF R f])
      show "length (mem_GroupJobs ord uc m ?f 10) = 2 \<and> grp_Count (mem_GroupJobs ord uc m ?f 10 ! 0) = 5 \<and>
          grp_Pattern (mem_GroupJobs ord uc m ?f 10 ! 0) = NormalizeName ''import-rows-0'' \<and>
          grp_Err (mem_GroupJobs ord uc m ?f 10 ! 0) = ''invalid payload''" for ord
        using groups [of ord] by (auto simp: family_def)
    qed
  qed
qed

lemma pass_TimelineBucketsAndRefusesAbsurdRanges:
  assumes "suite_clock clk" "R s mem_Open"
  shows "timelineBucketsAndRefusesAbsurdRanges st s clk"
proof -
  note t = suite_clock_bounds [OF assms(1)]
  let ?since = "cut res (clk 0 - 10 * Minute)"
  have since: "plain_time (time_Add (clk 0) (- 10 * Minute))" "Minute \<le> ?since" "0 \<le> ?since" "?since \<le> cut res (clk 0)"
     "?since \<le> clk 0 - 10 * Minute" "clk 0 - 10 * Minute < ?since + 1000"
    using t(3,4) [of 0] cut_bounds [of "clk 0 - 10 * Minute"] cut_mono [of "clk 0 - 10 * Minute" "clk 0"]
    by (simp_all add: plain_time_def time_Add_def)
  have now: "0 \<le> cut res (clk 0)" "cut res (clk 0) \<le> clk 0" "clk 0 \<le> clk 4" "clk 4 \<le> maxInt64"
    using t(3) [of 0] t(1,4) [of 4] cut_bounds [of "clk 0"] cut_pos [of "clk 0"] by simp_all
  have few: "time_Sub (clk 3) ?since sdiv Minute \<le> maxBuckets"
    using t(1,2) [of 3] since(5,6) by (simp add: time_Sub_def maxBuckets_def sdiv_nonneg)
  show ?thesis
    unfolding timelineBucketsAndRefusesAbsurdRanges_def Let_def
  proof (rule freshI [OF assms(2)])
    fix s' m assume R: "R s' m" and m: "ms_jobs m = fresh_rows res
        [build_job (clk 1) ''1'' [withState StateCompleted, withEnqueued (clk 0), withFinished (clk 0)],
         build_job (clk 2) ''2'' [withState StateFailed, withEnqueued (clk 0), withFinished (clk 0)]]"
    let ?done = "\<lambda>n. length (filter (\<lambda>j. job_State j = StateCompleted) (slot_jobs m ?since Minute n))"
    let ?failed = "\<lambda>n. length (filter (\<lambda>j. job_State j \<in> set FailureStates) (slot_jobs m ?since Minute n))"
    define bs where bs: "bs = map (\<lambda>n. \<lparr>bkt_Start = int64 (n * Minute), bkt_Completed = ?done n, bkt_Failed = ?failed n\<rparr>)
        [?since div Minute..clk 4 div Minute]"
    have tl: "mem_Timeline (clk 3) (clk 4) m ?since Minute = Inr bs"
      unfolding bs using since(3,5) now few by (intro Timeline_eq) auto
    have active: "lastActive j = cut res (clk 0)" if "j \<in> set (map snd (ms_jobs m))" for j
      using that by (auto simp: m fresh_rows_def build_defs lastActive_def After_def)
    have states: "map job_State (map snd (ms_jobs m)) = [StateCompleted, StateFailed]"
      by (simp add: m fresh_rows_def build_defs)
    have slot: "cut res (clk 0) div Minute \<in> {?since div Minute..clk 4 div Minute}"
      using since(4) now by (simp add: zdiv_mono1)
    have total: "(\<Sum>n \<leftarrow> [?since div Minute..clk 4 div Minute]. length (filter (\<lambda>j. P (job_State j)) (slot_jobs m ?since Minute n))) =
        length (filter P [StateCompleted, StateFailed])" for P
      unfolding states [symmetric]
      by (rule timeline_states [OF active _ now(1) _ since(4) _ slot])
        (use now states in \<open>simp_all add: Terminal_def Rank_def State_defs\<close>)
    have sums: "sum_list (map bkt_Completed bs) = 1" "sum_list (map bkt_Failed bs) = 1"
      using total [of "\<lambda>st. st = StateCompleted"] total [of "\<lambda>st. st \<in> set FailureStates"]
      by (simp_all add: bs o_def) (simp_all add: State_defs FailureStates_def)
    have "(?since + 10 * Minute) div Minute \<le> clk 4 div Minute"
      using since(5) now by (intro zdiv_mono1) auto
    then have long: "\<not> length bs < 10" by (simp add: bs)
    have ordered: "list_all (\<lambda>i. After (bkt_Start (bs ! i)) (bkt_Start (bs ! (i - 1)))) [1..<length bs]"
      using since(3) now by (intro buckets_ordered [OF _ _ _ _ bs]) auto
    have refuse: "refused (st_Timeline st (clk 5) (clk 6) s' (time_Add (clk 0) (- 30 * 24 * Hour)) Second)"
      by (rule absurd [OF R])
        (use t(1,2) [of 5] t(3) [of 0] zeroTime_neg in \<open>auto simp: time_Sub_def maxBuckets_def sdiv_nonneg time_Add_def\<close>)
    show "got (st_Timeline st (clk 3) (clk 4) s' (time_Add (clk 0) (- 10 * Minute)) Minute) (\<lambda>buckets.
        \<not> length buckets < 10 \<and>
        \<not> (sum_list (map bkt_Completed buckets) \<noteq> 1 \<or> sum_list (map bkt_Failed buckets) \<noteq> 1) \<and>
        list_all (\<lambda>i. After (bkt_Start (buckets ! i)) (bkt_Start (buckets ! (i - 1)))) [1..<length buckets] \<and>
      refused (st_Timeline st (clk 5) (clk 6) s' (time_Add (clk 0) (- 30 * 24 * Hour)) Second))"
    proof (rule timelineI [OF R since(1)])
      show "mem_Timeline (clk 3) (clk 4) m (cut res (time_Add (clk 0) (- 10 * Minute))) Minute = Inr bs"
        using tl by (simp add: time_Add_def)
    qed (use since(2) now sums long ordered refuse in \<open>simp_all add: time_Add_def\<close>)
  qed (simp_all add: plain_defs assms(1) fresh_defs)
qed

lemma pass_UpsertNeverRegressesState:
  assumes "suite_clock clk" "R s mem_Open"
  shows "upsertNeverRegressesState st s clk"
  unfolding upsertNeverRegressesState_def
  by (rule replay_states_pass [OF assms]) (simp_all add: ascii_def byte_def State_defs mem_Open_def, simp add: State_defs Terminal_iff)

theorem suite_passes:
  assumes "\<And>name. suite_clock (clks name)" "R s mem_Open"
  shows "RunSuite st s clks"
  unfolding RunSuite_def suite_cases_def list.pred_inject split_conv
  by (intro conjI list.pred_inject(1) pass_UpsertMergesOutOfOrderEvents pass_UpsertNeverRegressesState
      pass_UpsertKeepsLatestProgress pass_EpochsIsolateIdenticalIDs pass_QueuesIsolateIdenticalIDs
      pass_AttemptsRoundTrip pass_LineageIsScopedAndOrdered pass_FilterByQueueNameAndState
      pass_SearchMatchesAllTerms pass_FilterByAttribute pass_BeforeFreezesTheWindow
      pass_PaginationIsStableAndCounted pass_GroupsCollapseIdentifiers pass_CountsByState
      pass_ReconcileMarksDeadEpochs pass_ReconcileSparesLiveSiblings pass_PruneRemovesOnlyAgedTerminal
      pass_PruneRespectsStates pass_TimelineBucketsAndRefusesAbsurdRanges pass_AttributeKeysAreDiscovered
      pass_MissingJobIsAnError assms)

end

end
