(* ===== verification/Conformance_Stores.thy ===== *)
theory Conformance_Stores
  imports Conformance_Cases Memory_Impl
begin

text \<open>
  The backends of the repository as whole stores, and that each meets the contract of the
  conformance suite: the in-memory store with the resolution of a nanosecond, SQLite and
  Postgres (over a driver that does not fail) with that of a microsecond.
\<close>

subsection \<open>The in-memory store\<close>

definition mem_full :: "(group list \<Rightarrow> group list) \<Rightarrow> go_unicode \<Rightarrow> (mem_store, mem_error) store" where
  "mem_full ord uc = store_impl.extend mem_impl
     (store.fields (mem_Jobs uc) (\<lambda>s f. Inr (mem_CountJobs uc s f)) (\<lambda>s f n. Inr (mem_GroupJobs ord uc s f n))
        mem_Timeline (\<lambda>s n. Inr (mem_AttributeKeys s n)) mem_Job (\<lambda>s e q r. Inr (mem_Lineage s e q r))
        (\<lambda>s. Inr (mem_Counts s)))"

lemmas mem_full_defs = mem_full_def mem_impl_def store_impl.defs store.defs

lemma cut_1 [simp]: "cut 1 t = t"
  by (simp add: cut_def)

lemma cut_job_1 [simp]: "cut_job 1 = id"
  by (rule ext) (simp add: cut_job_def)

lemma cut_att_1 [simp]: "cut_att 1 = id"
  by (rule ext) (simp add: cut_att_def)

lemma Reconcile_cutoff: "mem_ReconcileEpoch (now - d) m e 0 = mem_ReconcileEpoch now m e d"
  by (simp add: mem_ReconcileEpoch_def time_Add_def)

interpretation whole_mem: faithful_store 1 "mem_full ord uc" uc "(=)" for ord uc
proof unfold_locales
  show "\<exists>js ms. st_Jobs (mem_full ord uc) s f = Inr js \<and> mem_Jobs uc m f = Inr ms \<and> length js = length ms \<and>
           (distinct (map job_EnqueuedAt (matching uc m f)) \<longrightarrow> js = ms)"
    if "s = m" "0 \<le> f_Offset f" for s m f
    using that by (auto simp: mem_full_defs mem_Jobs_def Let_def)
  show "\<exists>ks. st_AttributeKeys (mem_full ord uc) s limit = Inr ks \<and>
           (int (length (attr_tally m)) \<le> clamp_limit 50 20 limit \<longrightarrow> set ks = set (keys (attr_tally m)))"
    if "s = m" for s m limit
    using that by (simp add: mem_full_defs mem_AttributeKeys_def Let_def)
  show "refused (st_Timeline (mem_full ord uc) now now' s since width)"
    if "s = m" "since \<noteq> zeroTime" "0 < width" "time_Sub now since sdiv width > maxBuckets"
    for s m since width now now'
    using that by (simp add: mem_full_defs mem_Timeline_def refused_def IsZero_def Let_def)
qed (auto simp: mem_full_defs refused_def Reconcile_cutoff case_prod_unfold Let_def split: sum.splits)

subsection \<open>The SQL backends\<close>

definition sql_full :: "sql_dialect \<Rightarrow> go_unicode \<Rightarrow> driver \<Rightarrow> (sql_db, sql_error) store" where
  "sql_full d uc dr = store_impl.extend
     (store_impl.make (sql_Migrate d dr) (sql_UpsertJobs d dr) (sql_SaveAttempts d dr) (sql_Heartbeat d dr)
        (sql_ReconcileEpoch d dr) (sql_Prune d dr))
     (store.fields (sql_Jobs d uc dr) (sql_CountJobs d uc dr) (sql_GroupJobs d uc dr) (sql_Timeline d dr)
        (sql_AttributeKeys d dr) (sql_Job d dr) (sql_Lineage d dr) (sql_Counts d dr))"

lemmas sql_full_defs = sql_full_def store_impl.defs store.defs

lemma canon_time_cut: "plain_time t \<Longrightarrow> canon_time t = cut 1000 t"
proof -
  assume "plain_time t"
  then consider "t = zeroTime" | "1000 \<le> t" "t \<le> maxInt64" by (auto simp: plain_time_def)
  then show ?thesis
  proof cases
    case 1
    then show ?thesis by (simp add: canon_time_def unix_def IsZero_def fromUnix_def)
  next
    case 2
    then have "t div 1000 \<noteq> 0" "t div 1000 \<le> maxInt64" by simp_all
    with 2 zeroTime_neg show ?thesis
      by (simp add: canon_time_def unix_eq fromUnix_def time_UnixMicro_def cut_def)
  qed
qed

lemma unix_cut: "plain_time t \<Longrightarrow> unix t * 1000 \<le> maxInt64"
  using zeroTime_neg by (auto simp: plain_time_def unix_def IsZero_def UnixMicro_def int64_id)

lemma plain_job_ok: "plain_job j \<Longrightarrow> job_ok j"
  by (simp add: plain_job_def job_ok_def plain_time_ok)

lemma plain_job_cut: "plain_job j \<Longrightarrow> canon_job j = cut_job 1000 j"
  by (simp add: plain_job_def canon_job_def cut_job_def canon_time_cut)

lemma plain_att_ok: "plain_att a \<Longrightarrow> att_ok key_id a"
  by (simp add: plain_att_def att_ok_def plain_time_ok attempt_key_def key_id_KeyFor)

lemma plain_att_cut: "plain_att a \<Longrightarrow> canon_att a = cut_att 1000 a"
  by (simp add: plain_att_def canon_att_def cut_att_def canon_time_cut)

definition plain_row :: "string \<times> job_row \<Rightarrow> bool" where
  "plain_row = (\<lambda>(k, r). ascii (jr_id r) \<and> ascii (jr_name r) \<and> plain_attrs (jr_attributes r) \<and>
     jr_enqueued_at r * 1000 \<le> maxInt64 \<and> jr_finished_at r * 1000 \<le> maxInt64)"

definition sql_rel :: "sql_db \<Rightarrow> mem_store \<Rightarrow> bool" where
  "sql_rel db m \<longleftrightarrow> db_ok key_id db \<and> stands_for db m \<and> list_all plain_row (db_jobs db)"

lemma sql_rel_New: "sql_rel sql_New mem_Open"
  by (simp add: sql_rel_def db_ok_New stands_for_New) (simp add: sql_New_def)

lemma plain_row_values: "plain_job j \<Longrightarrow> plain_row (k, sql_values j)"
  by (simp add: plain_row_def sql_values_def plain_job_def unix_cut)

lemma plain_row_set: "plain_row (k, r) \<Longrightarrow> plain_row (k, x) \<Longrightarrow> plain_row (k, upsert_set r x)"
  by (auto simp: plain_row_def upsert_set_def)

lemma plain_row_state: "plain_row (k, r\<lparr>jr_state := a, jr_state_rank := b\<rparr>) = plain_row (k, r)"
  by (simp add: plain_row_def)

lemma plain_rows_upsert: "list_all plain_row tbl \<Longrightarrow> plain_job j \<Longrightarrow> list_all plain_row (upsert_exec j tbl)"
  unfolding upsert_exec_def Let_def
  by (rule list_all_update)
    (auto simp: plain_row_values plain_row_set dest: list_all_lookup split: option.splits)

lemma plain_rows_fold:
  "list_all plain_row tbl \<Longrightarrow> list_all plain_job js \<Longrightarrow> list_all plain_row (fold upsert_exec js tbl)"
  by (induction js arbitrary: tbl) (simp_all add: plain_rows_upsert)

lemma exec_each_quiet: "exec_each (\<lambda>_. None) i f xs tbl = Inr (fold f xs tbl)"
  by (induction xs arbitrary: i tbl) simp_all

lemma in_tx_quiet: "in_tx quiet what f xs tbl = Inr (fold f xs tbl)"
  by (simp add: in_tx_def quiet_def exec_each_quiet)

lemma Upsert_quiet: "sql_UpsertJobs d quiet db js = (None, db\<lparr>db_jobs := fold upsert_exec js (db_jobs db)\<rparr>)"
  by (simp add: sql_UpsertJobs_def in_tx_quiet)

lemma SaveAttempts_quiet:
  "sql_SaveAttempts d quiet db as = (None, db\<lparr>db_attempts := fold att_exec as (db_attempts db)\<rparr>)"
  by (simp add: sql_SaveAttempts_def in_tx_quiet)

lemma sql_rel_upsert:
  assumes "sql_rel db m" "list_all plain_job js" "sql_UpsertJobs d quiet db js = (None, db')"
  shows "sql_rel db' (mem_UpsertJobs m (map (cut_job 1000) js))"
proof -
  have "list_all job_ok js" "map canon_job js = map (cut_job 1000) js"
    using assms(2) by (auto simp: list_all_iff plain_job_ok plain_job_cut)
  with Upsert_simulates [OF assms(3), of key_id m] assms show ?thesis
    by (simp add: sql_rel_def) (auto simp: Upsert_quiet plain_rows_fold)
qed

lemma sql_rel_attempts:
  assumes "sql_rel db m" "list_all plain_att as" "sql_SaveAttempts d quiet db as = (None, db')"
  shows "sql_rel db' (mem_SaveAttempts m (map (cut_att 1000) as))"
proof -
  have "list_all (att_ok key_id) as" "map canon_att as = map (cut_att 1000) as"
    using assms(2) by (auto simp: list_all_iff plain_att_ok plain_att_cut)
  with SaveAttempts_simulates [OF assms(3), of key_id m] assms show ?thesis
    by (simp add: sql_rel_def) (auto simp: SaveAttempts_quiet)
qed

lemma sql_rel_heartbeat:
  assumes "sql_rel db m" "plain_time t" "sql_Heartbeat d quiet db e t = (None, db')"
  shows "sql_rel db' (mem_Heartbeat m e (cut 1000 t))"
  using Heartbeat_simulates [OF assms(3), of key_id m] assms plain_time_ok [OF assms(2)] canon_time_cut [OF assms(2)]
  by (simp add: sql_rel_def) (auto simp: sql_Heartbeat_def quiet_def)

lemma sql_rel_reconcile:
  assumes "sql_rel db m" "plain_time (now - dur)" "sql_ReconcileEpoch d quiet now db e dur = (Inr n, db')"
  shows "sql_rel db' (fst (mem_ReconcileEpoch (cut 1000 (now - dur)) m e 0)) \<and>
         n = snd (mem_ReconcileEpoch (cut 1000 (now - dur)) m e 0)"
proof -
  have "list_all plain_row (db_jobs db')"
    using assms(1,3) by (auto simp: sql_rel_def sql_ReconcileEpoch_def quiet_def Let_def list_all_iff plain_row_state)
  then show ?thesis
    using Reconcile_simulates [OF assms(3), of key_id m] assms(1) plain_time_ok [OF assms(2)] canon_time_cut [OF assms(2)]
    by (simp add: sql_rel_def)
qed

lemma sql_rel_prune:
  assumes "sql_rel db m" "plain_time t" "sql_Prune d quiet db t sts = (Inr n, db')"
  shows "sql_rel db' (fst (mem_Prune m (cut 1000 t) sts)) \<and> n = snd (mem_Prune m (cut 1000 t) sts)"
proof -
  have "list_all plain_row (db_jobs db')"
    using assms(1,3)
    by (auto simp: sql_rel_def sql_Prune_def quiet_def Let_def list_all_iff plain_row_def split: if_splits)
  then show ?thesis
    using Prune_simulates [OF assms(3), of key_id m] assms(1) plain_time_ok [OF assms(2)] canon_time_cut [OF assms(2)]
    by (simp add: sql_rel_def)
qed

subsection \<open>Queries\<close>

text \<open>Oldest first, the rows are the lineage of the in-memory store wherever times decide.\<close>

interpretation row_older: slice_order row_older
  unfolding row_older_def by (rule slice_order_by_key)

lemma oldest_first_agrees:
  assumes "list_all row_ok rows"
  defines "js \<equiv> map (\<lambda>(k, r). row_job k r) rows"
  assumes "distinct (map job_EnqueuedAt js)"
  shows "map (\<lambda>(k, r). row_job k r) (sort_slice row_older rows) = sort_slice job_older js"
  unfolding js_def
proof (rule sort_slice_map [symmetric])
  fix x y assume xy: "x \<in> set rows" "y \<in> set rows"
  obtain k r k' r' where e: "x = (k, r)" "y = (k', r')" by (cases x, cases y)
  have ok: "row_ok (k, r)" "row_ok (k', r')" using assms(1) xy e by (auto simp: list_all_iff)
  show "job_older (case x of (k, r) \<Rightarrow> row_job k r) (case y of (k, r) \<Rightarrow> row_job k r) \<longleftrightarrow> row_older x y"
  proof (cases "jr_enqueued_at r = jr_enqueued_at r'")
    case True
    have "row_job k r \<in> set js" "row_job k' r' \<in> set js"
      using xy e by (auto simp: js_def intro: row_job_in)
    moreover have "job_EnqueuedAt (row_job k r) = job_EnqueuedAt (row_job k' r')"
      using True by (simp add: row_job_def)
    ultimately have "row_job k r = row_job k' r'"
      using assms(3) by (simp add: distinct_map inj_on_def)
    then show ?thesis using True older.irrefl by (simp add: e row_older_def)
  next
    case False
    then show ?thesis
      using ok by (simp add: e job_older_def row_older_def Before_def row_job_def row_ok_def fromUnix_order)
  qed
qed

lemma Lineage_agrees:
  assumes "db_ok id_of db" "stands_for db m" "list_all (row_plain d) (db_jobs db)" "answers dr"
  shows "\<exists>js. sql_Lineage d dr db e q r = Inr js \<and> mset js = mset (mem_Lineage m e q r) \<and>
     (distinct (map job_EnqueuedAt (mem_Lineage m e q r)) \<longrightarrow> js = mem_Lineage m e q r)"
proof -
  let ?rows = "filter (\<lambda>(_, row). lineage_row e q r row) (db_jobs db)"
  let ?js = "map (\<lambda>(k, row). row_job k row) ?rows"
  have ok: "list_all row_ok ?rows" "list_all (row_plain d) ?rows"
    using assms(1,3) by (auto simp: db_ok_def list_all_iff)
  have jobs: "filter (in_lineage e q r) (map snd (ms_jobs m)) = ?js"
    using assms(2)
    by (simp add: stands_for_def abs_jobs_def filter_map o_def case_prod_unfold in_lineage_def lineage_row_def row_job_def)
      (auto intro!: arg_cong [where f = "map _"] filter_cong)
  have scan: "map (scan d) (sort_slice row_older ?rows) = map (\<lambda>(k, row). row_job k row) (sort_slice row_older ?rows)"
    using ok(2) by (auto simp: list_all_iff scanJob_row_job)
  show ?thesis
    using oldest_first_agrees [OF ok(1)]
    by (auto simp: sql_Lineage_def sql_query_answers [OF assms(4)] mem_Lineage_def jobs scan)
qed

lemma Job_agrees:
  assumes "db_ok id_of db" "stands_for db m" "list_all (row_plain d) (db_jobs db)"
    and "dr_exec dr 0 = None" "dr_exec dr 1 = None" "dr_rows dr = None"
  shows "case mem_Job m key of
           Inl _ \<Rightarrow> refused (sql_Job d dr db key)
         | Inr (j, as) \<Rightarrow> \<exists>as'. sql_Job d dr db key = Inr (j, as') \<and> map unscoped as' = map unscoped as"
proof (cases "map_of (db_jobs db) key")
  case None
  then show ?thesis
    using assms(2,4) by (simp add: mem_Job_def sql_Job_def stands_for_def map_of_abs_jobs refused_def)
next
  case (Some r)
  let ?tbl = "filter (\<lambda>((job_key, _), _). job_key = key) (db_attempts db)"
  have "row_plain d (key, r)" using assms(3) Some by (rule list_all_lookup)
  then have job: "scanJob d key r = row_job key r" by (rule scanJob_row_job)
  have rows: "att_row_ok id_of x" if "x \<in> set ?tbl" for x
    using that assms(1) by (auto simp: db_ok_def list_all_iff)
  have unscan: "unscoped (scan_attempt ep x) = scan_attempt [] x" for ep x
    by (simp add: unscoped_def scan_attempt_def zero_attempt_def split: prod.splits)
  have before: "attempt_before (scan_attempt [] x) (scan_attempt [] y) \<longleftrightarrow> att_started x < att_started y"
    if "x \<in> set ?tbl" "y \<in> set ?tbl" for x y
    using rows [OF that(1)] rows [OF that(2)]
    by (auto simp: attempt_before_def scan_attempt_def att_started_def att_row_ok_def Before_def fromUnix_order
        zero_attempt_def split: prod.splits)
  have "map (scan_attempt []) (sort_slice (\<lambda>a b. att_started a < att_started b) ?tbl) =
      sort_slice attempt_before (tries_in (db_attempts db) key)"
    unfolding tries_in_def by (rule sort_slice_map [symmetric]) (rule before)
  also have "\<dots> = sort_slice attempt_before (map unscoped (attempts_at (ms_attempts m) key))"
    using assms(2) by (simp add: stands_for_def)
  also have "\<dots> = map unscoped (sort_slice attempt_before (attempts_at (ms_attempts m) key))"
    by (rule sort_slice_map) (simp add: attempt_before_def unscoped_def)
  finally show ?thesis
    using Some assms(2,4-6)
    by (simp add: mem_Job_def sql_Job_def stands_for_def map_of_abs_jobs job unscan o_def Let_def)
qed

lemma attr_tally_agrees:
  assumes "stands_for db m" "list_all (row_plain d) (db_jobs db)"
  shows "row_attr_tally d db = attr_tally m"
proof -
  let ?g = "\<lambda>r. fold tally_incr (keys (jr_attributes r))"
  have plain: "read_attributes d r = jr_attributes r" if "r \<in> snd ` set (db_jobs db)" for r
    using that assms(2) by (auto simp: list_all_iff row_plain_def read_attributes_def)
  have skip: "fold ?g (filter (\<lambda>r. jr_attributes r \<noteq> []) rs) t = fold ?g rs t" for rs t
    by (induction rs arbitrary: t) auto
  have "row_attr_tally d db = fold ?g (filter (\<lambda>r. jr_attributes r \<noteq> []) (map snd (db_jobs db))) []"
    unfolding row_attr_tally_def by (rule List.fold_cong) (use plain in auto)
  also have "\<dots> = attr_tally m"
    using assms(1) unfolding skip by (simp add: attr_tally_def stands_for_def abs_jobs_def fold_map o_def case_prod_unfold row_job_def)
  finally show ?thesis .
qed

lemma sdiv_le_bound: "a \<le> b \<Longrightarrow> 0 < w \<Longrightarrow> b sdiv w \<le> M \<Longrightarrow> 0 \<le> M \<Longrightarrow> (a::int) sdiv w \<le> M"
proof (cases "0 \<le> a")
  case True
  assume "a \<le> b" "0 < w" "b sdiv w \<le> M"
  with True show ?thesis using zdiv_mono1 [of a b w] by (simp add: sdiv_nonneg)
next
  case False
  assume "0 < w" "0 \<le> M"
  with False show ?thesis using sdiv_neg_le [of a w] by simp
qed

lemma time_Sub_mono: "u \<le> v \<Longrightarrow> time_Sub t v \<le> time_Sub t u"
  by (auto simp: time_Sub_def max_def min_def)

text \<open>A window that does not start on a whole microsecond is the window of the microsecond it starts in.\<close>

lemma Timeline_cut:
  assumes "sql_rel db m" "plain_time since" "1000 dvd width" "0 < width" "width \<le> cut 1000 since"
    and "0 \<le> now'" "now' \<le> maxInt64" "mem_Timeline now now' m (cut 1000 since) width = Inr bs"
  shows "sql_Timeline d quiet now now' db since width = Inr bs"
proof -
  obtain w where w: "width = 1000 * w" using assms(3) by blast
  have since: "1000 \<le> since" "since \<le> maxInt64"
    using assms(2,4,5) zeroTime_neg by (auto simp: plain_time_def)
  define start where "start = since div 1000"
  have start: "cut 1000 since = 1000 * start" "start * 1000 \<le> since"
    using since zeroTime_neg by (simp_all add: cut_def start_def)
  have win: "micro_window (cut 1000 since) width start w"
    using assms(4,5) start since(2) w by (simp add: micro_window_def)
  have rows: "list_all (\<lambda>(_, r). row_active r * 1000 \<le> maxInt64) (db_jobs db)"
    using assms(1) by (auto simp: sql_rel_def list_all_iff plain_row_def row_active_def max_def)
  have sql: "sql_Timeline d quiet now now' db (cut 1000 since) width = Inr bs"
    using Timeline_agrees [OF win _ rows _ _ assms(6,7), of key_id m quiet d now] assms(1,8)
    by (simp add: sql_rel_def answers_def quiet_def)
  have few: "\<not> time_Sub now (cut 1000 since) sdiv width > maxBuckets"
    using assms(8) start assms(4,5) by (auto simp: mem_Timeline_def Let_def split: if_splits)
  then have few': "\<not> time_Sub now since sdiv width > maxBuckets"
    using sdiv_le_bound [OF time_Sub_mono [of "cut 1000 since" since now] assms(4), of maxBuckets] start
    by (simp add: maxBuckets_def)
  have "unix since = unix (cut 1000 since)"
    using since micro_window_start(3) [OF win] by (simp add: unix_eq start_def)
  moreover have "\<not> width \<le> 0" using assms(4) by simp
  ultimately have "sql_Timeline d quiet now now' db since width = sql_Timeline d quiet now now' db (cut 1000 since) width"
    using few few' by (simp only: sql_Timeline_def Let_def if_False)
  with sql show ?thesis by simp
qed

subsection \<open>A dialect that reads attributes back conforms\<close>

locale json_dialect = sql_matching_laws +
  assumes json: "plain_attrs attrs \<Longrightarrow> dl_json d attrs = attrs"
begin

lemma rows_plain: "list_all plain_row tbl \<Longrightarrow> list_all (row_plain d) tbl"
  by (auto simp: list_all_iff plain_row_def row_plain_def json)

lemma listing_agrees:
  assumes "sql_rel db m" "filter_plain f" "0 \<le> f_Offset f"
  shows "\<exists>js ms. sql_Jobs d uc quiet db f = Inr js \<and> mem_Jobs uc m f = Inr ms \<and> length js = length ms \<and>
           (distinct (map job_EnqueuedAt (matching uc m f)) \<longrightarrow> js = ms)"
proof -
  note db = assms(1) [unfolded sql_rel_def]
  have quiet: "answers quiet" by (simp add: answers_def quiet_def)
  have "length (sql_matching d uc db f) = length (matching uc m f)"
    using matching_agrees [of key_id db m f uc] db assms(2) rows_plain by (metis length_map)
  then obtain js ms where "sql_Jobs d uc quiet db f = Inr js" "mem_Jobs uc m f = Inr ms" "length js = length ms"
    using assms(3) by (simp add: sql_Jobs_def Let_def sql_query_answers [OF quiet] mem_Jobs_window)
  then show ?thesis
    using Jobs_agrees [OF _ _ assms(2) _ quiet assms(3), of key_id db m uc] db rows_plain by auto
qed

sublocale whole: faithful_store 1000 "sql_full d uc quiet" uc sql_rel for uc
proof unfold_locales
  have quiet: "answers quiet" "dr_exec quiet 0 = None" "dr_exec quiet 1 = None" "dr_rows quiet = None"
    by (simp_all add: answers_def quiet_def)
  note db = sql_rel_def [THEN iffD1]
  show "\<exists>s'. si_UpsertJobs (sql_full d uc quiet) s js = (None, s') \<and> sql_rel s' (mem_UpsertJobs m (map (cut_job 1000) js))"
    if "sql_rel s m" "list_all plain_job js" for s m js
    using sql_rel_upsert [OF that, of d] by (simp add: sql_full_defs Upsert_quiet)
  show "\<exists>s'. si_SaveAttempts (sql_full d uc quiet) s as = (None, s') \<and> sql_rel s' (mem_SaveAttempts m (map (cut_att 1000) as))"
    if "sql_rel s m" "list_all plain_att as" for s m as
    using sql_rel_attempts [OF that, of d] by (simp add: sql_full_defs SaveAttempts_quiet)
  show "\<exists>s'. si_Heartbeat (sql_full d uc quiet) s e t = (None, s') \<and> sql_rel s' (mem_Heartbeat m e (cut 1000 t))"
    if "sql_rel s m" "plain_time t" for s m t e
    using sql_rel_heartbeat [OF that, of d e] by (simp add: sql_full_defs sql_Heartbeat_def quiet)
  show "\<exists>s'. si_ReconcileEpoch (sql_full d uc quiet) now s e dur =
        (Inr (snd (mem_ReconcileEpoch (cut 1000 (now - dur)) m e 0)), s') \<and>
      sql_rel s' (fst (mem_ReconcileEpoch (cut 1000 (now - dur)) m e 0))"
    if "sql_rel s m" "plain_time (now - dur)" for s m now dur e
  proof -
    obtain n s' where "sql_ReconcileEpoch d quiet now s e dur = (Inr n, s')"
      by (simp add: sql_ReconcileEpoch_def quiet Let_def)
    with sql_rel_reconcile [OF that this] show ?thesis by (simp add: sql_full_defs)
  qed
  show "\<exists>s'. si_Prune (sql_full d uc quiet) s t sts = (Inr (snd (mem_Prune m (cut 1000 t) sts)), s') \<and>
      sql_rel s' (fst (mem_Prune m (cut 1000 t) sts))"
    if "sql_rel s m" "plain_time t" for s m t sts
  proof -
    obtain n s' where "sql_Prune d quiet s t sts = (Inr n, s')"
      by (cases "unix t = 0") (simp_all add: sql_Prune_def quiet_def Let_def)
    with sql_rel_prune [OF that this] show ?thesis by (simp add: sql_full_defs)
  qed
  show "case mem_Job m key of Inl _ \<Rightarrow> refused (st_Job (sql_full d uc quiet) s key)
      | Inr (j, as) \<Rightarrow> \<exists>as'. st_Job (sql_full d uc quiet) s key = Inr (j, as') \<and> map unscoped as' = map unscoped as"
    if "sql_rel s m" for s m key
  proof -
    have job: "st_Job (sql_full d uc quiet) = sql_Job d quiet" by (simp add: sql_full_defs)
    show ?thesis
      unfolding job using Job_agrees [of key_id s m d quiet key] db [OF that] rows_plain quiet by simp
  qed
  show "\<exists>js ms. st_Jobs (sql_full d uc quiet) s f = Inr js \<and> mem_Jobs uc m f = Inr ms \<and> length js = length ms \<and>
           (distinct (map job_EnqueuedAt (matching uc m f)) \<longrightarrow> js = ms)"
    if "sql_rel s m" "filter_plain f" "0 \<le> f_Offset f" for s m f
    using listing_agrees [OF that, of uc] by (simp add: sql_full_defs)
  show "st_CountJobs (sql_full d uc quiet) s f = Inr (mem_CountJobs uc m f)"
    if "sql_rel s m" "filter_plain f" for s m f
    using CountJobs_agrees [of key_id s m f quiet uc] db [OF that(1)] that(2) rows_plain quiet by (simp add: sql_full_defs)
  show "\<exists>ord. st_GroupJobs (sql_full d uc quiet) s f limit = Inr (mem_GroupJobs ord uc m f limit)"
    if "sql_rel s m" "filter_plain f" for s m f limit
    using GroupJobs_agrees [of key_id s m f quiet uc] db [OF that(1)] that(2) rows_plain quiet by (simp add: sql_full_defs)
  show "\<exists>js. st_Lineage (sql_full d uc quiet) s e q r = Inr js \<and> mset js = mset (mem_Lineage m e q r) \<and>
           (distinct (map job_EnqueuedAt (mem_Lineage m e q r)) \<longrightarrow> js = mem_Lineage m e q r)"
    if "sql_rel s m" for s m e q r
    using Lineage_agrees [of key_id s m d quiet e q r] db [OF that] rows_plain quiet by (simp add: sql_full_defs)
  show "st_Counts (sql_full d uc quiet) s = Inr (mem_Counts m)" if "sql_rel s m" for s m
    using Counts_agrees [of s m quiet d] db [OF that] quiet by (simp add: sql_full_defs)
  show "\<exists>ks. st_AttributeKeys (sql_full d uc quiet) s limit = Inr ks \<and>
           (int (length (attr_tally m)) \<le> clamp_limit 50 20 limit \<longrightarrow> set ks = set (keys (attr_tally m)))"
    if "sql_rel s m" for s m limit
    using attr_tally_agrees [of s m d] db [OF that] rows_plain
    by (simp add: sql_full_defs sql_AttributeKeys_def sql_query_answers [OF quiet(1)] Let_def)
  show "st_Timeline (sql_full d uc quiet) now now' s since width = Inr bs"
    if "sql_rel s m" "plain_time since" "1000 dvd width" "0 < width" "width \<le> cut 1000 since" "0 \<le> now'"
      "now' \<le> maxInt64" "mem_Timeline now now' m (cut 1000 since) width = Inr bs" for s m since width now now' bs
    using Timeline_cut [OF that] by (simp add: sql_full_defs)
  show "refused (st_Timeline (sql_full d uc quiet) now now' s since width)"
    if "0 < width" "time_Sub now since sdiv width > maxBuckets" for s since width now now'
    using that by (simp add: sql_full_defs sql_Timeline_def refused_def Let_def)
qed simp_all

end

text \<open>
  An engine that reads plain attributes back as they were written makes both dialects conform;
  \<open>json_engine\<close> is any engine, corrected to do so.
\<close>

definition json_engine :: "sql_engine \<Rightarrow> sql_engine" where
  "json_engine en = en\<lparr>en_json := (\<lambda>attrs. if plain_attrs attrs then attrs else en_json en attrs)\<rparr>"

interpretation json_sqlite: json_dialect "sqlite (json_engine en)" for en
  by unfold_locales (simp add: sqlite_def json_engine_def)

interpretation json_postgres: json_dialect "postgres (json_engine en)" for en
  by unfold_locales (simp add: postgres_def json_engine_def)

lemma json_engine_id: "(\<And>attrs. plain_attrs attrs \<Longrightarrow> en_json en attrs = attrs) \<Longrightarrow> json_engine en = en"
  by (rule sql_engine.equality) (auto simp: json_engine_def)

subsection \<open>Properties\<close>

text \<open>
  C3. Every backend of the repository passes the conformance suite. The in-memory store,
  SQLite and Postgres pass all twenty-one cases of \<open>RunSuite\<close> on a fresh store, at every
  time the suite could run (a clock that does not go back, less than a minute per case, any
  date between February 1970 and 2262), for every behaviour of the database on text beyond
  ASCII, and for every order in which the map of the in-memory store and the groupings of the
  databases yield groups of equal rank. (The database driver does not fail, and JSON reads ASCII attributes back as written.)
\<close>

theorem backends_conform:
  assumes "\<And>name. suite_clock (clks name)"
    and "\<And>attrs. plain_attrs attrs \<Longrightarrow> en_json en attrs = attrs"
  shows "RunSuite (mem_full ord uc) mem_Open clks \<and>
         RunSuite (sql_full (sqlite en) uc quiet) sql_New clks \<and>
         RunSuite (sql_full (postgres en) uc quiet) sql_New clks"
proof -
  have en: "json_engine en = en" using assms(2) by (rule json_engine_id)
  show ?thesis
    using whole_mem.suite_passes [OF assms(1) refl, where ord = ord and uc = uc]
      json_sqlite.whole.suite_passes [OF assms(1) sql_rel_New, where en = en and uc = uc]
      json_postgres.whole.suite_passes [OF assms(1) sql_rel_New, where en = en and uc = uc]
    by (simp add: en)
qed

definition demo_clock :: "nat \<Rightarrow> gotime" where
  "demo_clock i = 1700000000000000000 + int (min i 20)"

lemma demo_clock_ok: "suite_clock demo_clock"
  by (auto simp: suite_clock_def demo_clock_def mono_def)

theorem backends_conform_witness:
  "let uc = \<lparr>uc_lower = id, uc_fields = (\<lambda>_. [])\<rparr>; clks = (\<lambda>_. demo_clock)
   in RunSuite (mem_full rev uc) mem_Open clks \<and>
      RunSuite (sql_full (sqlite demo_engine) uc quiet) sql_New clks \<and>
      RunSuite (sql_full (postgres demo_engine) uc quiet) sql_New clks"
  using backends_conform [of "\<lambda>_. demo_clock" demo_engine] demo_clock_ok
  by (simp add: Let_def demo_engine_def)

end
