(* ===== verification/Sink_Sql.thy ===== *)
theory Sink_Sql
  imports Sink_History Conformance_Stores
begin

text \<open>
  A sink over a SQL backend. The store behind the sink is a database together with the number
  of operations it has served; \<open>drs n\<close> is what the driver answers to the \<open>n\<close>-th, so any of them
  may fail at any of its calls. Both dialects meet \<open>store_contract\<close>, and the sink's history
  theorems follow for them: the rows of the database are the fold of the records it took.
\<close>

subsection \<open>A database that serves one operation after the other\<close>

type_synonym sql_server = "sql_db \<times> nat"

definition served :: "nat \<Rightarrow> 'r \<times> sql_db \<Rightarrow> 'r \<times> sql_server" where
  "served n r = (fst r, (snd r, Suc n))"

definition sql_impl :: "sql_dialect \<Rightarrow> (nat \<Rightarrow> driver) \<Rightarrow> sql_server store_impl" where
  "sql_impl d drs =
     \<lparr>si_Migrate = (\<lambda>(db, n). served n (sql_Migrate d (drs n) db)),
      si_UpsertJobs = (\<lambda>(db, n) js. served n (sql_UpsertJobs d (drs n) db js)),
      si_SaveAttempts = (\<lambda>(db, n) as. served n (sql_SaveAttempts d (drs n) db as)),
      si_Heartbeat = (\<lambda>(db, n) e t. served n (sql_Heartbeat d (drs n) db e t)),
      si_ReconcileEpoch = (\<lambda>now (db, n) e dur. served n (sql_ReconcileEpoch d (drs n) now db e dur)),
      si_Prune = (\<lambda>(db, n) before states. served n (sql_Prune d (drs n) db before states))\<rparr>"

lemma served_eq: "served n r = (x, s) \<longleftrightarrow> r = (x, fst s) \<and> snd s = Suc n"
  by (cases r, cases s) (auto simp: served_def)

subsection \<open>What is observed of a database\<close>

definition tables_ok :: "sql_server \<Rightarrow> bool" where
  "tables_ok s \<longleftrightarrow> wf_map (db_jobs (fst s)) \<and> wf_map (db_epochs (fst s)) \<and>
     list_all row_ok (db_jobs (fst s)) \<and> list_all (att_row_ok key_id) (db_attempts (fst s))"

definition db_row :: "sql_server \<Rightarrow> string \<Rightarrow> job option" where
  "db_row s k = map_option (row_job k) (map_of (db_jobs (fst s)) k)"

definition db_beat :: "sql_server \<Rightarrow> string \<Rightarrow> gotime option" where
  "db_beat s e = map_option fromUnix (map_of (db_epochs (fst s)) e)"

definition db_tries :: "sql_server \<Rightarrow> string \<Rightarrow> attempt list" where
  "db_tries s = tries_in (db_attempts (fst s))"

lemmas db_views = tables_ok_def db_row_def db_beat_def db_tries_def

definition cutoff_ok :: "gotime \<Rightarrow> bool" where
  "cutoff_ok t \<longleftrightarrow> 1000 \<le> t \<and> t div 1000 \<le> maxInt64"

lemma Upsert_done:
  "sql_UpsertJobs d dr db js = (None, db') \<Longrightarrow> db' = db\<lparr>db_jobs := fold upsert_exec js (db_jobs db)\<rparr>"
  by (auto simp: sql_UpsertJobs_def dest: in_tx_done split: if_splits sum.splits)

lemma SaveAttempts_done:
  "sql_SaveAttempts d dr db as = (None, db') \<Longrightarrow> db' = db\<lparr>db_attempts := fold att_exec as (db_attempts db)\<rparr>"
  by (auto simp: sql_SaveAttempts_def dest: in_tx_done split: if_splits sum.splits)

lemma Upsert_failed: "sql_UpsertJobs d dr db js = (Some e, db') \<Longrightarrow> db' = db"
  by (auto simp: sql_UpsertJobs_def split: if_splits sum.splits)

lemma SaveAttempts_failed: "sql_SaveAttempts d dr db as = (Some e, db') \<Longrightarrow> db' = db"
  by (auto simp: sql_SaveAttempts_def split: if_splits sum.splits)

lemma Migrate_keeps: "sql_Migrate d dr db = (r, db') \<Longrightarrow> db' = db"
proof -
  have "exec_each answer i (\<lambda>_. id) xs tbl = Inr tbl' \<Longrightarrow> tbl' = tbl" for answer i and xs :: "nat list" and tbl tbl' :: sql_db
    by (induction xs arbitrary: i) (auto split: option.splits)
  then show "sql_Migrate d dr db = (r, db') \<Longrightarrow> db' = db"
    by (auto simp: sql_Migrate_def split: sum.splits)
qed

lemma wf_map_upserts: "wf_map tbl \<Longrightarrow> wf_map (fold upsert_exec js tbl)"
  by (rule fold_invariant) (simp_all add: upsert_exec_def Let_def)

lemma db_row_upserts:
  assumes "list_all row_ok tbl" "list_all job_ok js"
  shows "map_option (row_job k) (map_of (fold upsert_exec js tbl) k) =
         fold absorb (records_for k (map canon_job js)) (map_option (row_job k) (map_of tbl k))"
  using fold_upsert_simulates [OF assms] map_of_fold_upsert [of "map canon_job js" "abs_jobs tbl" k]
  by (simp flip: map_of_abs_jobs)

text \<open>An epoch is alive for the statement exactly when its heartbeat is inside the window.\<close>

lemma alive_iff_beat:
  assumes "wf_map (db_epochs db)" "cutoff_ok t"
  shows "e \<in> set (alive_epochs db (unix t)) \<longleftrightarrow>
         (\<exists>b. db_beat (db, n) e = Some b \<and> b \<noteq> zeroTime \<and> canon_time t \<le> b)"
proof -
  have u: "unix t = t div 1000" "0 < t div 1000" using assms(2) by (auto simp: cutoff_ok_def unix_eq)
  have "e \<in> set (alive_epochs db (unix t)) \<longleftrightarrow>
      (\<exists>v. map_of (db_epochs db) e = Some v \<and> 0 < v \<and> unix t \<le> v)"
    using assms(1) unfolding alive_epochs_def by (force simp: map_of_eq_Some_iff)
  moreover have "0 < v \<and> unix t \<le> v \<longleftrightarrow> fromUnix v \<noteq> zeroTime \<and> canon_time t \<le> fromUnix v" for v
    using u zeroTime_neg by (auto simp: canon_time_def fromUnix_def time_UnixMicro_def)
  ultimately show ?thesis by (auto simp: db_beat_def)
qed

definition interrupt_row :: "sql_db \<Rightarrow> string \<Rightarrow> int \<Rightarrow> job_row \<Rightarrow> job_row" where
  "interrupt_row db e c r =
     (if orphan_row db e c r then r\<lparr>jr_state := StateInterrupted, jr_state_rank := 3\<rparr> else r)"

lemma Reconcile_cases:
  assumes "sql_ReconcileEpoch d dr now db e dur = (r, db')"
  obtains "db' = db" "\<exists>err. r = Inl err"
    | "db' = db\<lparr>db_jobs := map (\<lambda>(k, row). (k, interrupt_row db e (unix (now - dur)) row)) (db_jobs db)\<rparr>"
  using assms
  by (auto simp: sql_ReconcileEpoch_def interrupt_row_def time_Add_def Let_def split: option.splits)

lemma row_ok_interrupt: "row_ok (k, r) \<Longrightarrow> row_ok (k, interrupt_row db e c r)"
  by (simp add: row_ok_def interrupt_row_def)

lemma interrupt_row_job:
  assumes "row_ok (k, r)" "wf_map (db_epochs db)" "cutoff_ok t"
  shows "Some (row_job k (interrupt_row db e (unix t) r)) =
         taken_over (db_beat (db, n)) e (canon_time t) (Some (row_job k r))"
proof -
  have "jr_state_rank r < 3 \<longleftrightarrow> \<not> Terminal (jr_state r)"
    using assms(1) Rank_less_3 [of "jr_state r"] by (auto simp: row_ok_def)
  then have "orphan_row db e (unix t) r \<longleftrightarrow> \<not> Terminal (jr_state r) \<and> jr_epoch r \<noteq> e \<and>
      \<not> (\<exists>b. db_beat (db, n) (jr_epoch r) = Some b \<and> b \<noteq> zeroTime \<and> canon_time t \<le> b)"
    using alive_iff_beat [OF assms(2,3)] by (auto simp: orphan_row_def)
  moreover have "job_State (row_job k r) = jr_state r" "job_Epoch (row_job k r) = jr_epoch r"
    by (simp_all add: row_job_def)
  ultimately show ?thesis
    unfolding interrupt_row_def taken_over_def by (simp del: not_ex) (auto simp: row_job_def)
qed

text \<open>
  What each call leaves in the database: a failed write and a migration nothing, a write that
  succeeded the fold of its records, a takeover the interrupted rows.
\<close>

lemma views_kept:
  assumes "tables_ok s" "fst s' = fst s"
  shows "tables_ok s' \<and> db_row s' = db_row s \<and> db_beat s' = db_beat s \<and> db_tries s' = db_tries s"
  using assms by (cases s) (simp add: db_views fun_eq_iff)

lemma beaten_views:
  assumes "tables_ok s" "fst s' = (fst s)\<lparr>db_epochs := AList.update e (unix t) (db_epochs (fst s))\<rparr>"
  shows "tables_ok s' \<and> db_row s' = db_row s \<and> db_tries s' = db_tries s \<and>
         db_beat s' = (db_beat s)(e \<mapsto> canon_time t)"
  using assms by (cases s) (simp add: db_views fun_eq_iff canon_time_def)

lemma upserted_views:
  assumes "tables_ok s" "list_all job_ok js" "fst s' = (fst s)\<lparr>db_jobs := fold upsert_exec js (db_jobs (fst s))\<rparr>"
  shows "tables_ok s' \<and> db_beat s' = db_beat s \<and> db_tries s' = db_tries s \<and>
         db_row s' = (\<lambda>k. fold absorb (records_for k (map canon_job js)) (db_row s k))"
proof -
  have rows: "list_all row_ok (db_jobs (fst s))" using assms(1) by (simp add: tables_ok_def split: prod.splits)
  show ?thesis
    using assms fold_upsert_simulates [OF rows assms(2)] db_row_upserts [OF rows assms(2)]
    by (cases s) (simp add: db_views wf_map_upserts fun_eq_iff)
qed

lemma attempted_views:
  assumes "tables_ok s" "list_all (att_ok key_id) as" "fst s' = (fst s)\<lparr>db_attempts := fold att_exec as (db_attempts (fst s))\<rparr>"
  shows "tables_ok s' \<and> db_row s' = db_row s \<and> db_beat s' = db_beat s \<and>
         db_tries s' = (\<lambda>k. fold save_attempt_in
           (map (unscoped \<circ> canon_att) (filter (\<lambda>a. attempt_key a = k) as)) (db_tries s k))"
  using assms fold_att_simulates [OF _ assms(2), of "db_attempts (fst s)"] by (cases s) (simp add: db_views fun_eq_iff)

definition interrupted_db :: "string \<Rightarrow> gotime \<Rightarrow> sql_db \<Rightarrow> sql_db" where
  "interrupted_db e t db =
     db\<lparr>db_jobs := map (\<lambda>(k, row). (k, interrupt_row db e (unix t) row)) (db_jobs db)\<rparr>"

lemma interrupted_views:
  assumes "tables_ok s" "fst s' = interrupted_db e t (fst s)"
  shows "tables_ok s' \<and> db_beat s' = db_beat s \<and> db_tries s' = db_tries s"
  using assms row_ok_interrupt by (cases s) (auto simp: interrupted_db_def db_views fun_eq_iff list_all_iff)

lemma interrupted_rows:
  assumes "tables_ok s" "cutoff_ok t" "fst s' = interrupted_db e t (fst s)"
  shows "db_row s' = (\<lambda>k. taken_over (db_beat s) e (canon_time t) (db_row s k))"
proof
  fix k
  obtain db n where s: "s = (db, n)" by (cases s)
  have rows: "list_all row_ok (db_jobs db)" "wf_map (db_epochs db)" using assms(1) by (simp_all add: tables_ok_def s)
  show "db_row s' k = taken_over (db_beat s) e (canon_time t) (db_row s k)"
  proof (cases "map_of (db_jobs db) k")
    case None
    then show ?thesis using assms(3) by (simp add: db_row_def s interrupted_db_def map_of_map_values taken_over_def)
  next
    case (Some r)
    then have "row_ok (k, r)" using rows(1) by (metis list_all_lookup)
    from interrupt_row_job [OF this rows(2) assms(2), of e n] Some assms(3) show ?thesis
      by (simp add: db_row_def s interrupted_db_def map_of_map_values)
  qed
qed

lemma reconciled_db:
  assumes "si_ReconcileEpoch (sql_impl d drs) now s e dur = (r, s')"
  shows "fst s' = fst s \<and> (\<exists>err. r = Inl err) \<or> fst s' = interrupted_db e (now - dur) (fst s)"
proof (cases s)
  case (Pair db n)
  with assms Reconcile_cases [of d "drs n" now db e dur r "fst s'"] show ?thesis
    by (auto simp: sql_impl_def served_eq interrupted_db_def)
qed

subsection \<open>The contract\<close>

interpretation sqls: store_contract "sql_impl d drs" tables_ok db_row db_beat db_tries
    canon_job "unscoped \<circ> canon_att" canon_time job_ok "att_ok key_id" cutoff_ok for d drs
proof
  fix s s' :: sql_server
  obtain db n where s: "s = (db, n)" by (cases s)
  note call = sql_impl_def s served_eq
  assume ok: "tables_ok s"
  show "tables_ok s' \<and> db_row s' = db_row s \<and> db_beat s' = db_beat s \<and> db_tries s' = db_tries s"
    if "si_Migrate (sql_impl d drs) s = (r, s')" for r
    by (rule views_kept [OF ok]) (use that Migrate_keeps [of d "drs n" db r "fst s'"] in \<open>simp add: call\<close>)
  show "tables_ok s' \<and> db_row s' = db_row s \<and> db_beat s' = db_beat s \<and> db_tries s' = db_tries s"
    if "si_UpsertJobs (sql_impl d drs) s js = (Some err, s')" for js err
    by (rule views_kept [OF ok]) (use that Upsert_failed [of d "drs n" db js err "fst s'"] in \<open>simp add: call\<close>)
  show "tables_ok s' \<and> db_row s' = db_row s \<and> db_beat s' = db_beat s \<and> db_tries s' = db_tries s"
    if "si_SaveAttempts (sql_impl d drs) s as = (Some err, s')" for as err
    by (rule views_kept [OF ok]) (use that SaveAttempts_failed [of d "drs n" db as err "fst s'"] in \<open>simp add: call\<close>)
  show "tables_ok s' \<and> db_row s' = db_row s \<and> db_beat s' = db_beat s \<and> db_tries s' = db_tries s"
    if "si_Heartbeat (sql_impl d drs) s e t = (Some err, s')" for e t err
    by (rule views_kept [OF ok]) (use that in \<open>auto simp: call sql_Heartbeat_def split: option.splits\<close>)
  show "tables_ok s' \<and> db_row s' = db_row s \<and> db_tries s' = db_tries s \<and> db_beat s' = (db_beat s)(e \<mapsto> canon_time t)"
    if "si_Heartbeat (sql_impl d drs) s e t = (None, s')" for e t
    by (rule beaten_views [OF ok]) (use that in \<open>auto simp: call sql_Heartbeat_def split: option.splits\<close>)
  show "tables_ok s' \<and> db_beat s' = db_beat s \<and> db_tries s' = db_tries s \<and>
      db_row s' = (\<lambda>k. fold absorb (records_for k (map canon_job js)) (db_row s k))"
    if "list_all job_ok js" "si_UpsertJobs (sql_impl d drs) s js = (None, s')" for js
    by (rule upserted_views [OF ok that(1)]) (use that(2) Upsert_done [of d "drs n" db js "fst s'"] in \<open>simp add: call\<close>)
  show "tables_ok s' \<and> db_row s' = db_row s \<and> db_beat s' = db_beat s \<and>
      db_tries s' = (\<lambda>k. fold save_attempt_in (map (unscoped \<circ> canon_att) (filter (\<lambda>a. attempt_key a = k) as)) (db_tries s k))"
    if "list_all (att_ok key_id) as" "si_SaveAttempts (sql_impl d drs) s as = (None, s')" for as
    by (rule attempted_views [OF ok that(1)])
      (use that(2) SaveAttempts_done [of d "drs n" db as "fst s'"] in \<open>simp add: call\<close>)
  show "tables_ok s' \<and> db_beat s' = db_beat s \<and> db_tries s' = db_tries s"
    if "si_ReconcileEpoch (sql_impl d drs) now s e dur = (r, s')" for now e dur r
    using reconciled_db [OF that] views_kept [OF ok] interrupted_views [OF ok] by blast
  show "db_row s' = (\<lambda>k. taken_over (db_beat s) e (canon_time (now - dur)) (db_row s k))"
    if "cutoff_ok (now - dur)" "si_ReconcileEpoch (sql_impl d drs) now s e dur = (Inr m, s')" for now e dur m
    using reconciled_db [OF that(2)] interrupted_rows [OF ok that(1)] by blast
  show "db_row s' = db_row s \<or> db_row s' = (\<lambda>k. taken_over (db_beat s) e (canon_time (now - dur)) (db_row s k))"
    if "cutoff_ok (now - dur)" "si_ReconcileEpoch (sql_impl d drs) now s e dur = (Inl err, s')" for now e dur err
    using reconciled_db [OF that(2)] views_kept [OF ok] interrupted_rows [OF ok that(1)] by blast
qed

subsection \<open>Properties\<close>

text \<open>Starting over a database takes over the dead as it does over the in-memory store.\<close>

lemma sql_Start_takes_over:
  assumes "tables_ok (sk_store s)" "\<not> sk_started s" "sink_Start (sql_impl d drs) now now' s = (Inr n, s')"
    and "cutoff_ok (now' - sc_staleAfter (sk_conf s))"
  shows "db_beat (sk_store s') (sk_epoch s) = Some (canon_time now)"
    and "db_row (sk_store s') k = taken_over (db_beat (sk_store s)) (sk_epoch s)
           (canon_time (now' - sc_staleAfter (sk_conf s))) (db_row (sk_store s) k)"
  using sqls.Start_rows(2) [OF assms(1-3)] sqls.Start_rows(4) [OF assms(1-4)] by simp_all

text \<open>
  C12. The history in a SQL database is the fold of what the sink handed over, failures
  included. Take a sink that started successfully over SQLite or Postgres, with no retention
  and a driver that may fail at any call of any operation. After any further interleaving the
  row of a key is what Start left there, absorbing in order the job records of that key the
  database took (each with its times cut to microseconds), and likewise its attempts; and if
  an error handler is configured and was never called, those are all the records flushed.
  (The records flushed carry times that are unset or after 1970 and job IDs without colons.)
\<close>

theorem sql_history_is_fold:
  assumes "tables_ok st" "sink_Start (sql_impl d drs) now now' (sink_New st t pid opts) = (Inr n, s1)"
    and "sc_retentionAge (sk_conf (sink_New st t pid opts)) \<le> 0"
    and "sink_reach (sql_impl d drs) cq s1 s"
    and "list_all job_ok (batch_jobs (h_flushed s))" "list_all (att_ok key_id) (batch_attempts (h_flushed s))"
  shows "db_row (sk_store s) k =
           fold absorb (records_for k (map canon_job (h_jobs s))) (db_row (sk_store s1) k) \<and>
         db_tries (sk_store s) k =
           fold save_attempt_in (map (unscoped \<circ> canon_att) (filter (\<lambda>a. attempt_key a = k) (h_attempts s)))
             (db_tries (sk_store s1) k) \<and>
         (sc_onError (sk_conf s) \<and> sk_reported s = [] \<longrightarrow>
            h_jobs s = batch_jobs (h_flushed s) \<and> h_attempts s = batch_attempts (h_flushed s))"
proof -
  let ?s0 = "sink_New st t pid opts"
  have new: "tables_ok (sk_store ?s0)" "\<not> sk_started ?s0" "h_jobs ?s0 = []" "h_attempts ?s0 = []"
    using assms(1) by (simp_all add: sink_New_def)
  have "sqls.good_batch (h_flushed s)" using assms(5,6) by (simp add: sqls.good_batch_def)
  from sqls.recorded_reach [OF assms(4) sqls.recorded_launch [OF new assms(2,3)] this]
  have "sqls.recorded (sk_store s1) s" .
  moreover have "Sink_History.quiet s"
  proof (rule quiet_reach [OF assms(4)])
    have "sink_do (sql_impl d drs) cq (Start now now') ?s0 = Some s1" using assms(2) by simp
    then show "Sink_History.quiet s1" by (rule quiet_step) (rule quiet_New)
  qed
  ultimately show ?thesis by (simp add: sqls.recorded_def Sink_History.quiet_def)
qed

theorem sql_history_is_fold_witness:
  "\<exists>s1 s. sink_Start (sql_impl (sqlite demo_engine) (\<lambda>_. Sql_Store.quiet)) 5000 120000000000
       (sink_New (sql_New, 0) 3 4 []) = (Inr 0, s1) \<and>
     sink_run (sql_impl (sqlite demo_engine) (\<lambda>_. Sql_Store.quiet)) demo_cq
       [Call (HookCall OnEnqueue demo_event), OfferCheck 0, OfferSend 0, RunRecv, RunTick] s1 = Some s \<and>
     length (h_jobs s) = 1 \<and>
     db_row (sk_store s) ''3-4:demo:1'' =
       fold absorb (records_for ''3-4:demo:1'' (map canon_job (h_jobs s))) (db_row (sk_store s1) ''3-4:demo:1'')"
proof -
  let ?impl = "sql_impl (sqlite demo_engine) (\<lambda>_. Sql_Store.quiet)"
  let ?s0 = "sink_New (sql_New, 0) 3 4 [] :: sql_server sink"
  note run_defs = demo_defs sql_impl_def served_def sql_Migrate_def sql_Heartbeat_def sql_ReconcileEpoch_def
    sql_UpsertJobs_def sql_SaveAttempts_def in_tx_def Sql_Store.quiet_def sqlite_def sql_New_def
  obtain s1 where s1: "sink_Start ?impl 5000 120000000000 ?s0 = (Inr 0, s1)"
    by (simp add: run_defs)
  obtain s where run: "sink_run ?impl demo_cq
       [Call (HookCall OnEnqueue demo_event), OfferCheck 0, OfferSend 0, RunRecv, RunTick] s1 = Some s"
      and jobs: "length (h_jobs s) = 1"
      and good: "list_all job_ok (batch_jobs (h_flushed s))" "list_all (att_ok key_id) (batch_attempts (h_flushed s))"
    using s1 by (auto simp: run_defs job_ok_def time_ok_def zero_job_def)
  have new: "tables_ok (sql_New, 0)" "sc_retentionAge (sk_conf ?s0) \<le> 0"
    by (simp_all add: tables_ok_def sql_New_def sink_New_def default_conf_def)
  from sql_history_is_fold [OF new(1) s1 new(2) sink_run_reach [OF run] good, of "''3-4:demo:1''"] s1 run jobs
  show ?thesis by blast
qed

end
