(* ===== verification/Go_Encoding.thy ===== *)
theory Go_Encoding
  imports Go_Strings
begin

text \<open>
  The byte encodings of the Go library the web handler uses: \<open>encoding/hex\<close>,
  \<open>base64.RawURLEncoding\<close> and \<open>url.QueryEscape\<close>.

  The base64 decoder follows the library: it skips carriage returns and newlines anywhere,
  knows no padding, rejects a lone trailing digit, and ignores the unused low bits of a
  final partial group.
\<close>

subsection \<open>Bytes\<close>

definition chr :: "nat \<Rightarrow> char" where
  "chr n = char_of n"

lemma byte_less: "byte c < 256"
  by (simp add: byte_def)

lemma chr_byte [simp]: "chr (byte c) = c"
  by (simp add: chr_def byte_def)

lemma byte_chr: "n < 256 \<Longrightarrow> byte (chr n) = n"
  by (simp add: chr_def byte_def)

lemma byte_inj: "byte c = byte d \<longleftrightarrow> c = d"
  by (metis chr_byte)

subsection \<open>Hexadecimal\<close>

definition hex_digit :: "nat \<Rightarrow> char" where
  "hex_digit n = (if n < 10 then chr (48 + n) else chr (87 + n))"

fun EncodeToString_hex :: "string \<Rightarrow> string" where
  "EncodeToString_hex [] = []"
| "EncodeToString_hex (c # cs) =
     hex_digit (byte c div 16) # hex_digit (byte c mod 16) # EncodeToString_hex cs"

lemma hex_digit_not_dot: "n < 16 \<Longrightarrow> hex_digit n \<noteq> CHR ''.''"
proof -
  assume "n < 16"
  then have "byte (hex_digit n) \<noteq> byte (CHR ''.'')"
    by (auto simp: hex_digit_def byte_chr) (simp_all add: byte_def)
  then show ?thesis by (simp add: byte_inj)
qed

lemma hex_no_dot: "CHR ''.'' \<notin> set (EncodeToString_hex s)"
proof (induction s)
  case (Cons c s)
  have "hex_digit (byte c div 16) \<noteq> CHR ''.''" "hex_digit (byte c mod 16) \<noteq> CHR ''.''"
    using byte_less [of c] by (auto intro!: hex_digit_not_dot simp: less_mult_imp_div_less)
  with Cons show ?case by auto
qed simp

lemma length_hex: "length (EncodeToString_hex s) = 2 * length s"
  by (induction s) auto

subsection \<open>Base64, URL alphabet, no padding\<close>

definition b64_alphabet :: string where
  "b64_alphabet = ''ABCDEFGHIJKLMNOPQRSTUVWXYZabcdefghijklmnopqrstuvwxyz0123456789-_''"

definition b64_digit :: "nat \<Rightarrow> char" where
  "b64_digit n = b64_alphabet ! n"

fun index_in :: "'a \<Rightarrow> 'a list \<Rightarrow> nat option" where
  "index_in x [] = None"
| "index_in x (y # ys) = (if x = y then Some 0 else map_option Suc (index_in x ys))"

definition b64_value :: "char \<Rightarrow> nat option" where
  "b64_value c = index_in c b64_alphabet"

fun EncodeToString_b64 :: "string \<Rightarrow> string" where
  "EncodeToString_b64 [] = []"
| "EncodeToString_b64 [a] =
     (let v = byte a * 16 in [b64_digit (v div 64), b64_digit (v mod 64)])"
| "EncodeToString_b64 [a, b] =
     (let v = (byte a * 256 + byte b) * 4
      in [b64_digit (v div 4096), b64_digit (v div 64 mod 64), b64_digit (v mod 64)])"
| "EncodeToString_b64 (a # b # c # cs) =
     (let v = byte a * 65536 + byte b * 256 + byte c
      in b64_digit (v div 262144) # b64_digit (v div 4096 mod 64) # b64_digit (v div 64 mod 64) #
         b64_digit (v mod 64) # EncodeToString_b64 cs)"

text \<open>Decoding digit values; the input has no skipped characters any more.\<close>

fun b64_groups :: "nat list \<Rightarrow> string option" where
  "b64_groups [] = Some []"
| "b64_groups [p] = None"
| "b64_groups [p, q] = Some [chr ((p * 64 + q) div 16)]"
| "b64_groups [p, q, r] =
     (let v = (p * 4096 + q * 64 + r) div 4 in Some [chr (v div 256), chr (v mod 256)])"
| "b64_groups (p # q # r # s # rest) =
     (let v = p * 262144 + q * 4096 + r * 64 + s
      in map_option (\<lambda>out. chr (v div 65536) # chr (v div 256 mod 256) # chr (v mod 256) # out)
           (b64_groups rest))"

fun all_some :: "'a option list \<Rightarrow> 'a list option" where
  "all_some [] = Some []"
| "all_some (None # xs) = None"
| "all_some (Some x # xs) = map_option ((#) x) (all_some xs)"

definition DecodeString_b64 :: "string \<Rightarrow> string option" where
  "DecodeString_b64 s =
     (case all_some (map b64_value (filter (\<lambda>c. byte c \<noteq> 10 \<and> byte c \<noteq> 13) s)) of
        None \<Rightarrow> None
      | Some ds \<Rightarrow> b64_groups ds)"

lemma index_in_nth: "distinct ys \<Longrightarrow> i < length ys \<Longrightarrow> index_in (ys ! i) ys = Some i"
proof (induction ys arbitrary: i)
  case (Cons y ys)
  then show ?case by (cases i) auto
qed simp

lemma distinct_b64_alphabet: "distinct b64_alphabet"
  by (simp add: b64_alphabet_def)

lemma length_b64_alphabet: "length b64_alphabet = 64"
  by (simp add: b64_alphabet_def)

lemma b64_value_digit [simp]: "n < 64 \<Longrightarrow> b64_value (b64_digit n) = Some n"
  unfolding b64_value_def b64_digit_def
  by (rule index_in_nth) (simp_all add: distinct_b64_alphabet length_b64_alphabet)

lemma b64_digit_in: "n < 64 \<Longrightarrow> b64_digit n \<in> set b64_alphabet"
  unfolding b64_digit_def by (simp add: length_b64_alphabet)

lemma b64_alphabet_kept: "c \<in> set b64_alphabet \<Longrightarrow> byte c \<noteq> 10 \<and> byte c \<noteq> 13"
  by (auto simp: b64_alphabet_def byte_def)

lemma b64_alphabet_no_dot: "CHR ''.'' \<notin> set b64_alphabet"
  by (simp add: b64_alphabet_def)

text \<open>The digit values of an encoding.\<close>

fun b64_values :: "string \<Rightarrow> nat list" where
  "b64_values [] = []"
| "b64_values [a] = (let v = byte a * 16 in [v div 64, v mod 64])"
| "b64_values [a, b] = (let v = (byte a * 256 + byte b) * 4 in [v div 4096, v div 64 mod 64, v mod 64])"
| "b64_values (a # b # c # cs) =
     (let v = byte a * 65536 + byte b * 256 + byte c
      in v div 262144 # v div 4096 mod 64 # v div 64 mod 64 # v mod 64 # b64_values cs)"

lemma EncodeToString_b64_values: "EncodeToString_b64 s = map b64_digit (b64_values s)"
  by (induction s rule: b64_values.induct) (simp_all add: Let_def)

lemma div_less_iff: "0 < n \<Longrightarrow> m div n < (k::nat) \<longleftrightarrow> m < k * n"
  by (rule div_less_iff_less_mult)

lemma b64_values_less: "list_all (\<lambda>n. n < 64) (b64_values s)"
proof (induction s rule: b64_values.induct)
  case (2 a)
  then show ?case using byte_less [of a] by (simp add: Let_def div_less_iff)
next
  case (3 a b)
  then show ?case using byte_less [of a] byte_less [of b] by (simp add: Let_def div_less_iff)
next
  case (4 a b c cs)
  then show ?case using byte_less [of a] byte_less [of b] byte_less [of c] by (simp add: Let_def div_less_iff)
qed simp

lemma regroup2:
  fixes v :: nat
  shows "v div 4096 * 4096 + v div 64 mod 64 * 64 + v mod 64 = v"
proof -
  have "v div 4096 = v div 64 div 64" by (simp add: div_mult2_eq [symmetric])
  moreover have "v div 64 = v div 64 div 64 * 64 + v div 64 mod 64" "v = v div 64 * 64 + v mod 64"
    by simp_all
  ultimately show ?thesis by linarith
qed

lemma regroup3:
  fixes v :: nat
  shows "v div 262144 * 262144 + v div 4096 mod 64 * 4096 + v div 64 mod 64 * 64 + v mod 64 = v"
proof -
  have "v div 262144 = v div 4096 div 64" by (simp add: div_mult2_eq [symmetric])
  moreover have "v div 4096 = v div 4096 div 64 * 64 + v div 4096 mod 64" by simp
  ultimately show ?thesis using regroup2 [of v] by linarith
qed

lemma split_bytes:
  assumes "v = byte a * 65536 + byte b * 256 + byte c"
  shows "v div 65536 = byte a" "v div 256 mod 256 = byte b" "v mod 256 = byte c"
proof -
  have b: "byte a \<le> 255" "byte b \<le> 255" "byte c \<le> 255"
    using byte_less [of a] byte_less [of b] byte_less [of c] by simp_all
  show "v div 65536 = byte a"
    using b assms by (intro div_nat_eqI) simp_all
  have "v div 256 = byte a * 256 + byte b"
    using b assms by (intro div_nat_eqI) simp_all
  then show "v div 256 mod 256 = byte b" using b by simp
  have "v mod 256 = (256 * (byte a * 256 + byte b) + byte c) mod 256" using assms by (simp add: algebra_simps)
  also have "\<dots> = byte c" unfolding mod_mult_self4 using b by simp
  finally show "v mod 256 = byte c" .
qed

lemma b64_groups_values: "b64_groups (b64_values s) = Some s"
proof (induction s rule: b64_values.induct)
  case (2 a)
  have "byte a * 16 div 64 * 64 + byte a * 16 mod 64 = byte a * 16" by (rule div_mult_mod_eq)
  then show ?case by (simp only: b64_values.simps b64_groups.simps Let_def) simp
next
  case (3 a b)
  define v where "v = byte a * 256 + byte b"
  have "v div 256 = byte a" "v mod 256 = byte b"
    using byte_less [of b] by (simp_all add: v_def)
  moreover have "(v * 4 div 4096 * 4096 + v * 4 div 64 mod 64 * 64 + v * 4 mod 64) div 4 = v"
    unfolding regroup2 by simp
  ultimately show ?case
    by (simp only: b64_values.simps b64_groups.simps Let_def v_def [symmetric]) simp
next
  case (4 a b c cs)
  define v where "v = byte a * 65536 + byte b * 256 + byte c"
  from split_bytes [OF v_def] 4 show ?case
    by (simp only: b64_values.simps b64_groups.simps Let_def v_def [symmetric] regroup3) simp
qed simp

lemma all_some_map: "list_all (\<lambda>n. f (g n) = Some n) ns \<Longrightarrow> all_some (map f (map g ns)) = Some ns"
  by (induction ns) auto

theorem DecodeString_EncodeToString_b64: "DecodeString_b64 (EncodeToString_b64 s) = Some s"
proof -
  have "list_all (\<lambda>n. n < 64) (b64_values s)" by (rule b64_values_less)
  then have "filter (\<lambda>c. byte c \<noteq> 10 \<and> byte c \<noteq> 13) (EncodeToString_b64 s) = EncodeToString_b64 s"
    unfolding EncodeToString_b64_values
    by (intro filter_True) (auto simp: list_all_iff dest!: b64_digit_in b64_alphabet_kept)
  moreover have "all_some (map b64_value (EncodeToString_b64 s)) = Some (b64_values s)"
    unfolding EncodeToString_b64_values
    by (rule all_some_map, rule list.pred_mono_strong [OF b64_values_less]) simp
  ultimately show ?thesis by (simp add: DecodeString_b64_def b64_groups_values)
qed

lemma b64_chars: "set (EncodeToString_b64 s) \<subseteq> set b64_alphabet"
  using b64_values_less [of s] b64_digit_in
  by (auto simp: EncodeToString_b64_values list_all_iff)

lemma b64_no_dot: "CHR ''.'' \<notin> set (EncodeToString_b64 s)"
  using b64_chars [of s] b64_alphabet_no_dot by blast

subsection \<open>Query escaping\<close>

definition unreserved :: "char \<Rightarrow> bool" where
  "unreserved c \<longleftrightarrow> (48 \<le> byte c \<and> byte c \<le> 57) \<or> (65 \<le> byte c \<and> byte c \<le> 90) \<or>
     (97 \<le> byte c \<and> byte c \<le> 122) \<or> c \<in> set ''-_.~''"

definition upper_hex :: "nat \<Rightarrow> char" where
  "upper_hex n = (if n < 10 then chr (48 + n) else chr (55 + n))"

fun QueryEscape :: "string \<Rightarrow> string" where
  "QueryEscape [] = []"
| "QueryEscape (c # cs) =
     (if c = CHR '' '' then ''+''
      else if unreserved c then [c]
      else [CHR ''%'', upper_hex (byte c div 16), upper_hex (byte c mod 16)]) @ QueryEscape cs"

text \<open>What an escaped string cannot contain: the characters that structure a URL.\<close>

lemma QueryEscape_chars:
  "c \<in> set (QueryEscape s) \<Longrightarrow> unreserved c \<or> c = CHR ''+'' \<or> c = CHR ''%''"
proof (induction s)
  case (Cons d s)
  have "unreserved (upper_hex n)" if "n < 16" for n
    using that by (auto simp: upper_hex_def unreserved_def byte_chr)
  moreover have "byte d div 16 < 16" using byte_less [of d] by linarith
  ultimately show ?case using Cons by (auto split: if_splits)
qed simp

end
