(* ===== verification/Web_Http.thy ===== *)
theory Web_Http
  imports Go_Crypto
begin

text \<open>
  What the handlers of \<open>web/\<close> read of an \<open>http.Request\<close> and write to an
  \<open>http.ResponseWriter\<close>, with the accessors of \<open>net/http\<close> they call.

  A request is given after parsing: its URL path (decoded, and as it was sent where that
  is not the default encoding), its query and body parameters, its headers under their canonical names, its
  cookies in order, the peer address, and whether it came over TLS. A response is its status,
  the headers and cookies set, and its body, where a rendered page is the data handed to the
  template.
\<close>

subsection \<open>Requests\<close>

type_synonym url_values = "(string, string list) gomap"

record http_request =
  rq_method :: string
  rq_path :: string
  rq_rawpath :: string
  rq_query :: url_values
  rq_body :: url_values
  rq_header :: "(string, string) gomap"
  rq_cookies :: "(string \<times> string) list"
  rq_remote :: string
  rq_tls :: bool

definition values_all :: "url_values \<Rightarrow> string \<Rightarrow> string list" where
  "values_all m k = (case map_of m k of None \<Rightarrow> [] | Some vs \<Rightarrow> vs)"

definition values_Get :: "url_values \<Rightarrow> string \<Rightarrow> string" where
  "values_Get m k = (case values_all m k of [] \<Rightarrow> [] | v # _ \<Rightarrow> v)"

definition values_Set :: "string \<Rightarrow> string \<Rightarrow> url_values \<Rightarrow> url_values" where
  "values_Set k v m = AList.update k [v] m"

definition Query_Get :: "http_request \<Rightarrow> string \<Rightarrow> string" where
  "Query_Get r k = values_Get (rq_query r) k"

text \<open>\<open>FormValue\<close> reads the body first and the query after it; \<open>PostFormValue\<close> the body only.\<close>

definition FormValue :: "http_request \<Rightarrow> string \<Rightarrow> string" where
  "FormValue r k =
     (case values_all (rq_body r) k @ values_all (rq_query r) k of [] \<Rightarrow> [] | v # _ \<Rightarrow> v)"

definition PostFormValue :: "http_request \<Rightarrow> string \<Rightarrow> string" where
  "PostFormValue r k = values_Get (rq_body r) k"

definition Header_Get :: "http_request \<Rightarrow> string \<Rightarrow> string" where
  "Header_Get r k = (case map_of (rq_header r) k of None \<Rightarrow> [] | Some v \<Rightarrow> v)"

definition CookiesNamed :: "http_request \<Rightarrow> string \<Rightarrow> string list" where
  "CookiesNamed r name = map snd (filter (\<lambda>c. fst c = name) (rq_cookies r))"

definition Cookie :: "http_request \<Rightarrow> string \<Rightarrow> string option" where
  "Cookie r name = (case CookiesNamed r name of [] \<Rightarrow> None | v # _ \<Rightarrow> Some v)"

lemma values_Get_Set [simp]: "values_Get (values_Set k v m) k' = (if k' = k then v else values_Get m k')"
  by (simp add: values_Get_def values_Set_def values_all_def)

lemma values_Get_Nil [simp]: "values_Get [] k = []"
  by (simp add: values_Get_def values_all_def)

subsection \<open>Basic credentials\<close>

text \<open>\<open>base64.StdEncoding\<close> decoding, for \<open>Request.BasicAuth\<close>: the standard alphabet with padding.\<close>

definition b64_std_value :: "char \<Rightarrow> nat option" where
  "b64_std_value c =
     (if c = CHR ''+'' then Some 62 else if c = CHR ''/'' then Some 63
      else if c = CHR ''-'' \<or> c = CHR ''_'' then None else b64_value c)"

definition DecodeString_std :: "string \<Rightarrow> string option" where
  "DecodeString_std s =
     (let s = filter (\<lambda>c. byte c \<noteq> 10 \<and> byte c \<noteq> 13) s;
          digits = takeWhile (\<lambda>c. c \<noteq> CHR ''='') s;
          pad = dropWhile (\<lambda>c. c \<noteq> CHR ''='') s
      in if length s mod 4 = 0 \<and> length pad \<le> 2 \<and> list_all (\<lambda>c. c = CHR ''='') pad
         then (case all_some (map b64_std_value digits) of None \<Rightarrow> None | Some ds \<Rightarrow> b64_groups ds)
         else None)"

text \<open>The scheme is compared without regard to case; the first colon ends the user name.\<close>

definition Request_BasicAuth :: "http_request \<Rightarrow> (string \<times> string) option" where
  "Request_BasicAuth r =
     (let auth = Header_Get r ''Authorization''
      in if length auth < 6 \<or> map ascii_lower (take 6 auth) \<noteq> ''basic '' then None
         else case DecodeString_std (drop 6 auth) of
                None \<Rightarrow> None
              | Some cs \<Rightarrow>
                  if CHR '':'' \<in> set cs
                  then Some (takeWhile (\<lambda>c. c \<noteq> CHR '':'') cs, tl (dropWhile (\<lambda>c. c \<noteq> CHR '':'') cs))
                  else None)"

subsection \<open>Peer addresses\<close>

fun last_index :: "char \<Rightarrow> string \<Rightarrow> nat option" where
  "last_index c [] = None"
| "last_index c (x # xs) =
     (case last_index c xs of Some i \<Rightarrow> Some (Suc i) | None \<Rightarrow> if x = c then Some 0 else None)"

text \<open>The host part of \<open>net.SplitHostPort\<close>; \<open>None\<close> is its error.\<close>

definition SplitHost :: "string \<Rightarrow> string option" where
  "SplitHost hostport =
     (case last_index (CHR '':'') hostport of
        None \<Rightarrow> None
      | Some i \<Rightarrow>
          if hd hostport = CHR ''['' then
            (case index_in (CHR '']'') hostport of
               None \<Rightarrow> None
             | Some e \<Rightarrow>
                 if e + 1 = length hostport \<or> e + 1 \<noteq> i then None
                 else if CHR ''['' \<in> set (drop 1 hostport) \<or> CHR '']'' \<in> set (drop (e + 1) hostport) then None
                 else Some (take (e - 1) (drop 1 hostport)))
          else if CHR '':'' \<in> set (take i hostport) then None
          else if CHR ''['' \<in> set hostport \<or> CHR '']'' \<in> set hostport then None
          else Some (take i hostport))"

definition client :: "http_request \<Rightarrow> string" where
  "client r = (case SplitHost (rq_remote r) of None \<Rightarrow> rq_remote r | Some host \<Rightarrow> host)"

text \<open>\<open>strings.EqualFold(s, "https")\<close>: the letter s also folds with U+017F.\<close>

definition EqualFold_https :: "string \<Rightarrow> bool" where
  "EqualFold_https s \<longleftrightarrow>
     map ascii_lower s = ''https'' \<or>
     (map ascii_lower (take 4 s) = ''http'' \<and> drop 4 s = [chr 197, chr 191])"

subsection \<open>Responses\<close>

record set_cookie =
  ck_Name :: string
  ck_Value :: string
  ck_Path :: string
  ck_MaxAge :: int
  ck_Expires :: gotime
  ck_HttpOnly :: bool
  ck_SameSiteLax :: bool
  ck_Secure :: bool

datatype http_body =
    TextBody string
  | LoginPage string string string
  | JSONError string
  | NoBody

record http_response =
  rs_status :: nat
  rs_header :: "(string, string) gomap"
  rs_cookies :: "set_cookie list"
  rs_body :: http_body

definition http_Error :: "string \<Rightarrow> nat \<Rightarrow> http_response" where
  "http_Error msg status =
     \<lparr>rs_status = status, rs_header = [], rs_cookies = [], rs_body = TextBody msg\<rparr>"

definition http_NotFound :: http_response where
  "http_NotFound = http_Error ''404 page not found'' 404"

text \<open>The target of a redirect is recorded as the handler passes it to \<open>http.Redirect\<close>.\<close>

definition http_Redirect :: "string \<Rightarrow> set_cookie list \<Rightarrow> http_response" where
  "http_Redirect target cookies =
     \<lparr>rs_status = 303, rs_header = [(''Location'', target)], rs_cookies = cookies, rs_body = NoBody\<rparr>"

definition writeJSONError :: "nat \<Rightarrow> string \<Rightarrow> http_response" where
  "writeJSONError status msg =
     \<lparr>rs_status = status,
      rs_header = [(''Content-Type'', ''application/json; charset=utf-8''), (''Cache-Control'', ''no-store, private'')],
      rs_cookies = [], rs_body = JSONError msg\<rparr>"

definition wantsJSON :: "http_request \<Rightarrow> bool" where
  "wantsJSON r \<longleftrightarrow> HasSuffix (rq_path r) ''.json''"

definition rs_location :: "http_response \<Rightarrow> string option" where
  "rs_location rs = map_of (rs_header rs) ''Location''"

end
