(* ===== verification/Web_Session.thy ===== *)
theory Web_Session
  imports Web_Http
begin

text \<open>
  Sessions of \<open>web/login.go\<close>: the signed cookie value, the list of sessions signed out before
  their expiry, and the limiter of login attempts. The clock readings are arguments; a
  function that reads the clock twice has two.
\<close>

subsection \<open>Signing\<close>

definition sign :: "string \<Rightarrow> string \<Rightarrow> string" where
  "sign secret payload = EncodeToString_hex (hmac_sha256 secret payload)"

record session =
  se_Subject :: string
  se_ID :: string
  se_Expiry :: gotime

definition session_payload :: "string \<Rightarrow> string \<Rightarrow> gotime \<Rightarrow> string" where
  "session_payload subject id' expiry =
     EncodeToString_b64 subject @ ''.'' @ id' @ ''.'' @ FormatInt (Unix expiry)"

definition signSession :: "string \<Rightarrow> string \<Rightarrow> string \<Rightarrow> gotime \<Rightarrow> string" where
  "signSession secret subject id' expiry =
     (let payload = session_payload subject id' expiry in payload @ ''.'' @ sign secret payload)"

text \<open>\<open>newSessionID\<close> and \<open>newCSRFToken\<close> encode what \<open>rand.Read\<close> filled in, or pass its error on.\<close>

definition newSessionID :: "string option \<Rightarrow> string option" where
  "newSessionID random = map_option EncodeToString_b64 random"

definition newCSRFToken :: "string option \<Rightarrow> string option" where
  "newCSRFToken random = map_option EncodeToString_hex random"

subsection \<open>Revocation\<close>

type_synonym revocations = "(string, gotime) gomap"

definition newRevocations :: revocations where
  "newRevocations = []"

definition sweep :: "gotime \<Rightarrow> revocations \<Rightarrow> revocations" where
  "sweep now dead = filter (\<lambda>(id', expiry). \<not> After now expiry) dead"

definition revoke :: "gotime \<Rightarrow> string \<Rightarrow> gotime \<Rightarrow> revocations \<Rightarrow> revocations" where
  "revoke now id' expiry dead = AList.update id' expiry (sweep now dead)"

definition isRevoked :: "gotime \<Rightarrow> revocations \<Rightarrow> string \<Rightarrow> bool" where
  "isRevoked now dead id' =
     (case map_of dead id' of None \<Rightarrow> False | Some expiry \<Rightarrow> Before now expiry)"

subsection \<open>Verification\<close>

text \<open>\<open>revoked\<close> is \<open>None\<close> for the nil pointer of a handler without login.\<close>

definition verifySession ::
    "gotime \<Rightarrow> gotime \<Rightarrow> string \<Rightarrow> revocations option \<Rightarrow> string \<Rightarrow> session option" where
  "verifySession now now' secret revoked value' =
     (case Split value' (CHR ''.'') of
        [p0, p1, p2, p3] \<Rightarrow>
          (let payload = p0 @ ''.'' @ p1 @ ''.'' @ p2
           in if \<not> ConstantTimeCompare p3 (sign secret payload) then None
              else case ParseInt p2 of
                     Inl _ \<Rightarrow> None
                   | Inr seconds \<Rightarrow>
                       (let expiry = time_Unix seconds 0
                        in if After now expiry then None
                           else if (case revoked of None \<Rightarrow> False | Some dead \<Rightarrow> isRevoked now' dead p1)
                           then None
                           else case DecodeString_b64 p0 of
                                  None \<Rightarrow> None
                                | Some subject \<Rightarrow>
                                    if length subject = 0 then None
                                    else Some \<lparr>se_Subject = subject, se_ID = p1, se_Expiry = expiry\<rparr>))
      | _ \<Rightarrow> None)"

fun first_session ::
    "gotime \<Rightarrow> gotime \<Rightarrow> string \<Rightarrow> revocations option \<Rightarrow> string list \<Rightarrow> session option" where
  "first_session now now' secret revoked [] = None"
| "first_session now now' secret revoked (v # vs) =
     (case verifySession now now' secret revoked v of
        Some found \<Rightarrow> Some found
      | None \<Rightarrow> first_session now now' secret revoked vs)"

subsection \<open>The session contract\<close>

text \<open>
  What the cookie format needs of a signature: it is a function, and its values have no dot.
  Everything about sessions follows from that; the strength of the signature is not used.
\<close>

locale session_signer =
  fixes sig :: "string \<Rightarrow> string"
  assumes sig_no_dot: "CHR ''.'' \<notin> set (sig p)"
begin

lemma split_signed:
  assumes "CHR ''.'' \<notin> set a" "CHR ''.'' \<notin> set b" "CHR ''.'' \<notin> set c"
  shows "Split ((a @ ''.'' @ b @ ''.'' @ c) @ ''.'' @ sig (a @ ''.'' @ b @ ''.'' @ c)) (CHR ''.'') =
    [a, b, c, sig (a @ ''.'' @ b @ ''.'' @ c)]"
  using assms sig_no_dot by (simp add: Split_append Split_no_sep)

text \<open>A signed value determines what was signed.\<close>

lemma signed_inj:
  assumes "CHR ''.'' \<notin> set a" "CHR ''.'' \<notin> set b" "CHR ''.'' \<notin> set c"
    and "CHR ''.'' \<notin> set a'" "CHR ''.'' \<notin> set b'" "CHR ''.'' \<notin> set c'"
    and "(a @ ''.'' @ b @ ''.'' @ c) @ ''.'' @ sig (a @ ''.'' @ b @ ''.'' @ c) =
         (a' @ ''.'' @ b' @ ''.'' @ c') @ ''.'' @ sig (a' @ ''.'' @ b' @ ''.'' @ c')"
  shows "a = a' \<and> b = b' \<and> c = c'"
proof -
  have "[a, b, c, sig (a @ ''.'' @ b @ ''.'' @ c)] = [a', b', c', sig (a' @ ''.'' @ b' @ ''.'' @ c')]"
    using split_signed [OF assms(1-3)] split_signed [OF assms(4-6)] unfolding assms(7) by metis
  then show ?thesis by blast
qed

end

interpretation mac: session_signer "sign secret" for secret
  by unfold_locales (simp add: sign_def hex_no_dot)

lemma FormatInt_no_dot: "CHR ''.'' \<notin> set (FormatInt i)"
  by (auto dest!: FormatInt_chars) (simp_all add: is_digit_def byte_def)

lemma Split_signSession:
  assumes "CHR ''.'' \<notin> set id'"
  shows "Split (signSession secret subject id' expiry) (CHR ''.'') =
    [EncodeToString_b64 subject, id', FormatInt (Unix expiry), sign secret (session_payload subject id' expiry)]"
  using mac.split_signed [OF b64_no_dot assms FormatInt_no_dot]
  by (simp add: signSession_def session_payload_def Let_def)

text \<open>The expiry a cookie carries: whole seconds.\<close>

definition whole_second :: "gotime \<Rightarrow> gotime" where
  "whole_second t = t div 1000000000 * 1000000000"

lemma Unix_in_range:
  assumes "- 9223372036854775808000000000 \<le> t" "t \<le> 9223372036854775807000000000"
  shows "Unix t = t div 1000000000"
  unfolding Unix_def by (rule int64_id) (use assms in linarith)+

lemma verifySession_signed:
  assumes "CHR ''.'' \<notin> set id'" "subject \<noteq> []"
    and "- 9223372036854775808000000000 \<le> expiry" "expiry \<le> 9223372036854775807000000000"
  shows "verifySession now now' secret revoked (signSession secret subject id' expiry) =
    (if After now (whole_second expiry) then None
     else if (case revoked of None \<Rightarrow> False | Some dead \<Rightarrow> isRevoked now' dead id') then None
     else Some \<lparr>se_Subject = subject, se_ID = id', se_Expiry = whole_second expiry\<rparr>)"
proof -
  have "ParseInt (FormatInt (Unix expiry)) = Inr (Unix expiry)"
    by (rule ParseInt_FormatInt) (use int64_range in \<open>auto simp: Unix_def\<close>)
  moreover have "time_Unix (Unix expiry) 0 = whole_second expiry"
    using Unix_in_range [OF assms(3,4)] by (simp add: time_Unix_def whole_second_def)
  ultimately show ?thesis
    using assms(1,2)
    by (simp add: verifySession_def Split_signSession ConstantTimeCompare_eq Let_def
        session_payload_def DecodeString_EncodeToString_b64)
qed

text \<open>
  C19. A session round trips. The cookie value signed for a non-empty subject and a session ID
  without dots verifies, under the same secret, exactly while its expiry (in whole seconds) has
  not passed and its ID is not revoked, and it gives back the subject, the ID and the expiry.
\<close>

theorem session_roundtrip:
  assumes "CHR ''.'' \<notin> set id'" "subject \<noteq> []"
    and "- 9223372036854775808000000000 \<le> expiry" "expiry \<le> 9223372036854775807000000000"
  shows "verifySession now now' secret revoked (signSession secret subject id' expiry) =
    (if now \<le> whole_second expiry \<and> (\<forall>dead. revoked = Some dead \<longrightarrow> \<not> isRevoked now' dead id')
     then Some \<lparr>se_Subject = subject, se_ID = id', se_Expiry = whole_second expiry\<rparr> else None)"
  unfolding verifySession_signed [OF assms] by (auto simp: After_def split: option.split)

theorem session_roundtrip_witness:
  "verifySession 5 5 ''key'' (Some []) (signSession ''key'' ''ada'' ''id'' 9000000000) =
     Some \<lparr>se_Subject = ''ada'', se_ID = ''id'', se_Expiry = 9000000000\<rparr>"
  using session_roundtrip [of "''id''" "''ada''" 9000000000 5 5 "''key''" "Some []"]
  by (simp add: whole_second_def isRevoked_def)

text \<open>
  C6. Nothing but a signed, live, unrevoked value is a session. Whatever string a client sends,
  if it is accepted then its last part is the signature, under the server's secret, of the
  rest; the subject is not empty; the expiry it carries has not passed; and its ID is not on
  the list of revoked sessions.
\<close>

theorem verifySession_sound:
  assumes "verifySession now now' secret revoked value' = Some se"
  shows "\<exists>payload p0 p2. value' = payload @ ''.'' @ sign secret payload \<and>
           payload = p0 @ ''.'' @ se_ID se @ ''.'' @ p2 \<and>
           DecodeString_b64 p0 = Some (se_Subject se) \<and> se_Subject se \<noteq> [] \<and>
           ParseInt p2 = Inr (se_Expiry se div 1000000000) \<and> now \<le> se_Expiry se \<and>
           (\<forall>dead. revoked = Some dead \<longrightarrow> \<not> isRevoked now' dead (se_ID se))"
proof -
  obtain p0 p1 p2 p3 where parts: "Split value' (CHR ''.'') = [p0, p1, p2, p3]"
    using assms by (auto simp: verifySession_def split: list.splits)
  then have val: "value' = (p0 @ ''.'' @ p1 @ ''.'' @ p2) @ ''.'' @ p3"
    using join_Split [of "CHR ''.''" value'] by simp
  from assms parts have "p3 = sign secret (p0 @ ''.'' @ p1 @ ''.'' @ p2)" "se_ID se = p1"
      "DecodeString_b64 p0 = Some (se_Subject se)" "se_Subject se \<noteq> []"
      "ParseInt p2 = Inr (se_Expiry se div 1000000000)" "now \<le> se_Expiry se"
      "\<forall>dead. revoked = Some dead \<longrightarrow> \<not> isRevoked now' dead (se_ID se)"
    by (auto simp: verifySession_def ConstantTimeCompare_eq Let_def After_def time_Unix_def
        split: if_splits sum.splits option.splits)
  with val show ?thesis by blast
qed

theorem verifySession_sound_witness:
  "\<exists>se. verifySession 5 5 ''key'' None (signSession ''key'' ''ada'' ''id'' 9000000000) = Some se \<and>
        5 \<le> se_Expiry se \<and> se_Subject se \<noteq> []"
proof -
  let ?se = "\<lparr>se_Subject = ''ada'', se_ID = ''id'', se_Expiry = 9000000000\<rparr>"
  have ok: "verifySession 5 5 ''key'' None (signSession ''key'' ''ada'' ''id'' 9000000000) = Some ?se"
    by (subst verifySession_signed) (simp_all add: After_def whole_second_def)
  from verifySession_sound [OF ok] ok show ?thesis by blast
qed

subsection \<open>Signing out\<close>

type_synonym revocation_op = "gotime \<times> string \<times> gotime"

definition revoke_all :: "revocation_op list \<Rightarrow> revocations \<Rightarrow> revocations" where
  "revoke_all ops dead = fold (\<lambda>(t, i, e). revoke t i e) ops dead"

lemma wf_map_sweep: "wf_map dead \<Longrightarrow> wf_map (sweep now dead)"
  by (simp add: sweep_def distinct_map_filter)

lemma wf_map_revoke: "wf_map dead \<Longrightarrow> wf_map (revoke now id' expiry dead)"
  by (simp add: revoke_def wf_map_sweep)

lemma map_of_sweep:
  "wf_map dead \<Longrightarrow>
   map_of (sweep now dead) k =
     (case map_of dead k of None \<Rightarrow> None | Some e \<Rightarrow> if now \<le> e then Some e else None)"
  by (simp add: sweep_def wf_map_map_of_filter After_def not_less split: option.split)

lemma revoke_keeps:
  assumes "wf_map dead" "map_of dead id' = Some e" "t \<le> e" "i = id' \<longrightarrow> x = e"
  shows "map_of (revoke t i x dead) id' = Some e"
  using assms by (auto simp: revoke_def map_of_sweep)

lemma revoke_all_keeps:
  assumes "wf_map dead" "map_of dead id' = Some e"
    and "list_all (\<lambda>(t, i, x). t \<le> e \<and> (i = id' \<longrightarrow> x = e)) ops"
  shows "map_of (revoke_all ops dead) id' = Some e"
  using assms
proof (induction ops arbitrary: dead)
  case Nil
  then show ?case by (simp add: revoke_all_def)
next
  case (Cons op ops)
  obtain t i x where op: "op = (t, i, x)" by (cases op)
  have "map_of (revoke_all ops (revoke t i x dead)) id' = Some e"
    using Cons.prems op by (intro Cons.IH) (simp_all add: wf_map_revoke revoke_keeps)
  then show ?case by (simp add: revoke_all_def op)
qed

text \<open>
  C18. Signing out ends a session for good. Once a session has been revoked, its cookie value
  is refused at every later time except possibly the very instant of its expiry, however many
  other sessions are signed out in between: a sweep never drops an entry before its session
  has expired.
\<close>

theorem signed_out_stays_out:
  assumes "wf_map dead" "CHR ''.'' \<notin> set id'" "subject \<noteq> []"
    and "- 9223372036854775808000000000 \<le> expiry" "expiry \<le> 9223372036854775807000000000"
    and "list_all (\<lambda>(t, i, x). t \<le> now \<and> (i = id' \<longrightarrow> x = whole_second expiry)) ops"
    and "now \<noteq> whole_second expiry"
  shows "verifySession now now secret (Some (revoke_all ops (revoke t0 id' (whole_second expiry) dead)))
           (signSession secret subject id' expiry) = None"
proof (cases "now < whole_second expiry")
  case True
  let ?dead = "revoke_all ops (revoke t0 id' (whole_second expiry) dead)"
  have "map_of ?dead id' = Some (whole_second expiry)"
  proof (rule revoke_all_keeps)
    show "wf_map (revoke t0 id' (whole_second expiry) dead)"
      using assms(1) by (rule wf_map_revoke)
    show "map_of (revoke t0 id' (whole_second expiry) dead) id' = Some (whole_second expiry)"
      by (simp add: revoke_def)
    show "list_all (\<lambda>(t, i, x). t \<le> whole_second expiry \<and> (i = id' \<longrightarrow> x = whole_second expiry)) ops"
      using assms(6) True by (auto simp: list_all_iff)
  qed
  then show ?thesis
    using True by (simp add: verifySession_signed [OF assms(2-5)] isRevoked_def Before_def)
next
  case False
  then show ?thesis
    using assms(7) by (simp add: verifySession_signed [OF assms(2-5)] After_def)
qed

theorem signed_out_stays_out_witness:
  "verifySession 7 7 ''key'' (Some (revoke_all [(6, ''other'', 8)] (revoke 5 ''id'' 9000000000 [])))
     (signSession ''key'' ''ada'' ''id'' 9000000000) = None"
  using signed_out_stays_out [of "[]" "''id''" "''ada''" 9000000000 7 "[(6, ''other'', 8)]" "''key''" 5]
  by (simp add: whole_second_def)

text \<open>
  At the instant of expiry itself the two comparisons disagree: the session is no longer
  revoked and not yet expired, so a signed-out cookie is accepted once more.
\<close>

lemma signed_out_accepted_at_expiry:
  "verifySession 9000000000 9000000000 ''key'' (Some (revoke 5 ''id'' 9000000000 []))
     (signSession ''key'' ''ada'' ''id'' 9000000000) \<noteq> None"
  by (subst verifySession_signed)
    (simp_all add: After_def whole_second_def isRevoked_def revoke_def sweep_def Before_def)

subsection \<open>Limiting attempts\<close>

record attempt_window =
  aw_count :: int
  aw_until :: gotime

record attempt_limiter =
  al_burst :: int
  al_window :: duration
  al_seen :: "(string, attempt_window) gomap"

definition newAttemptLimiter :: "int \<Rightarrow> duration \<Rightarrow> attempt_limiter" where
  "newAttemptLimiter burst window = \<lparr>al_burst = burst, al_window = window, al_seen = []\<rparr>"

definition allow :: "gotime \<Rightarrow> string \<Rightarrow> attempt_limiter \<Rightarrow> bool \<times> attempt_limiter" where
  "allow now client' a =
     (let seen = filter (\<lambda>(key, win). \<not> After now (aw_until win)) (al_seen a)
      in case map_of seen client' of
           None \<Rightarrow>
             (True, a\<lparr>al_seen := AList.update client'
                        \<lparr>aw_count = 1, aw_until = time_Add now (al_window a)\<rparr> seen\<rparr>)
         | Some win \<Rightarrow>
             if After now (aw_until win) then
               (True, a\<lparr>al_seen := AList.update client'
                          \<lparr>aw_count = 1, aw_until = time_Add now (al_window a)\<rparr> seen\<rparr>)
             else
               (let win = win\<lparr>aw_count := aw_count win + 1\<rparr>
                in (aw_count win \<le> al_burst a, a\<lparr>al_seen := AList.update client' win seen\<rparr>)))"

text \<open>A run of attempts, and which of them were let through.\<close>

fun allow_run :: "(gotime \<times> string) list \<Rightarrow> attempt_limiter \<Rightarrow> (string \<times> bool) list" where
  "allow_run [] a = []"
| "allow_run ((t, c) # rest) a = (let (ok, a') = allow t c a in (c, ok) # allow_run rest a')"

definition passed :: "string \<Rightarrow> (string \<times> bool) list \<Rightarrow> nat" where
  "passed c outcomes = length (filter (\<lambda>(d, ok). d = c \<and> ok) outcomes)"

definition tried :: "string \<Rightarrow> (gotime \<times> string) list \<Rightarrow> nat" where
  "tried c attempts = length (filter (\<lambda>(t, d). d = c) attempts)"

lemma wf_map_allow:
  "wf_map (al_seen a) \<Longrightarrow> wf_map (al_seen (snd (allow t c a)))"
  by (auto simp: allow_def Let_def distinct_map_filter split: option.split)

lemma allow_params [simp]:
  "al_burst (snd (allow t c a)) = al_burst a" "al_window (snd (allow t c a)) = al_window a"
  by (auto simp: allow_def Let_def split: option.split)

definition live_windows :: "gotime \<Rightarrow> attempt_limiter \<Rightarrow> (string, attempt_window) gomap" where
  "live_windows now a = filter (\<lambda>(key, win). \<not> After now (aw_until win)) (al_seen a)"

lemma map_of_live_windows:
  "wf_map (al_seen a) \<Longrightarrow>
   map_of (live_windows t a) c =
     (case map_of (al_seen a) c of None \<Rightarrow> None | Some w \<Rightarrow> if t \<le> aw_until w then Some w else None)"
  by (simp add: live_windows_def wf_map_map_of_filter After_def not_less split: option.split)

lemma allow_eq:
  assumes "wf_map (al_seen a)"
  shows "allow t c a =
    (case map_of (live_windows t a) c of
       None \<Rightarrow> (True, a\<lparr>al_seen := AList.update c \<lparr>aw_count = 1, aw_until = t + al_window a\<rparr> (live_windows t a)\<rparr>)
     | Some w \<Rightarrow> (aw_count w + 1 \<le> al_burst a,
                  a\<lparr>al_seen := AList.update c (w\<lparr>aw_count := aw_count w + 1\<rparr>) (live_windows t a)\<rparr>))"
proof -
  have "t \<le> aw_until w" if "map_of (live_windows t a) c = Some w" for w
    using that unfolding map_of_live_windows [OF assms] by (simp split: option.splits if_splits)
  then show ?thesis
    unfolding allow_def live_windows_def [symmetric] Let_def
    by (auto simp: After_def time_Add_def simp del: map_of_eq_Some_iff split: option.split)
qed

lemma allow_other:
  assumes "wf_map (al_seen a)" "d \<noteq> c"
  shows "map_of (al_seen (snd (allow t d a))) c = map_of (live_windows t a) c"
  using assms(2) unfolding allow_eq [OF assms(1)] by (simp split: option.split)

lemma allow_fresh:
  assumes "wf_map (al_seen a)"
    and "case map_of (al_seen a) c of None \<Rightarrow> True | Some w \<Rightarrow> aw_until w < t"
  shows "fst (allow t c a)"
    and "map_of (al_seen (snd (allow t c a))) c = Some \<lparr>aw_count = 1, aw_until = t + al_window a\<rparr>"
proof -
  have "map_of (live_windows t a) c = None"
    using assms(2) unfolding map_of_live_windows [OF assms(1)]
    by (cases "map_of (al_seen a) c") simp_all
  then show "fst (allow t c a)"
      "map_of (al_seen (snd (allow t c a))) c = Some \<lparr>aw_count = 1, aw_until = t + al_window a\<rparr>"
    unfolding allow_eq [OF assms(1)] by simp_all
qed

lemma allow_open:
  assumes "wf_map (al_seen a)" "map_of (al_seen a) c = Some w" "t \<le> aw_until w"
  shows "fst (allow t c a) \<longleftrightarrow> aw_count w + 1 \<le> al_burst a"
    and "map_of (al_seen (snd (allow t c a))) c = Some (w\<lparr>aw_count := aw_count w + 1\<rparr>)"
proof -
  have "map_of (live_windows t a) c = Some w"
    unfolding map_of_live_windows [OF assms(1)] assms(2) using assms(3) by simp
  then show "fst (allow t c a) \<longleftrightarrow> aw_count w + 1 \<le> al_burst a"
      "map_of (al_seen (snd (allow t c a))) c = Some (w\<lparr>aw_count := aw_count w + 1\<rparr>)"
    unfolding allow_eq [OF assms(1)] by simp_all
qed

lemma allow_run_open:
  assumes "wf_map (al_seen a)" "map_of (al_seen a) c = Some w" "1 \<le> aw_count w"
    and "list_all (\<lambda>(t, d). t \<le> aw_until w) attempts"
  shows "int (passed c (allow_run attempts a)) =
    min (int (tried c attempts)) (max 0 (al_burst a - aw_count w))"
  using assms
proof (induction attempts arbitrary: a w)
  case Nil
  then show ?case by (simp add: passed_def tried_def)
next
  case (Cons p attempts)
  obtain t d where p: "p = (t, d)" by (cases p)
  obtain ok a' where a': "allow t d a = (ok, a')" by fastforce
  have wf': "wf_map (al_seen a')" and same: "al_burst a' = al_burst a"
    using wf_map_allow [OF Cons.prems(1), of t d] allow_params [of t d a] a' by simp_all
  have t: "t \<le> aw_until w" "list_all (\<lambda>(t, d). t \<le> aw_until w) attempts"
    using Cons.prems(4) p by simp_all
  show ?case
  proof (cases "d = c")
    case False
    then have "map_of (al_seen a') c = Some w"
      using allow_other [OF Cons.prems(1) False, of t] a' t(1)
      unfolding map_of_live_windows [OF Cons.prems(1)] Cons.prems(2) by simp
    from Cons.IH [OF wf' this Cons.prems(3) t(2)] False show ?thesis
      by (simp add: p a' same passed_def tried_def)
  next
    case True
    then have w': "map_of (al_seen a') c = Some (w\<lparr>aw_count := aw_count w + 1\<rparr>)"
        and ok: "ok \<longleftrightarrow> aw_count w + 1 \<le> al_burst a"
      using allow_open [OF Cons.prems(1,2) t(1)] a' by simp_all
    have "int (passed c (allow_run attempts a')) =
        min (int (tried c attempts)) (max 0 (al_burst a' - (aw_count w + 1)))"
      using Cons.IH [OF wf' w'] Cons.prems(3) t(2) by simp
    with ok Cons.prems(3) a' show ?thesis
      unfolding p True by (auto simp: same passed_def tried_def)
  qed
qed

text \<open>
  C21. Password guessing is bounded per address. Take any sequence of login attempts, of any
  clients, that falls within one window from the first attempt of a client whose previous
  window, if any, has passed. The attempts of that client that are let through are exactly
  the first \<open>burst\<close> of them; what other clients do makes no difference.
\<close>

theorem attempts_bounded:
  assumes "wf_map (al_seen a)" "1 \<le> al_burst a"
    and "case map_of (al_seen a) c of None \<Rightarrow> True | Some w \<Rightarrow> aw_until w < t0"
    and "list_all (\<lambda>(t, d). t \<le> t0 + al_window a) attempts"
  shows "int (passed c (allow_run ((t0, c) # attempts) a)) =
           min (int (tried c ((t0, c) # attempts))) (al_burst a)"
proof -
  obtain ok a' where a': "allow t0 c a = (ok, a')" by fastforce
  have "ok" "map_of (al_seen a') c = Some \<lparr>aw_count = 1, aw_until = t0 + al_window a\<rparr>"
    using allow_fresh [OF assms(1,3)] a' by simp_all
  moreover have "wf_map (al_seen a')" "al_burst a' = al_burst a"
    using wf_map_allow [OF assms(1), of t0 c] allow_params [of t0 c a] a' by simp_all
  ultimately show ?thesis
    using allow_run_open [of a' c "\<lparr>aw_count = 1, aw_until = t0 + al_window a\<rparr>" attempts] assms(2,4)
    by (simp add: a' passed_def tried_def)
qed

theorem attempts_bounded_witness:
  "int (passed ''x'' (allow_run [(0, ''x''), (1, ''y''), (2, ''x''), (3, ''x'')] (newAttemptLimiter 2 60))) = 2"
  using attempts_bounded [of "newAttemptLimiter 2 60" 0 "''x''" "[(1, ''y''), (2, ''x''), (3, ''x'')]"]
  by (simp add: newAttemptLimiter_def tried_def)

end
