(* ===== verification/Go_URL.thy ===== *)
theory Go_URL
  imports Go_Encoding
begin

text \<open>
  \<open>url.Parse\<close>, \<open>URL.EscapedPath\<close> and \<open>path.Clean\<close> of the Go library, as far as the
  post-login redirect (\<open>safeNext\<close>) consults them: whether parsing fails, whether there is a
  scheme, a host or an opaque part, and the escaped path. A host that fails to parse and a
  host that is present are not told apart, since the caller refuses both. The last section has
  how \<open>http.ServeMux\<close> reads a path.
\<close>

subsection \<open>Escaping\<close>

definition is_hex_digit :: "char \<Rightarrow> bool" where
  "is_hex_digit c \<longleftrightarrow> (48 \<le> byte c \<and> byte c \<le> 57) \<or> (97 \<le> byte c \<and> byte c \<le> 102) \<or>
     (65 \<le> byte c \<and> byte c \<le> 70)"

definition unhex :: "char \<Rightarrow> nat" where
  "unhex c = (if byte c \<le> 57 then byte c - 48 else if 97 \<le> byte c then byte c - 87 else byte c - 55)"

text \<open>\<open>unescape\<close> in the modes for paths, fragments and user information.\<close>

fun unescape :: "string \<Rightarrow> string option" where
  "unescape [] = Some []"
| "unescape (c # cs) =
     (if c = CHR ''%''
      then (case cs of
              a # b # rest \<Rightarrow>
                if is_hex_digit a \<and> is_hex_digit b
                then map_option ((#) (chr (unhex a * 16 + unhex b))) (unescape rest)
                else None
            | _ \<Rightarrow> None)
      else map_option ((#) c) (unescape cs))"

definition path_escapes :: "char \<Rightarrow> bool" where
  "path_escapes c \<longleftrightarrow> \<not> unreserved c \<and> c \<notin> set ''$&+,/:;=@''"

fun escape_path :: "string \<Rightarrow> string" where
  "escape_path [] = []"
| "escape_path (c # cs) =
     (if path_escapes c then [CHR ''%'', upper_hex (byte c div 16), upper_hex (byte c mod 16)] else [c]) @
     escape_path cs"

definition validEncoded_path :: "string \<Rightarrow> bool" where
  "validEncoded_path s \<longleftrightarrow>
     list_all (\<lambda>c. c \<in> set ''!$&()*+,;=:@[]%'' \<or> byte c = 39 \<or> \<not> path_escapes c) s"

subsection \<open>Parsing\<close>

definition is_letter :: "char \<Rightarrow> bool" where
  "is_letter c \<longleftrightarrow> (97 \<le> byte c \<and> byte c \<le> 122) \<or> (65 \<le> byte c \<and> byte c \<le> 90)"

text \<open>\<open>getScheme\<close>: \<open>None\<close> is the error, an empty scheme is the absence of one.\<close>

fun getScheme :: "string \<Rightarrow> string \<Rightarrow> string \<Rightarrow> (string \<times> string) option" where
  "getScheme raw acc [] = Some ([], raw)"
| "getScheme raw acc (c # cs) =
     (if is_letter c then getScheme raw (acc @ [c]) cs
      else if is_digit c \<or> c \<in> set ''+-.''
      then (if acc = [] then Some ([], raw) else getScheme raw (acc @ [c]) cs)
      else if c = CHR '':'' then (if acc = [] then None else Some (acc, cs))
      else Some ([], raw))"

definition cut_before :: "char \<Rightarrow> string \<Rightarrow> string" where
  "cut_before c s = takeWhile (\<lambda>x. x \<noteq> c) s"

definition cut_after :: "char \<Rightarrow> string \<Rightarrow> string" where
  "cut_after c s = tl (dropWhile (\<lambda>x. x \<noteq> c) s)"

record url =
  url_Scheme :: string
  url_Opaque :: string
  url_HasHost :: bool
  url_Path :: string
  url_RawPath :: string

definition validUserinfo :: "string \<Rightarrow> bool" where
  "validUserinfo s \<longleftrightarrow>
     list_all (\<lambda>c. is_letter c \<or> is_digit c \<or> c \<in> set ''-._:~!$&()*+,;=%@'' \<or> byte c = 39) s"

text \<open>
  The authority, up to the next slash: \<open>None\<close> when its user information is malformed,
  otherwise whether a host follows the last at sign.
\<close>

definition authority_host :: "string \<Rightarrow> bool option" where
  "authority_host authority =
     (if CHR ''@'' \<in> set authority
      then let host = rev (takeWhile (\<lambda>c. c \<noteq> CHR ''@'') (rev authority));
               user = rev (tl (dropWhile (\<lambda>c. c \<noteq> CHR ''@'') (rev authority)))
           in if host \<noteq> [] then Some True
              else if validUserinfo user \<and> unescape user \<noteq> None then Some False else None
      else Some (authority \<noteq> []))"

definition setPath :: "string \<Rightarrow> url \<Rightarrow> url option" where
  "setPath p u =
     (case unescape p of
        None \<Rightarrow> None
      | Some path \<Rightarrow> Some (u\<lparr>url_Path := path, url_RawPath := (if escape_path path = p then [] else p)\<rparr>))"

definition no_url :: url where
  "no_url = \<lparr>url_Scheme = [], url_Opaque = [], url_HasHost = False, url_Path = [], url_RawPath = []\<rparr>"

definition parse_url :: "string \<Rightarrow> url option" where
  "parse_url raw =
     (if list_ex (\<lambda>c. byte c < 32 \<or> byte c = 127) raw then None
      else if raw = ''*'' then Some (no_url\<lparr>url_Path := ''*''\<rparr>)
      else case getScheme raw [] raw of
        None \<Rightarrow> None
      | Some (scheme, rest) \<Rightarrow>
          (let rest = cut_before (CHR ''?'') rest
           in if \<not> HasPrefix rest ''/'' \<and> scheme \<noteq> [] then
                Some (no_url\<lparr>url_Scheme := scheme, url_Opaque := rest\<rparr>)
              else if \<not> HasPrefix rest ''/'' \<and> CHR '':'' \<in> set (cut_before (CHR ''/'') rest) then None
              else if (scheme \<noteq> [] \<or> \<not> HasPrefix rest ''///'') \<and> HasPrefix rest ''//'' then
                (let authority = cut_before (CHR ''/'') (drop 2 rest);
                     path = dropWhile (\<lambda>c. c \<noteq> CHR ''/'') (drop 2 rest)
                 in case authority_host authority of
                      None \<Rightarrow> None
                    | Some has \<Rightarrow> setPath path (no_url\<lparr>url_Scheme := scheme, url_HasHost := has\<rparr>))
              else setPath rest (no_url\<lparr>url_Scheme := scheme\<rparr>)))"

definition url_Parse :: "string \<Rightarrow> url option" where
  "url_Parse raw =
     (case parse_url (cut_before (CHR ''#'') raw) of
        None \<Rightarrow> None
      | Some u \<Rightarrow> if unescape (cut_after (CHR ''#'') raw) = None then None else Some u)"

definition EscapedPath :: "url \<Rightarrow> string" where
  "EscapedPath u =
     (if url_RawPath u \<noteq> [] \<and> validEncoded_path (url_RawPath u) \<and>
         unescape (url_RawPath u) = Some (url_Path u)
      then url_RawPath u
      else if url_Path u = ''*'' then ''*''
      else escape_path (url_Path u))"

lemma upper_hex_unreserved: "n < 16 \<Longrightarrow> unreserved (upper_hex n)"
  by (auto simp: upper_hex_def unreserved_def byte_chr)

lemma backslash_escapes: "path_escapes (CHR 0x5C)"
  by (simp add: path_escapes_def unreserved_def byte_def)

lemma escape_path_no_backslash: "CHR 0x5C \<notin> set (escape_path s)"
proof (induction s)
  case (Cons c s)
  have "\<not> unreserved (CHR 0x5C)" by (simp add: unreserved_def byte_def)
  moreover have "unreserved (upper_hex (byte c div 16))" "unreserved (upper_hex (byte c mod 16))"
    using byte_less [of c] by (auto intro!: upper_hex_unreserved simp: less_mult_imp_div_less)
  ultimately have "upper_hex (byte c div 16) \<noteq> CHR 0x5C" "upper_hex (byte c mod 16) \<noteq> CHR 0x5C"
    by metis+
  with Cons backslash_escapes show ?case by auto
qed simp

lemma validEncoded_no_backslash:
  assumes "validEncoded_path s"
  shows "CHR 0x5C \<notin> set s"
proof
  assume "CHR 0x5C \<in> set s"
  with assms have "CHR 0x5C \<in> set ''!$&()*+,;=:@[]%'' \<or> byte (CHR 0x5C) = 39 \<or> \<not> path_escapes (CHR 0x5C)"
    unfolding validEncoded_path_def list_all_iff by (rule bspec)
  then show False by (simp add: backslash_escapes byte_def)
qed

lemma EscapedPath_no_backslash: "CHR 0x5C \<notin> set (EscapedPath u)"
  by (simp add: EscapedPath_def escape_path_no_backslash validEncoded_no_backslash)

subsection \<open>Cleaning paths\<close>

text \<open>
  \<open>path.Clean\<close> drops empty and dot segments and lets a dot-dot segment take the one before
  it; at the root of a rooted path there is none to take. The segments kept so far are on a
  stack.
\<close>

fun clean_segments :: "bool \<Rightarrow> string list \<Rightarrow> string list \<Rightarrow> string list" where
  "clean_segments rooted out [] = rev out"
| "clean_segments rooted out (s # ss) =
     (if s = [] \<or> s = ''.'' then clean_segments rooted out ss
      else if s = ''..'' then
        (case out of
           [] \<Rightarrow> clean_segments rooted (if rooted then [] else [''..'']) ss
         | t # ts \<Rightarrow> if t = ''..'' then clean_segments rooted (''..'' # out) ss
                     else clean_segments rooted ts ss)
      else clean_segments rooted (s # out) ss)"

definition path_Clean :: "string \<Rightarrow> string" where
  "path_Clean p =
     (if p = [] then ''.''
      else let rooted = (hd p = CHR ''/'');
               body = join_with (CHR ''/'') (clean_segments rooted [] (Split p (CHR ''/'')))
           in if rooted then CHR ''/'' # body else if body = [] then ''.'' else body)"

lemma clean_segments_set:
  "set (clean_segments rooted out ss) \<subseteq> set out \<union> {s \<in> set ss. s \<noteq> []} \<union> {''..''}"
  by (induction rooted out ss rule: clean_segments.induct) (auto split: list.splits if_splits)

lemma clean_segments_nonempty:
  "[] \<notin> set out \<Longrightarrow> [] \<notin> set (clean_segments rooted out ss)"
  using clean_segments_set [of rooted out ss] by auto

lemma set_join_with: "set (join_with sep ss) \<subseteq> insert sep (\<Union> (set ` set ss))"
  by (induction sep ss rule: join_with.induct) auto

lemma hd_join_with:
  "ss \<noteq> [] \<Longrightarrow> [] \<notin> set ss \<Longrightarrow> sep \<notin> set (hd ss) \<Longrightarrow>
   join_with sep ss \<noteq> [] \<and> hd (join_with sep ss) \<noteq> sep"
  by (cases "(sep, ss)" rule: join_with.cases) (auto simp: hd_append hd_in_set)

lemma path_Clean_cases:
  "path_Clean p \<in>
     {''.'', CHR ''/'' # join_with (CHR ''/'') (clean_segments (hd p = CHR ''/'') [] (Split p (CHR ''/''))),
      join_with (CHR ''/'') (clean_segments (hd p = CHR ''/'') [] (Split p (CHR ''/'')))}"
  by (auto simp: path_Clean_def Let_def)

text \<open>A cleaned path never starts with two slashes, and has no character the path had not, dots aside.\<close>

lemma path_Clean_no_double_slash: "\<not> HasPrefix (path_Clean p) ''//''"
proof -
  define ss where "ss = clean_segments (hd p = CHR ''/'') [] (Split p (CHR ''/''))"
  have "[] \<notin> set ss" unfolding ss_def by (rule clean_segments_nonempty) simp
  moreover have "CHR ''/'' \<notin> set s" if "s \<in> set ss" for s
    using that clean_segments_set [of "hd p = CHR ''/''" "[]" "Split p (CHR ''/'')"]
      Split_parts_no_sep [of s p "CHR ''/''"] unfolding ss_def by auto
  ultimately have "ss = [] \<or> (join_with (CHR ''/'') ss \<noteq> [] \<and> hd (join_with (CHR ''/'') ss) \<noteq> CHR ''/'')"
    using hd_join_with [of ss "CHR ''/''"] hd_in_set [of ss] by blast
  then have "\<not> HasPrefix (CHR ''/'' # join_with (CHR ''/'') ss) ''//''"
      "\<not> HasPrefix (join_with (CHR ''/'') ss) ''//''"
    by (cases "join_with (CHR ''/'') ss"; auto simp: HasPrefix_iff)+
  moreover note path_Clean_cases [of p, folded ss_def]
  ultimately show ?thesis by (auto simp: HasPrefix_def)
qed

lemma set_Split: "s \<in> set (Split p sep) \<Longrightarrow> set s \<subseteq> set p"
proof (induction p arbitrary: s)
  case (Cons c p)
  obtain q qs where split: "Split p sep = q # qs" by (cases "Split p sep") auto
  with Cons.prems have "s = [] \<or> s \<in> set (q # qs) \<or> s = c # q" by (auto split: if_splits)
  moreover have "set q \<subseteq> set p" using Cons.IH [of q] split by simp
  ultimately show ?case using Cons.IH [of s] split by auto
qed simp

lemma path_Clean_chars: "set (path_Clean p) \<subseteq> set p \<union> {CHR ''.'', CHR ''/''}"
proof -
  define ss where "ss = clean_segments (hd p = CHR ''/'') [] (Split p (CHR ''/''))"
  have "set s \<subseteq> set p \<union> {CHR ''.''}" if "s \<in> set ss" for s
  proof -
    have "s = ''..'' \<or> s \<in> set (Split p (CHR ''/''))"
      using that clean_segments_set [of "hd p = CHR ''/''" "[]" "Split p (CHR ''/'')"]
      unfolding ss_def by auto
    then show ?thesis using set_Split [of s p "CHR ''/''"] by auto
  qed
  then have "set (join_with (CHR ''/'') ss) \<subseteq> set p \<union> {CHR ''.'', CHR ''/''}"
    using set_join_with [of "CHR ''/''" ss] by blast
  with path_Clean_cases [of p, folded ss_def] show ?thesis by auto
qed

subsection \<open>Paths as the mux matches them\<close>

text \<open>
  \<open>http.ServeMux\<close> (since Go 1.22) cleans the escaped path, keeping a trailing slash, and
  redirects where that changes it. It matches a pattern segment by segment, each unescaped on
  its own (one that does not unescape is taken as it is), so \<open>/pa%75se\<close> is \<open>/pause\<close> to it; a
  trailing slash, and the path \<open>/\<close>, is a last segment \<open>/\<close>.
\<close>

definition cleanPath :: "string \<Rightarrow> string" where
  "cleanPath p =
     (if p = [] then ''/''
      else let p = (if hd p = CHR ''/'' then p else CHR ''/'' # p);
               np = path_Clean p
           in if last p = CHR ''/'' \<and> np \<noteq> ''/'' then np @ ''/'' else np)"

definition PathUnescape :: "string \<Rightarrow> string" where
  "PathUnescape s = (case unescape s of None \<Rightarrow> s | Some p \<Rightarrow> p)"

definition mux_segments :: "string \<Rightarrow> string list" where
  "mux_segments p = map (\<lambda>s. if s = [] then ''/'' else PathUnescape s) (Split (drop 1 p) (CHR ''/''))"

end
