(* ===== verification/Web_Handler.thy ===== *)
theory Web_Handler
  imports Web_Session Go_URL
begin

text \<open>
  The \<open>Handler\<close> of \<open>web/handler.go\<close> and the authentication of \<open>web/auth.go\<close>: options and their
  validation, credentials, who a request is from, CSRF tokens, the audit trail, the gate in
  front of every view, and the route table.

  cq queues are not part of the repository: a queue is a value of type \<open>'q\<close> and what the
  handler calls on it is the parameter \<open>queue_ops\<close>. A handler keeps its queues in the order
  they were registered and names them by position. The application's password check and its
  authorizers are functions. Each function that consults the session takes one clock
  reading for it.
\<close>

subsection \<open>Identities and credentials\<close>

type_synonym Credential = string

definition ViaSession :: Credential where "ViaSession = ''session''"
definition ViaToken :: Credential where "ViaToken = ''token''"

record Identity =
  id_Subject :: string
  id_Via :: Credential

definition nobody :: Identity where
  "nobody = \<lparr>id_Subject = [], id_Via = []\<rparr>"

type_synonym Authorizer = "http_request \<Rightarrow> string \<times> bool"
type_synonym ControlPolicy = "Identity \<Rightarrow> bool"
type_synonym PasswordCheck = "string \<Rightarrow> string \<Rightarrow> string \<times> bool"

definition AllowSignedIn :: ControlPolicy where
  "AllowSignedIn i = True"

definition AllowSubjects :: "string list \<Rightarrow> ControlPolicy" where
  "AllowSubjects subjects i \<longleftrightarrow> id_Subject i \<in> set subjects"

definition BearerToken :: "string \<Rightarrow> string \<Rightarrow> Authorizer" where
  "BearerToken subject token r =
     (if token = [] then ([], False)
      else if \<not> ConstantTimeCompare (TrimPrefix (Header_Get r ''Authorization'') ''Bearer '') token
      then ([], False)
      else (subject, True))"

definition BasicAuth :: "string \<Rightarrow> string \<Rightarrow> Authorizer" where
  "BasicAuth username password r =
     (if username = [] \<or> password = [] then ([], False)
      else case Request_BasicAuth r of
             None \<Rightarrow> ([], False)
           | Some (gotUser, gotPass) \<Rightarrow>
               (let userOK = ConstantTimeCompare gotUser username;
                    passOK = ConstantTimeCompare gotPass password
                in if \<not> userOK \<or> \<not> passOK then ([], False) else (gotUser, True)))"

definition StaticPassword :: "string \<Rightarrow> string \<Rightarrow> PasswordCheck" where
  "StaticPassword username password gotUser gotPass =
     (if username = [] \<or> password = [] then ([], False)
      else let userOK = ConstantTimeCompare gotUser username;
               passOK = ConstantTimeCompare gotPass password
           in if \<not> userOK \<or> \<not> passOK then ([], False) else (gotUser, True))"

record AuditEntry =
  ae_At :: gotime
  ae_Subject :: string
  ae_Via :: Credential
  ae_Action :: string
  ae_Queue :: string
  ae_Detail :: string
  ae_Allowed :: bool
  ae_Err :: "string option"

definition no_entry :: AuditEntry where
  "no_entry = \<lparr>ae_At = zeroTime, ae_Subject = [], ae_Via = [], ae_Action = [], ae_Queue = [],
     ae_Detail = [], ae_Allowed = False, ae_Err = None\<rparr>"

subsection \<open>The handler\<close>

record 'q queue_ops =
  qo_Name :: "'q \<Rightarrow> string"
  qo_Pause :: "'q \<Rightarrow> string option \<times> 'q"
  qo_Resume :: "'q \<Rightarrow> string option \<times> 'q"
  qo_SetWorkerRange :: "int \<Rightarrow> int \<Rightarrow> 'q \<Rightarrow> string option \<times> 'q"
  qo_WorkerRange :: "'q \<Rightarrow> int \<times> int"
  qo_IsPaused :: "'q \<Rightarrow> bool"

text \<open>A scheduler of cq is named by a handle; what it describes is read through it.\<close>

type_synonym scheduler = nat

record 'q handler =
  hn_prefix :: string
  hn_queues :: "'q list"
  hn_schedulers :: "scheduler list"
  hn_queueByName :: "(string, nat) gomap"
  hn_controls :: bool
  hn_controlPolicy :: "ControlPolicy option"
  hn_tokens :: "Authorizer option list"
  hn_requireAuth :: bool
  hn_json :: bool
  hn_onAudit :: bool
  hn_login :: "PasswordCheck option"
  hn_secret :: string
  hn_sessionTTL :: duration
  hn_revoked :: "revocations option"
  hn_attempts :: "attempt_limiter option"
  hn_secureCookies :: "bool option"
  hn_optErr :: "string option"
  hn_audit :: "AuditEntry list"

definition DefaultSessionTTL :: duration where "DefaultSessionTTL = 12 * Hour"
definition loginWindow :: duration where "loginWindow = Minute"
definition loginBurst :: int where "loginBurst = 10"
definition sessionCookie :: string where "sessionCookie = ''cq_dashboard_session''"
definition loginCSRFCookie :: string where "loginCSRFCookie = ''cq_dashboard_login''"

subsection \<open>Options\<close>

definition WithQueues :: "'q list \<Rightarrow> 'q handler \<Rightarrow> 'q handler" where
  "WithQueues queues h = h\<lparr>hn_queues := hn_queues h @ queues\<rparr>"

definition WithSchedulers :: "scheduler list \<Rightarrow> 'q handler \<Rightarrow> 'q handler" where
  "WithSchedulers schedulers h = h\<lparr>hn_schedulers := hn_schedulers h @ schedulers\<rparr>"

definition WithTokens :: "Authorizer option list \<Rightarrow> 'q handler \<Rightarrow> 'q handler" where
  "WithTokens auths h = h\<lparr>hn_tokens := hn_tokens h @ auths\<rparr>"

definition RequireSignIn :: "'q handler \<Rightarrow> 'q handler" where
  "RequireSignIn h = h\<lparr>hn_requireAuth := True\<rparr>"

definition WithControls :: "ControlPolicy option \<Rightarrow> 'q handler \<Rightarrow> 'q handler" where
  "WithControls policy h = h\<lparr>hn_controls := True, hn_controlPolicy := policy\<rparr>"

definition WithJSON :: "'q handler \<Rightarrow> 'q handler" where
  "WithJSON h = h\<lparr>hn_json := True\<rparr>"

definition WithAudit :: "bool \<Rightarrow> 'q handler \<Rightarrow> 'q handler" where
  "WithAudit given h = h\<lparr>hn_onAudit := given\<rparr>"

definition WithSecureCookies :: "bool \<Rightarrow> 'q handler \<Rightarrow> 'q handler" where
  "WithSecureCookies secure h = h\<lparr>hn_secureCookies := Some secure\<rparr>"

definition WithLogin :: "PasswordCheck option \<Rightarrow> string \<Rightarrow> duration \<Rightarrow> 'q handler \<Rightarrow> 'q handler" where
  "WithLogin check secret ttl h =
     (case check of
        None \<Rightarrow> h\<lparr>hn_optErr := Some ''web: WithLogin requires a PasswordCheck''\<rparr>
      | Some check \<Rightarrow>
          if length secret = 0
          then h\<lparr>hn_optErr := Some ''web: WithLogin requires a non-empty signing secret''\<rparr>
          else h\<lparr>hn_login := Some check, hn_secret := secret,
                 hn_sessionTTL := (if ttl \<le> 0 then DefaultSessionTTL else ttl),
                 hn_revoked := Some newRevocations,
                 hn_attempts := Some (newAttemptLimiter loginBurst loginWindow)\<rparr>)"

datatype 'q web_option =
    OptQueues "'q list"
  | OptSchedulers "scheduler list"
  | OptTokens "Authorizer option list"
  | OptRequireSignIn
  | OptControls "ControlPolicy option"
  | OptJSON
  | OptAudit bool
  | OptSecureCookies bool
  | OptLogin "PasswordCheck option" string duration

fun apply_web_option :: "'q web_option \<Rightarrow> 'q handler \<Rightarrow> 'q handler" where
  "apply_web_option (OptQueues qs) = WithQueues qs"
| "apply_web_option (OptSchedulers ss) = WithSchedulers ss"
| "apply_web_option (OptTokens auths) = WithTokens auths"
| "apply_web_option OptRequireSignIn = RequireSignIn"
| "apply_web_option (OptControls policy) = WithControls policy"
| "apply_web_option OptJSON = WithJSON"
| "apply_web_option (OptAudit given) = WithAudit given"
| "apply_web_option (OptSecureCookies secure) = WithSecureCookies secure"
| "apply_web_option (OptLogin check secret ttl) = WithLogin check secret ttl"

definition blank_handler :: "string \<Rightarrow> 'q handler" where
  "blank_handler prefix =
     \<lparr>hn_prefix = prefix, hn_queues = [], hn_schedulers = [], hn_queueByName = [], hn_controls = False,
      hn_controlPolicy = None, hn_tokens = [], hn_requireAuth = False, hn_json = False,
      hn_onAudit = False, hn_login = None, hn_secret = [], hn_sessionTTL = 0, hn_revoked = None,
      hn_attempts = None, hn_secureCookies = None, hn_optErr = None, hn_audit = []\<rparr>"

definition queue_label :: "'q queue_ops \<Rightarrow> nat \<Rightarrow> 'q \<Rightarrow> string" where
  "queue_label ops i q = (if qo_Name ops q = [] then ''queue-'' @ Itoa (int i) else qo_Name ops q)"

definition queue_index :: "'q queue_ops \<Rightarrow> 'q list \<Rightarrow> (string, nat) gomap" where
  "queue_index ops qs =
     fold (\<lambda>(i, q) m. AList.update (queue_label ops i q) i m) (enumerate 0 qs) []"

definition web_New ::
    "'q queue_ops \<Rightarrow> string \<Rightarrow> 'q web_option list \<Rightarrow> string + 'q handler" where
  "web_New ops prefix opts =
     (let h = fold apply_web_option opts (blank_handler (TrimSuffix prefix ''/''))
      in case hn_optErr h of
           Some err \<Rightarrow> Inl err
         | None \<Rightarrow>
             if hn_controls h \<and> hn_controlPolicy h = None
             then Inl ''web: WithControls requires a ControlPolicy, such as AllowSignedIn''
             else if hn_controls h \<and> hn_login h = None \<and> length (hn_tokens h) = 0
             then Inl ''web: WithControls needs a credential source: WithLogin or WithTokens''
             else if hn_requireAuth h \<and> hn_login h = None \<and> length (hn_tokens h) = 0
             then Inl ''web: RequireSignIn needs a credential source: WithLogin or WithTokens''
             else Inr (h\<lparr>hn_queueByName := queue_index ops (hn_queues h)\<rparr>))"

subsection \<open>Who a request is from\<close>

definition sessionFrom :: "gotime \<Rightarrow> 'q handler \<Rightarrow> http_request \<Rightarrow> session option" where
  "sessionFrom now h r =
     first_session now now (hn_secret h) (hn_revoked h) (CookiesNamed r sessionCookie)"

definition sessionSubject :: "gotime \<Rightarrow> 'q handler \<Rightarrow> http_request \<Rightarrow> string option" where
  "sessionSubject now h r = map_option se_Subject (sessionFrom now h r)"

fun first_token :: "Authorizer option list \<Rightarrow> http_request \<Rightarrow> Identity option" where
  "first_token [] r = None"
| "first_token (None # auths) r = first_token auths r"
| "first_token (Some auth # auths) r =
     (case auth r of
        (subject, True) \<Rightarrow> Some \<lparr>id_Subject = subject, id_Via = ViaToken\<rparr>
      | (_, False) \<Rightarrow> first_token auths r)"

definition identify :: "gotime \<Rightarrow> 'q handler \<Rightarrow> http_request \<Rightarrow> Identity option" where
  "identify now h r =
     (case (if hn_login h \<noteq> None then sessionSubject now h r else None) of
        Some subject \<Rightarrow> Some \<lparr>id_Subject = subject, id_Via = ViaSession\<rparr>
      | None \<Rightarrow> first_token (hn_tokens h) r)"

definition csrfFor :: "gotime \<Rightarrow> 'q handler \<Rightarrow> http_request \<Rightarrow> string option" where
  "csrfFor now h r =
     (if hn_login h = None then None
      else map_option (\<lambda>found. sign (hn_secret h) (''csrf:'' @ se_ID found)) (sessionFrom now h r))"

definition checkCSRF :: "gotime \<Rightarrow> 'q handler \<Rightarrow> http_request \<Rightarrow> Identity \<Rightarrow> bool" where
  "checkCSRF now h r i =
     (if id_Via i = ViaToken then True
      else case csrfFor now h r of
             None \<Rightarrow> False
           | Some want \<Rightarrow> ConstantTimeCompare (PostFormValue r ''csrf'') want)"

definition mayControl :: "gotime \<Rightarrow> 'q handler \<Rightarrow> http_request \<Rightarrow> Identity \<times> bool" where
  "mayControl now h r =
     (case (identify now h r, hn_controlPolicy h) of
        (Some i, Some policy) \<Rightarrow> (i, policy i)
      | _ \<Rightarrow> (nobody, False))"

definition audit :: "gotime \<Rightarrow> AuditEntry \<Rightarrow> 'q handler \<Rightarrow> 'q handler" where
  "audit now entry h =
     (if hn_onAudit h then h\<lparr>hn_audit := hn_audit h @ [entry\<lparr>ae_At := now\<rparr>]\<rparr> else h)"

definition secureCookie :: "'q handler \<Rightarrow> http_request \<Rightarrow> bool" where
  "secureCookie h r =
     (case hn_secureCookies h of
        Some secure \<Rightarrow> secure
      | None \<Rightarrow> rq_tls r \<or> EqualFold_https (Header_Get r ''X-Forwarded-Proto''))"

definition cookiePath :: "'q handler \<Rightarrow> string" where
  "cookiePath h = (if hn_prefix h = [] then ''/'' else hn_prefix h @ ''/'')"

subsection \<open>The gate\<close>

type_synonym 'q served = "go_panic + http_response \<times> 'q handler"

definition URL_EscapedPath :: "http_request \<Rightarrow> string" where
  "URL_EscapedPath r = EscapedPath (no_url\<lparr>url_Path := rq_path r, url_RawPath := rq_rawpath r\<rparr>)"

definition gate ::
    "gotime \<Rightarrow> ('q handler \<Rightarrow> 'q served) \<Rightarrow> http_request \<Rightarrow> 'q handler \<Rightarrow> 'q served" where
  "gate now next' r h =
     (let path = TrimPrefix (rq_path r) (hn_prefix h)
      in if path = ''/login'' \<or> path = ''/logout'' then next' h
         else if identify now h r \<noteq> None then next' h
         else if wantsJSON r then Inr (writeJSONError 401 ''unauthorized'', h)
         else if hn_login h = None then Inr (http_Error ''unauthorized'' 401, h)
         else Inr (http_Redirect (hn_prefix h @ ''/login?next='' @ QueryEscape (URL_EscapedPath r)) [], h))"

definition RequireAuth ::
    "Authorizer option \<Rightarrow> ('q handler \<Rightarrow> 'q served) \<Rightarrow> http_request \<Rightarrow> 'q handler \<Rightarrow> 'q served" where
  "RequireAuth auth next' r h =
     (case auth of
        None \<Rightarrow> Inr (http_Error ''unauthorized'' 401, h)
      | Some auth \<Rightarrow>
          if \<not> snd (auth r)
          then Inr ((http_Error ''unauthorized'' 401)
                      \<lparr>rs_header := [(''WWW-Authenticate'', ''Basic realm=\"cq dashboard\", charset=\"UTF-8\"'')]\<rparr>, h)
          else next' h)"

subsection \<open>Routes\<close>

datatype route =
    Overview | LivePartial | JobsPage | JobPage string | FailuresPage | ReferencePage
  | LoginForm | LoginSubmit | Logout
  | JobsJSON | LiveJSON
  | Pause | Resume | Workers

text \<open>
  The patterns registered with the mux, on the escaped path below the prefix: literal segments,
  except that \<open>{key}\<close> is any one segment but the trailing slash and \<open>{$}\<close> is the trailing slash.
  A GET pattern also serves HEAD; a path that is not clean has no route.
\<close>

definition mux_route :: "'q handler \<Rightarrow> string \<Rightarrow> string \<Rightarrow> route option" where
  "mux_route h meth path =
     (let get = (meth = ''GET'' \<or> meth = ''HEAD'');
          post = (meth = ''POST'');
          segs = mux_segments path
      in if cleanPath path \<noteq> path then None
         else if get \<and> segs = [''/''] then Some Overview
         else if get \<and> segs = [''partials'', ''live''] then Some LivePartial
         else if get \<and> segs = [''jobs''] then Some JobsPage
         else if get \<and> length segs = 2 \<and> segs ! 0 = ''jobs'' \<and> segs ! 1 \<noteq> ''/'' then Some (JobPage (segs ! 1))
         else if get \<and> segs = [''failures''] then Some FailuresPage
         else if get \<and> segs = [''reference''] then Some ReferencePage
         else if hn_login h \<noteq> None \<and> get \<and> segs = [''login''] then Some LoginForm
         else if hn_login h \<noteq> None \<and> post \<and> segs = [''login''] then Some LoginSubmit
         else if hn_login h \<noteq> None \<and> post \<and> segs = [''logout''] then Some Logout
         else if hn_json h \<and> get \<and> segs = [''jobs.json''] then Some JobsJSON
         else if hn_json h \<and> get \<and> segs = [''live.json''] then Some LiveJSON
         else if hn_controls h \<and> post \<and> segs = [''control'', ''pause''] then Some Pause
         else if hn_controls h \<and> post \<and> segs = [''control'', ''resume''] then Some Resume
         else if hn_controls h \<and> post \<and> segs = [''control'', ''workers''] then Some Workers
         else None)"

text \<open>
  \<open>http.StripPrefix\<close> around the mux. \<open>run\<close> is the handler a route leads to; a request no
  pattern serves gets the answer of the mux itself, \<open>unrouted\<close>: a redirect to the cleaned path,
  404, or 405 where a pattern differs by the method only.
\<close>

definition routed ::
    "(route \<Rightarrow> http_request \<Rightarrow> 'q handler \<Rightarrow> 'q served) \<Rightarrow> http_response \<Rightarrow>
     http_request \<Rightarrow> 'q handler \<Rightarrow> 'q served" where
  "routed run unrouted r h =
     (let prefix = hn_prefix h;
          p = TrimPrefix (rq_path r) prefix;
          rp = TrimPrefix (rq_rawpath r) prefix;
          r' = r\<lparr>rq_path := p, rq_rawpath := rp\<rparr>
      in if prefix \<noteq> [] \<and>
            \<not> (length p < length (rq_path r) \<and> (rq_rawpath r = [] \<or> length rp < length (rq_rawpath r)))
         then Inr (http_NotFound, h)
         else case mux_route h (rq_method r) (URL_EscapedPath r') of
                None \<Rightarrow> Inr (unrouted, h)
              | Some rt \<Rightarrow> run rt r' h)"

definition ServeHTTP ::
    "gotime \<Rightarrow> (route \<Rightarrow> http_request \<Rightarrow> 'q handler \<Rightarrow> 'q served) \<Rightarrow> http_response \<Rightarrow>
     http_request \<Rightarrow> 'q handler \<Rightarrow> 'q served" where
  "ServeHTTP now run unrouted r h =
     (if hn_login h \<noteq> None \<or> hn_requireAuth h then gate now (routed run unrouted r) r h
      else routed run unrouted r h)"

end
