(* ===== verification/Web_Login.thy ===== *)
theory Web_Login
  imports Web_Handler
begin

text \<open>
  The login, logout and redirect handlers of \<open>web/login.go\<close>. What \<open>rand.Read\<close> filled in is an
  argument, \<open>None\<close> when it failed.
\<close>

subsection \<open>Where to go after a login\<close>

definition safeNext :: "'q handler \<Rightarrow> string \<Rightarrow> string" where
  "safeNext h next' =
     (let home = hn_prefix h @ ''/''
      in if next' = [] \<or> ContainsAny next' [CHR 0x5C] then home
         else case url_Parse next' of
                None \<Rightarrow> home
              | Some parsed \<Rightarrow>
                  if url_Scheme parsed \<noteq> [] \<or> url_HasHost parsed \<or> url_Opaque parsed \<noteq> [] then home
                  else let clean = path_Clean (EscapedPath parsed)
                       in if \<not> HasPrefix clean home \<and> clean \<noteq> TrimSuffix home ''/'' then home
                          else clean)"

subsection \<open>Handlers\<close>

text \<open>
  The status is written before the page is rendered, so the headers \<open>render\<close> sets afterwards
  (\<open>Cache-Control\<close>, \<open>Content-Type\<close>) never reach the client.
\<close>

definition renderLogin :: "nat \<Rightarrow> string \<Rightarrow> string \<Rightarrow> string \<Rightarrow> http_response" where
  "renderLogin status message next' token =
     \<lparr>rs_status = status, rs_header = [], rs_cookies = [], rs_body = LoginPage message next' token\<rparr>"

definition base_cookie :: "'q handler \<Rightarrow> http_request \<Rightarrow> string \<Rightarrow> string \<Rightarrow> set_cookie" where
  "base_cookie h r name v =
     \<lparr>ck_Name = name, ck_Value = v, ck_Path = cookiePath h, ck_MaxAge = 0, ck_Expires = zeroTime,
      ck_HttpOnly = True, ck_SameSiteLax = True, ck_Secure = secureCookie h r\<rparr>"

definition clearCookie :: "'q handler \<Rightarrow> http_request \<Rightarrow> string \<Rightarrow> set_cookie" where
  "clearCookie h r name = (base_cookie h r name [])\<lparr>ck_MaxAge := - 1\<rparr>"

definition loginForm :: "string option \<Rightarrow> http_request \<Rightarrow> 'q handler \<Rightarrow> 'q served" where
  "loginForm random r h =
     (case newCSRFToken random of
        None \<Rightarrow> Inr (http_Error ''could not start a login'' 500, h)
      | Some token \<Rightarrow>
          Inr ((renderLogin 200 [] (Query_Get r ''next'') token)
                 \<lparr>rs_cookies := [(base_cookie h r loginCSRFCookie token)\<lparr>ck_MaxAge := 600\<rparr>]\<rparr>, h))"

definition auditLogin :: "gotime \<Rightarrow> http_request \<Rightarrow> string \<Rightarrow> bool \<Rightarrow> string \<Rightarrow> 'q handler \<Rightarrow> 'q handler" where
  "auditLogin now r username allowed reason h =
     (let detail = username @ (if reason \<noteq> [] then '' ('' @ reason @ '')'' else [])
      in audit now (no_entry\<lparr>ae_Action := ''login'', ae_Queue := client r, ae_Detail := detail,
                             ae_Allowed := allowed\<rparr>) h)"

text \<open>\<open>now\<close> is read by the limiter, \<open>now'\<close> when the expiry is set and the entry written.\<close>

definition loginSubmit ::
    "gotime \<Rightarrow> gotime \<Rightarrow> string option \<Rightarrow> http_request \<Rightarrow> 'q handler \<Rightarrow> 'q served" where
  "loginSubmit now now' random r h =
     (let next' = PostFormValue r ''next'';
          username = PostFormValue r ''username''
      in if (case Cookie r loginCSRFCookie of
               None \<Rightarrow> True
             | Some v \<Rightarrow> \<not> ConstantTimeCompare v (PostFormValue r ''csrf''))
         then Inr (renderLogin 403 ''That form expired. Please try again.'' next' [],
                   auditLogin now' r [] False ''csrf'' h)
         else case (hn_attempts h, hn_login h) of
           (Some limiter, Some check) \<Rightarrow>
             (let (ok, limiter') = allow now (client r) limiter;
                  h = h\<lparr>hn_attempts := Some limiter'\<rparr>
              in if \<not> ok
                 then Inr (renderLogin 429 ''Too many attempts. Wait a minute and try again.'' next' [],
                           auditLogin now' r username False ''rate limited'' h)
                 else let (subject, ok) = check username (PostFormValue r ''password'')
                      in if \<not> ok \<or> subject = []
                         then Inr (renderLogin 401 ''Those credentials were not accepted.'' next' [],
                                   auditLogin now' r username False [] h)
                         else case newSessionID random of
                                None \<Rightarrow> Inr (http_Error ''could not start a session'' 500, h)
                              | Some id' \<Rightarrow>
                                  (let expiry = time_Add now' (hn_sessionTTL h);
                                       cookie = (base_cookie h r sessionCookie
                                                   (signSession (hn_secret h) subject id' expiry))
                                                  \<lparr>ck_Expires := expiry\<rparr>;
                                       entry = no_entry\<lparr>ae_Subject := subject, ae_Action := ''login'',
                                                        ae_Allowed := True\<rparr>
                                   in Inr (http_Redirect (safeNext h next')
                                             [cookie, clearCookie h r loginCSRFCookie],
                                           audit now' entry h)))
         | _ \<Rightarrow> Inl NilDeref)"

definition logout :: "gotime \<Rightarrow> http_request \<Rightarrow> 'q handler \<Rightarrow> 'q served" where
  "logout now r h =
     (if \<not> checkCSRF now h r \<lparr>id_Subject = [], id_Via = ViaSession\<rparr>
      then Inr (http_Error ''invalid csrf token'' 403, h)
      else let response = http_Redirect (hn_prefix h @ ''/login'') [clearCookie h r sessionCookie]
           in case sessionFrom now h r of
                None \<Rightarrow> Inr (response, h)
              | Some found \<Rightarrow>
                  (case hn_revoked h of
                     None \<Rightarrow> Inl NilDeref
                   | Some dead \<Rightarrow>
                       Inr (response,
                            audit now (no_entry\<lparr>ae_Subject := se_Subject found, ae_Via := ViaSession,
                                                ae_Action := ''logout'', ae_Allowed := True\<rparr>)
                              (h\<lparr>hn_revoked := Some (revoke now (se_ID found) (se_Expiry found) dead)\<rparr>))))"

subsection \<open>The well-formed handler\<close>

text \<open>
  What every handler \<open>New\<close> returns satisfies and every request keeps: a login comes with a
  secret, a positive lifetime, a revocation list and a limiter; controls come with a policy
  and a credential source; a demand to sign in comes with a way to do it; and the queue index
  points at registered queues.
\<close>

definition handler_ok :: "'q handler \<Rightarrow> bool" where
  "handler_ok h \<longleftrightarrow>
     (hn_login h \<noteq> None \<longrightarrow> hn_secret h \<noteq> [] \<and> 0 < hn_sessionTTL h \<and>
        (\<exists>dead. hn_revoked h = Some dead \<and> wf_map dead) \<and>
        (\<exists>lim. hn_attempts h = Some lim \<and> wf_map (al_seen lim) \<and> al_burst lim = loginBurst \<and>
               al_window lim = loginWindow)) \<and>
     (hn_controls h \<longrightarrow> hn_controlPolicy h \<noteq> None \<and> (hn_login h \<noteq> None \<or> hn_tokens h \<noteq> [])) \<and>
     (hn_requireAuth h \<longrightarrow> hn_login h \<noteq> None \<or> hn_tokens h \<noteq> []) \<and>
     (\<forall>name i. map_of (hn_queueByName h) name = Some i \<longrightarrow> i < length (hn_queues h))"

end
