(* ===== verification/Web_Listing.thy ===== *)
theory Web_Listing
  imports Web_Login Memory_Impl Query_Laws
begin

text \<open>
  Filtered, paginated listings of \<open>web/handler.go\<close>: reading the filters out of a request, the
  query behind a page, and the pager links. The queries a page makes of the store are the
  parameter \<open>store_reads\<close>. The two textual time layouts accepted for \<open>before\<close> are parsed by
  \<open>time.Parse\<close>, which is the parameter \<open>go_layouts\<close>; nothing is assumed of it.
\<close>

subsection \<open>Query strings\<close>

fun QueryUnescape :: "string \<Rightarrow> string option" where
  "QueryUnescape [] = Some []"
| "QueryUnescape (c # cs) =
     (if c = CHR ''%''
      then (case cs of
              a # b # rest \<Rightarrow>
                if is_hex_digit a \<and> is_hex_digit b
                then map_option ((#) (chr (unhex a * 16 + unhex b))) (QueryUnescape rest)
                else None
            | _ \<Rightarrow> None)
      else map_option ((#) (if c = CHR ''+'' then CHR '' '' else c)) (QueryUnescape cs))"

definition encode_pair :: "string \<times> string \<Rightarrow> string" where
  "encode_pair kv = QueryEscape (fst kv) @ ''='' @ QueryEscape (snd kv)"

definition key_before :: "string \<times> string list \<Rightarrow> string \<times> string list \<Rightarrow> bool" where
  "key_before a b \<longleftrightarrow> fst a < fst b"

definition value_pairs :: "url_values \<Rightarrow> (string \<times> string) list" where
  "value_pairs m = concat (map (\<lambda>(k, vs). map (Pair k) vs) m)"

definition values_Encode :: "url_values \<Rightarrow> string" where
  "values_Encode m = join_with (CHR ''&'') (map encode_pair (value_pairs (sort_slice key_before m)))"

text \<open>\<open>url.ParseQuery\<close>, which the server runs on the query of a request: malformed parts are skipped.\<close>

definition decode_pair :: "string \<Rightarrow> (string \<times> string) option" where
  "decode_pair part =
     (if part = [] \<or> CHR '';'' \<in> set part then None
      else case (QueryUnescape (cut_before (CHR ''='') part), QueryUnescape (cut_after (CHR ''='') part)) of
             (Some k, Some v) \<Rightarrow> Some (k, v)
           | _ \<Rightarrow> None)"

definition parse_query :: "string \<Rightarrow> url_values" where
  "parse_query s =
     fold (\<lambda>part m. case decode_pair part of
                      None \<Rightarrow> m
                    | Some (k, v) \<Rightarrow> AList.update k (values_all m k @ [v]) m)
       (Split s (CHR ''&'')) []"

subsection \<open>Filters\<close>

definition filterFrom :: "http_request \<Rightarrow> job_filter" where
  "filterFrom r =
     (let f = zero_filter\<lparr>f_Queue := Query_Get r ''queue'', f_Pattern := Query_Get r ''pattern'',
                f_Search := Query_Get r ''q'', f_AttrKey := Query_Get r ''attr'',
                f_AttrValue := Query_Get r ''value''\<rparr>;
          state = Query_Get r ''state''
      in if state \<noteq> [] then f\<lparr>f_States := [state]\<rparr> else f)"

definition set_if :: "bool \<Rightarrow> string \<Rightarrow> string \<Rightarrow> url_values \<Rightarrow> url_values" where
  "set_if b k v m = (if b then values_Set k v m else m)"

definition filterQuery :: "job_filter \<Rightarrow> url_values" where
  "filterQuery f =
     (set_if (\<not> IsZero (f_Before f)) ''before'' (FormatInt (UnixMicro (f_Before f)))
      (set_if (length (f_States f) = 1) ''state'' (hd (f_States f))
       (set_if (f_AttrValue f \<noteq> []) ''value'' (f_AttrValue f)
        (set_if (f_AttrKey f \<noteq> []) ''attr'' (f_AttrKey f)
         (set_if (f_Search f \<noteq> []) ''q'' (f_Search f)
          (set_if (f_Pattern f \<noteq> []) ''pattern'' (f_Pattern f)
           (set_if (f_Queue f \<noteq> []) ''queue'' (f_Queue f) [])))))))"

subsection \<open>Pages\<close>

record store_reads =
  sr_CountJobs :: "job_filter \<Rightarrow> string + nat"
  sr_Jobs :: "job_filter \<Rightarrow> string + job list"
  sr_AttributeKeys :: "int \<Rightarrow> string + string list"

record go_layouts =
  gl_parse_micro :: "string \<Rightarrow> gotime option"
  gl_parse_nano :: "string \<Rightarrow> gotime option"

record listing =
  li_Jobs :: "job list"
  li_Filter :: job_filter
  li_Total :: int
  li_Shown :: int
  li_Page :: int
  li_Pages :: int
  li_First :: int
  li_Last :: int
  li_AttrKeys :: "string list"
  li_Queues :: "string list"
  li_Path :: string
  li_Query :: url_values

definition perPage :: int where "perPage = 50"

definition HasPrev :: "listing \<Rightarrow> bool" where "HasPrev l \<longleftrightarrow> li_Page l > 1"
definition HasNext :: "listing \<Rightarrow> bool" where "HasNext l \<longleftrightarrow> li_Page l < li_Pages l"

definition page_values :: "gotime \<Rightarrow> listing \<Rightarrow> int \<Rightarrow> url_values" where
  "page_values now l page =
     values_Set ''page'' (Itoa page)
       (if page > 1 \<and> values_Get (li_Query l) ''before'' = []
        then values_Set ''before'' (FormatInt (UnixMicro now)) (li_Query l) else li_Query l)"

definition pageURL :: "gotime \<Rightarrow> listing \<Rightarrow> int \<Rightarrow> string" where
  "pageURL now l page = li_Path l @ ''?'' @ values_Encode (page_values now l page)"

definition PrevURL :: "gotime \<Rightarrow> listing \<Rightarrow> string" where "PrevURL now l = pageURL now l (li_Page l - 1)"
definition NextURL :: "gotime \<Rightarrow> listing \<Rightarrow> string" where "NextURL now l = pageURL now l (li_Page l + 1)"

definition queueNames :: "'q handler \<Rightarrow> string list" where
  "queueNames h = sort_slice (<) (keys (hn_queueByName h))"

definition requested_page :: "http_request \<Rightarrow> int" where
  "requested_page r =
     (let raw = Query_Get r ''page''
      in if raw \<noteq> [] then (case Atoi raw of Inr parsed \<Rightarrow> if parsed > 1 then parsed else 1 | Inl _ \<Rightarrow> 1)
         else 1)"

definition frozen_before :: "go_layouts \<Rightarrow> gotime \<Rightarrow> http_request \<Rightarrow> int \<Rightarrow> gotime \<Rightarrow> gotime" where
  "frozen_before lay now r page before =
     (let raw = Query_Get r ''before''
      in if raw \<noteq> [] then
           (case ParseInt raw of
              Inr micros \<Rightarrow> time_UnixMicro micros
            | Inl _ \<Rightarrow> (case gl_parse_micro lay raw of
                          Some parsed \<Rightarrow> parsed
                        | None \<Rightarrow> (case gl_parse_nano lay raw of Some parsed \<Rightarrow> parsed | None \<Rightarrow> before)))
         else if page > 1 then now else before)"

text \<open>\<open>h.list\<close>: the offset of a page number out of a request may wrap around before it is clamped.\<close>

definition list_page ::
    "go_layouts \<Rightarrow> store_reads \<Rightarrow> gotime \<Rightarrow> 'q handler \<Rightarrow> http_request \<Rightarrow> job_filter \<Rightarrow> string \<Rightarrow>
     string + listing" where
  "list_page lay rd now h r filter' path =
     (let page = requested_page r;
          filter' = filter'\<lparr>f_Limit := perPage, f_Offset := int64 ((page - 1) * perPage),
                       f_Before := frozen_before lay now r page (f_Before filter')\<rparr>
      in case sr_CountJobs rd filter' of
           Inl err \<Rightarrow> Inl err
         | Inr hits \<Rightarrow>
             (let pages = (int hits + perPage - 1) sdiv perPage;
                  pages = (if pages = 0 then 1 else pages);
                  filter' = (if page > pages then filter'\<lparr>f_Offset := (pages - 1) * perPage\<rparr> else filter');
                  page = (if page > pages then pages else page)
              in case sr_Jobs rd filter' of
                   Inl err \<Rightarrow> Inl err
                 | Inr jobs \<Rightarrow>
                     (case sr_AttributeKeys rd 12 of
                        Inl err \<Rightarrow> Inl err
                      | Inr keys' \<Rightarrow>
                          Inr \<lparr>li_Jobs = jobs, li_Filter = filter', li_Total = int hits,
                               li_Shown = int (length jobs), li_Page = page, li_Pages = pages,
                               li_First = (if length jobs > 0 then f_Offset filter' + 1 else 0),
                               li_Last = f_Offset filter' + int (length jobs),
                               li_AttrKeys = keys', li_Queues = queueNames h,
                               li_Path = hn_prefix h @ path, li_Query = filterQuery filter'\<rparr>)))"

end
