(* ===== verification/Web_Controls.thy ===== *)
theory Web_Controls
  imports Web_Login Go_Sort
begin

text \<open>
  The write controls of \<open>web/controls.go\<close>, and the handler each route leads to. How
  \<open>strconv\<close> words a number it could not parse is the parameter \<open>num_text\<close>. \<open>t1\<close>, \<open>t2\<close> and \<open>t3\<close>
  are the clock readings for the identity, the CSRF token and the audit entry.
\<close>

subsection \<open>Actions\<close>

type_synonym 'q queue_action = "'q \<Rightarrow> http_request \<Rightarrow> (string \<times> string option) \<times> 'q"

definition pause_action :: "'q queue_ops \<Rightarrow> 'q queue_action" where
  "pause_action ops q r = (let (err, q') = qo_Pause ops q in (([], err), q'))"

definition resume_action :: "'q queue_ops \<Rightarrow> 'q queue_action" where
  "resume_action ops q r = (let (err, q') = qo_Resume ops q in (([], err), q'))"

definition workers_action ::
    "(string \<Rightarrow> num_error \<Rightarrow> string) \<Rightarrow> 'q queue_ops \<Rightarrow> 'q queue_action" where
  "workers_action num_text ops q r =
     (case Atoi (FormValue r ''min'') of
        Inl e \<Rightarrow> (([], Some (''min: '' @ num_text (FormValue r ''min'') e)), q)
      | Inr lo \<Rightarrow>
          (case Atoi (FormValue r ''max'') of
             Inl e \<Rightarrow> (([], Some (''max: '' @ num_text (FormValue r ''max'') e)), q)
           | Inr hi \<Rightarrow>
               (let (err, q') = qo_SetWorkerRange ops lo hi q
                in ((Itoa lo @ ''-'' @ Itoa hi, err), q'))))"

definition control_entry :: "Identity \<Rightarrow> string \<Rightarrow> string \<Rightarrow> bool \<Rightarrow> AuditEntry" where
  "control_entry i action queueName allowed =
     no_entry\<lparr>ae_Subject := id_Subject i, ae_Via := id_Via i, ae_Action := action,
              ae_Queue := queueName, ae_Allowed := allowed\<rparr>"

definition control ::
    "gotime \<Rightarrow> gotime \<Rightarrow> gotime \<Rightarrow> string \<Rightarrow> 'q queue_action \<Rightarrow> http_request \<Rightarrow> 'q handler \<Rightarrow>
     http_response \<times> 'q handler" where
  "control t1 t2 t3 action apply' r h =
     (if \<not> hn_controls h then (http_NotFound, h)
      else let queueName = FormValue r ''queue'';
               (i, ok) = mayControl t1 h r
           in if \<not> ok
              then ((http_Error ''unauthorized'' 401)\<lparr>rs_header := [(''WWW-Authenticate'', ''Bearer'')]\<rparr>,
                    audit t3 (control_entry i action queueName False) h)
              else if \<not> checkCSRF t2 h r i
              then (http_Error ''invalid csrf token'' 403,
                    audit t3 (control_entry i action queueName False) h)
              else case map_of (hn_queueByName h) queueName of
                     None \<Rightarrow>
                       (http_Error ''unknown queue'' 404,
                        audit t3 ((control_entry i action queueName True)\<lparr>ae_Err := Some ''unknown queue''\<rparr>) h)
                   | Some n \<Rightarrow>
                       (let ((detail, err), q') = apply' (hn_queues h ! n) r;
                            target = hn_prefix h @ ''/'' @
                              (case err of
                                 Some msg \<Rightarrow> ''?error='' @ QueryEscape msg
                               | None \<Rightarrow> ''?notice='' @ QueryEscape (action @ '' applied to '' @ queueName))
                        in (http_Redirect target [],
                            audit t3 ((control_entry i action queueName True)
                                        \<lparr>ae_Detail := detail, ae_Err := err\<rparr>)
                              (h\<lparr>hn_queues := (hn_queues h)[n := q']\<rparr>))))"

subsection \<open>The controls panel\<close>

record control_view =
  cv_Name :: string
  cv_Paused :: bool
  cv_Min :: int
  cv_Max :: int

definition view_before :: "control_view \<Rightarrow> control_view \<Rightarrow> bool" where
  "view_before a b \<longleftrightarrow> cv_Name a < cv_Name b"

definition controlViews :: "'q queue_ops \<Rightarrow> 'q handler \<Rightarrow> control_view list" where
  "controlViews ops h =
     sort_slice view_before
       (map (\<lambda>(name, i). let (lo, hi) = qo_WorkerRange ops (hn_queues h ! i)
                         in \<lparr>cv_Name = name, cv_Paused = qo_IsPaused ops (hn_queues h ! i),
                             cv_Min = lo, cv_Max = hi\<rparr>)
          (hn_queueByName h))"

text \<open>The panel and its token go only to a session.\<close>

definition liveControls ::
    "gotime \<Rightarrow> 'q queue_ops \<Rightarrow> http_request \<Rightarrow> 'q handler \<Rightarrow> (control_view list \<times> string) option" where
  "liveControls now ops r h =
     (if hn_controls h then map_option (\<lambda>token. (controlViews ops h, token)) (csrfFor now h r) else None)"

subsection \<open>Serving a route\<close>

record 'q web_env =
  we_ops :: "'q queue_ops"
  we_num_text :: "string \<Rightarrow> num_error \<Rightarrow> string"
  we_view :: "route \<Rightarrow> http_request \<Rightarrow> 'q handler \<Rightarrow> http_response"
  we_unrouted :: "http_request \<Rightarrow> http_response"

text \<open>The clock readings and the random bytes one request consumes.\<close>

record web_inputs =
  wi_gate :: gotime
  wi_t1 :: gotime
  wi_t2 :: gotime
  wi_t3 :: gotime
  wi_random :: "string option"

fun serve_route ::
    "'q web_env \<Rightarrow> web_inputs \<Rightarrow> route \<Rightarrow> http_request \<Rightarrow> 'q handler \<Rightarrow> 'q served" where
  "serve_route env i LoginForm r h = loginForm (wi_random i) r h"
| "serve_route env i LoginSubmit r h = loginSubmit (wi_t1 i) (wi_t2 i) (wi_random i) r h"
| "serve_route env i Logout r h = logout (wi_t1 i) r h"
| "serve_route env i Pause r h =
     Inr (control (wi_t1 i) (wi_t2 i) (wi_t3 i) ''pause'' (pause_action (we_ops env)) r h)"
| "serve_route env i Resume r h =
     Inr (control (wi_t1 i) (wi_t2 i) (wi_t3 i) ''resume'' (resume_action (we_ops env)) r h)"
| "serve_route env i Workers r h =
     Inr (control (wi_t1 i) (wi_t2 i) (wi_t3 i) ''workers'' (workers_action (we_num_text env) (we_ops env)) r h)"
| "serve_route env i rt r h = Inr (we_view env rt r h, h)"

definition serve :: "'q web_env \<Rightarrow> web_inputs \<Rightarrow> http_request \<Rightarrow> 'q handler \<Rightarrow> 'q served" where
  "serve env i r h = ServeHTTP (wi_gate i) (serve_route env i) (we_unrouted env r) r h"

inductive web_reach :: "'q web_env \<Rightarrow> 'q handler \<Rightarrow> 'q handler \<Rightarrow> bool" for env h0 where
  start: "web_reach env h0 h0"
| request: "web_reach env h0 h \<Longrightarrow> serve env i r h = Inr (rs, h') \<Longrightarrow> web_reach env h0 h'"

end
