(* ===== verification/Web_Status.thy ===== *)
theory Web_Status
  imports Store_Types
begin

text \<open>
  The status vocabulary of \<open>web/status.go\<close>: every state, the group that drives its badge, and
  what it means, and the filter options of \<open>web/handler.go\<close>.
\<close>

type_synonym StatusGroup = string

definition GroupWaiting :: StatusGroup where "GroupWaiting = ''waiting''"
definition GroupRunning :: StatusGroup where "GroupRunning = ''running''"
definition GroupDone :: StatusGroup where "GroupDone = ''done''"
definition GroupFailed :: StatusGroup where "GroupFailed = ''failed''"
definition GroupDropped :: StatusGroup where "GroupDropped = ''dropped''"
definition GroupShutdown :: StatusGroup where "GroupShutdown = ''shutdown''"

lemmas Group_defs =
  GroupWaiting_def GroupRunning_def GroupDone_def GroupFailed_def GroupDropped_def GroupShutdown_def

record StatusDoc =
  sd_State :: State
  sd_Group :: StatusGroup
  sd_Source :: string
  sd_Summary :: string

definition status_doc :: "State \<Rightarrow> StatusGroup \<Rightarrow> string \<Rightarrow> string \<Rightarrow> StatusDoc" where
  "status_doc st g src summary = \<lparr>sd_State = st, sd_Group = g, sd_Source = src, sd_Summary = summary\<rparr>"

definition statusDocs :: "StatusDoc list" where
  "statusDocs =
     [status_doc StateCreated GroupWaiting ''cq OnEnqueue''
        ''Accepted by the queue and waiting for a free worker.'',
      status_doc StatePending GroupWaiting ''cq''
        ''Waiting to run. Delayed submissions sit here until their timer fires.'',
      status_doc StateActive GroupRunning ''cq OnStart''
        ''A worker is running it now.'',
      status_doc StateCompleted GroupDone ''cq OnSuccess''
        ''Finished and returned no error.'',
      status_doc StateFailed GroupFailed ''cq OnFailure''
        ''Returned an error, after exhausting any retries it was wrapped with.'',
      status_doc StateCancelled GroupFailed ''cq OnFailure''
        ''Cancelled through its handle before or during execution.'',
      status_doc StateDiscarded GroupDropped ''cq OnDiscard''
        ''Deliberately dropped rather than failed... an expired or discarded outcome. Not retried.'',
      status_doc StateAbandoned GroupShutdown ''cq OnAbandon''
        ''Shutdown ended it before it ever started. Drained jobs are handed back to your code.'',
      status_doc StateInterrupted GroupShutdown ''this dashboard''
        ''The process died while this was in flight. Its real outcome was never recorded.'']"

definition StatusDocs :: "StatusDoc list" where
  "StatusDocs = statusDocs"

fun find_summary :: "State \<Rightarrow> StatusDoc list \<Rightarrow> string" where
  "find_summary state [] = state"
| "find_summary state (doc # docs) =
     (if sd_State doc = state then state @ '' ... '' @ sd_Summary doc else find_summary state docs)"

definition statusSummary :: "State \<Rightarrow> string" where
  "statusSummary state = find_summary state statusDocs"

fun find_group :: "State \<Rightarrow> StatusDoc list \<Rightarrow> string" where
  "find_group state [] = GroupWaiting"
| "find_group state (doc # docs) = (if sd_State doc = state then sd_Group doc else find_group state docs)"

definition statusGroup :: "State \<Rightarrow> string" where
  "statusGroup state = find_group state statusDocs"

definition allStates :: "State list" where
  "allStates =
     [StateCreated, StatePending, StateActive, StateCompleted, StateFailed, StateCancelled,
      StateDiscarded, StateAbandoned, StateInterrupted]"

lemma statusGroup_simps [simp]:
  "statusGroup StateCreated = GroupWaiting" "statusGroup StatePending = GroupWaiting"
  "statusGroup StateActive = GroupRunning" "statusGroup StateCompleted = GroupDone"
  "statusGroup StateFailed = GroupFailed" "statusGroup StateCancelled = GroupFailed"
  "statusGroup StateDiscarded = GroupDropped" "statusGroup StateAbandoned = GroupShutdown"
  "statusGroup StateInterrupted = GroupShutdown"
  by (simp_all add: statusGroup_def statusDocs_def status_doc_def State_defs)

text \<open>
  The vocabulary covers every state the store knows, each exactly once and in the order of
  the filter options.
\<close>

lemma statusDocs_complete: "map sd_State statusDocs = allStates \<and> distinct allStates"
  by (simp add: statusDocs_def status_doc_def allStates_def State_defs)

text \<open>The badge of a state tells a failure exactly when the store counts it as one.\<close>

lemma statusGroup_failure:
  "st \<in> set allStates \<Longrightarrow>
   st \<in> set FailureStates \<longleftrightarrow> statusGroup st \<in> {GroupFailed, GroupDropped, GroupShutdown}"
  unfolding allStates_def
  by (auto simp: FailureStates_def) (simp_all add: State_defs Group_defs)

lemma statusGroup_terminal:
  "st \<in> set allStates \<Longrightarrow> Terminal st \<longleftrightarrow> statusGroup st \<notin> {GroupWaiting, GroupRunning}"
  unfolding allStates_def by auto (simp_all add: Group_defs)

end
