(* ===== verification/Web_Views.thy ===== *)
theory Web_Views
  imports Web_Listing Web_Controls Web_Status
begin

text \<open>
  The read-only views of \<open>web/handler.go\<close> and \<open>web/json.go\<close>. A view is the data it hands to its
  template, or the error it answers with instead; a JSON view is its payload.

  What a view reads of the store is the record \<open>view_reads\<close>; what it reads live, of queues,
  schedulers and the sink, is the record \<open>live\<close>, with the fields of cq's types the code uses.
  The textual form of a time is the parameter \<open>fmt\<close>.
\<close>

subsection \<open>What the views read\<close>

record view_reads = store_reads +
  vr_Counts :: "string + Counts"
  vr_Job :: "string \<Rightarrow> string + (job \<times> attempt list)"
  vr_Lineage :: "string \<Rightarrow> string \<Rightarrow> string \<Rightarrow> string + job list"
  vr_GroupJobs :: "job_filter \<Rightarrow> int \<Rightarrow> string + group list"
  vr_Timeline :: "gotime \<Rightarrow> duration \<Rightarrow> string + bucket list"

record QueueStats =
  qs_Name :: string
  qs_Paused :: bool
  qs_Stopped :: bool
  qs_WorkersMin :: int
  qs_WorkersMax :: int
  qs_RunningWorkers :: int
  qs_IdleWorkers :: int
  qs_Capacity :: int
  qs_CreatedJobs :: int
  qs_PendingJobs :: int
  qs_ActiveJobs :: int
  qs_CompletedJobs :: int
  qs_FailedJobs :: int
  qs_DiscardedJobs :: int
  qs_CancelledJobs :: int
  qs_RescheduledJobs :: int
  qs_ReleasedJobs :: int

record Submission =
  sub_ID :: string
  sub_Name :: string
  sub_EnqueuedAt :: gotime
  sub_State :: string

record ScheduleInfo =
  sch_ID :: string
  sch_Kind :: string
  sch_Interval :: duration
  sch_RunAt :: gotime
  sch_NextFireAt :: gotime
  sch_Submissions :: nat
  sch_LastErr :: "string option"

record 'q live =
  lv_Stats :: "'q \<Rightarrow> QueueStats"
  lv_Submissions :: "'q \<Rightarrow> Submission list"
  lv_Describe :: "scheduler \<Rightarrow> ScheduleInfo list"
  lv_Epoch :: string
  lv_Dropped :: nat
  lv_Written :: nat
  lv_Pruned :: nat

subsection \<open>The chrome of a page\<close>

record page =
  pg_Title :: string
  pg_Nav :: string
  pg_FailureCount :: nat
  pg_Subject :: string
  pg_CSRF :: string

definition count_of :: "Counts \<Rightarrow> State \<Rightarrow> nat" where
  "count_of counts st = (case map_of counts st of None \<Rightarrow> 0 | Some n \<Rightarrow> n)"

definition failure_total :: "Counts \<Rightarrow> nat" where
  "failure_total counts = fold (\<lambda>st n. n + count_of counts st) FailureStates 0"

text \<open>\<open>counts\<close> is \<open>None\<close> for nil; then it is fetched, and a failure to fetch leaves it empty.\<close>

definition newPage ::
    "gotime \<Rightarrow> view_reads \<Rightarrow> 'q handler \<Rightarrow> http_request \<Rightarrow> string \<Rightarrow> string \<Rightarrow> Counts option \<Rightarrow> page" where
  "newPage now rd h r title nav counts =
     (let counts = (case counts of
                      Some c \<Rightarrow> c
                    | None \<Rightarrow> (case vr_Counts rd of Inr fetched \<Rightarrow> fetched | Inl _ \<Rightarrow> []));
          out = \<lparr>pg_Title = title, pg_Nav = nav, pg_FailureCount = failure_total counts,
                 pg_Subject = [], pg_CSRF = []\<rparr>
      in if hn_login h \<noteq> None
         then (case sessionFrom now h r of
                 None \<Rightarrow> out
               | Some found \<Rightarrow> out\<lparr>pg_Subject := se_Subject found,
                                  pg_CSRF := (case csrfFor now h r of None \<Rightarrow> [] | Some token \<Rightarrow> token)\<rparr>)
         else out)"

text \<open>The template runs into a buffer first; its output, or its error, is the parameter \<open>tmpl\<close>.\<close>

definition render :: "('d \<Rightarrow> string + string) \<Rightarrow> 'd \<Rightarrow> http_response" where
  "render tmpl data =
     (case tmpl data of
        Inl err \<Rightarrow> http_Error err 500
      | Inr html \<Rightarrow>
          \<lparr>rs_status = 200,
           rs_header = [(''Cache-Control'', ''no-store, private''), (''Content-Type'', ''text/html; charset=utf-8'')],
           rs_cookies = [], rs_body = TextBody html\<rparr>)"

text \<open>A view answers with an error of \<open>http.Error\<close>, or renders its data.\<close>

definition answer_view :: "('d \<Rightarrow> string + string) \<Rightarrow> (nat \<times> string) + 'd \<Rightarrow> http_response" where
  "answer_view tmpl v = (case v of Inl (status, msg) \<Rightarrow> http_Error msg status | Inr data \<Rightarrow> render tmpl data)"

subsection \<open>Live state\<close>

definition queueViews :: "'q live \<Rightarrow> 'q handler \<Rightarrow> QueueStats list" where
  "queueViews lv h = map (lv_Stats lv) (hn_queues h)"

record pendingView =
  pv_Queue :: string
  pv_Key :: string
  pv_State :: State
  pv_Submission :: Submission

definition pendingViews :: "'q live \<Rightarrow> 'q handler \<Rightarrow> pendingView list" where
  "pendingViews lv h =
     concat (map (\<lambda>queue. let name = qs_Name (lv_Stats lv queue)
                          in map (\<lambda>s. \<lparr>pv_Queue = name, pv_Key = KeyFor (lv_Epoch lv) name (sub_ID s),
                                       pv_State = sub_State s, pv_Submission = s\<rparr>)
                               (lv_Submissions lv queue)) (hn_queues h))"

definition scheduleViews :: "'q live \<Rightarrow> 'q handler \<Rightarrow> ScheduleInfo list" where
  "scheduleViews lv h = concat (map (lv_Describe lv) (hn_schedulers h))"

record controlsData =
  cd_Queues :: "control_view list"
  cd_CSRF :: string
  cd_Notice :: string
  cd_Error :: string

definition no_controls :: controlsData where
  "no_controls = \<lparr>cd_Queues = [], cd_CSRF = [], cd_Notice = [], cd_Error = []\<rparr>"

record railStat =
  rl_Label :: string
  rl_Value :: string
  rl_Sub :: string
  rl_Tone :: string
  rl_Href :: string

record timelineBar =
  tb_CompletedPct :: int
  tb_FailedPct :: int
  tb_Label :: string

record timelineView =
  tv_Bars :: "timelineBar list"
  tv_Completed :: nat
  tv_Failed :: nat
  tv_Window :: string
  tv_Peak :: nat

definition no_timeline :: timelineView where
  "no_timeline = \<lparr>tv_Bars = [], tv_Completed = 0, tv_Failed = 0, tv_Window = [], tv_Peak = 0\<rparr>"

record overviewData =
  ov_page :: "page option"
  ov_Queues :: "QueueStats list"
  ov_Pending :: "pendingView list"
  ov_Schedules :: "ScheduleInfo list"
  ov_Rail :: "railStat list"
  ov_Counts :: Counts
  ov_Dropped :: nat
  ov_Written :: nat
  ov_Pruned :: nat
  ov_Epoch :: string
  ov_Controls :: controlsData
  ov_Timeline :: timelineView

definition liveData ::
    "gotime \<Rightarrow> 'q queue_ops \<Rightarrow> 'q live \<Rightarrow> 'q handler \<Rightarrow> http_request \<Rightarrow> overviewData" where
  "liveData now ops lv h r =
     \<lparr>ov_page = None, ov_Queues = queueViews lv h, ov_Pending = pendingViews lv h,
      ov_Schedules = scheduleViews lv h, ov_Rail = [], ov_Counts = [], ov_Dropped = lv_Dropped lv,
      ov_Written = 0, ov_Pruned = 0, ov_Epoch = [],
      ov_Controls = (if hn_controls h
                     then (case csrfFor now h r of
                             Some token \<Rightarrow> no_controls\<lparr>cd_Queues := controlViews ops h, cd_CSRF := token\<rparr>
                           | None \<Rightarrow> no_controls)
                     else no_controls),
      ov_Timeline = no_timeline\<rparr>"

definition livePartial ::
    "gotime \<Rightarrow> 'q queue_ops \<Rightarrow> 'q live \<Rightarrow> (overviewData \<Rightarrow> string + string) \<Rightarrow> 'q handler \<Rightarrow> http_request \<Rightarrow>
     http_response" where
  "livePartial now ops lv tmpl h r = render tmpl (liveData now ops lv h r)"

subsection \<open>The overview\<close>

definition toneFor :: "int \<Rightarrow> string" where
  "toneFor count' = (if count' > 0 then ''bad'' else [])"

definition stat :: "string \<Rightarrow> string \<Rightarrow> string \<Rightarrow> string \<Rightarrow> string \<Rightarrow> railStat" where
  "stat label v sub tone href =
     \<lparr>rl_Label = label, rl_Value = v, rl_Sub = sub, rl_Tone = tone, rl_Href = href\<rparr>"

text \<open>The sums over the queues wrap around like any sum of Go \<open>int\<close>s.\<close>

definition sum_stats :: "(QueueStats \<Rightarrow> int) \<Rightarrow> QueueStats list \<Rightarrow> int" where
  "sum_stats f qs = fold (\<lambda>q n. int64 (n + f q)) qs 0"

definition rail :: "'q handler \<Rightarrow> QueueStats list \<Rightarrow> Counts \<Rightarrow> railStat list" where
  "rail h qs counts =
     (let running = sum_stats qs_RunningWorkers qs; idle = sum_stats qs_IdleWorkers qs;
          pending = sum_stats qs_PendingJobs qs; active = sum_stats qs_ActiveJobs qs;
          capacity = sum_stats qs_Capacity qs;
          paused = length (filter qs_Paused qs); stopped = length (filter qs_Stopped qs);
          failures = failure_total counts;
          (health, tone) = (if stopped > 0 then (''stopped'', ''bad'')
                            else if paused > 0 then (''paused'', ''bad'')
                            else (''all running'', ''ok''))
      in [stat ''Queues'' (Itoa (int (length qs))) health tone [],
          stat ''Workers'' (Itoa running) (Itoa idle @ '' idle'') [] [],
          stat ''Active'' (Itoa active) ''running now'' [] [],
          stat ''Pending'' (Itoa pending) (''of '' @ Itoa capacity @ '' buffer'') [] [],
          stat ''Completed'' (Itoa (int (count_of counts StateCompleted))) ''in history'' [] [],
          stat ''Failures'' (Itoa (int failures)) ''in history'' (toneFor (int failures))
            (hn_prefix h @ ''/failures'')])"

definition bar_total :: "bucket \<Rightarrow> nat" where
  "bar_total b = bkt_Completed b + bkt_Failed b"

text \<open>The first loop: totals and the tallest bucket.\<close>

definition timeline_sum :: "bucket \<Rightarrow> timelineView \<Rightarrow> timelineView" where
  "timeline_sum b view =
     view\<lparr>tv_Completed := tv_Completed view + bkt_Completed b, tv_Failed := tv_Failed view + bkt_Failed b,
          tv_Peak := (if bar_total b > tv_Peak view then bar_total b else tv_Peak view)\<rparr>"

definition timeline_bar :: "(gotime \<Rightarrow> string) \<Rightarrow> nat \<Rightarrow> bucket \<Rightarrow> timelineBar" where
  "timeline_bar clock peak b =
     \<lparr>tb_CompletedPct = int (bkt_Completed b) * 100 sdiv int peak,
      tb_FailedPct = int (bkt_Failed b) * 100 sdiv int peak,
      tb_Label = clock (bkt_Start b) @ '': '' @ Itoa (int (bkt_Completed b)) @ '' done, '' @
                 Itoa (int (bkt_Failed b)) @ '' failed''\<rparr>"

definition timeline :: "(gotime \<Rightarrow> string) \<Rightarrow> view_reads \<Rightarrow> gotime \<Rightarrow> timelineView" where
  "timeline clock rd now =
     (case vr_Timeline rd (time_Add now (- Hour)) Minute of
        Inl _ \<Rightarrow> no_timeline\<lparr>tv_Window := ''last hour''\<rparr>
      | Inr buckets \<Rightarrow>
          if length buckets = 0 then no_timeline\<lparr>tv_Window := ''last hour''\<rparr>
          else let view = fold timeline_sum buckets (no_timeline\<lparr>tv_Window := ''last hour''\<rparr>)
               in if tv_Peak view = 0 then view
                  else view\<lparr>tv_Bars := map (timeline_bar clock (tv_Peak view)) buckets\<rparr>)"

definition overview ::
    "(gotime \<Rightarrow> string) \<Rightarrow> gotime \<Rightarrow> 'q queue_ops \<Rightarrow> view_reads \<Rightarrow> 'q live \<Rightarrow> 'q handler \<Rightarrow> http_request \<Rightarrow>
     (nat \<times> string) + overviewData" where
  "overview clock now ops rd lv h r =
     (case vr_Counts rd of
        Inl err \<Rightarrow> Inl (500, err)
      | Inr counts \<Rightarrow>
          (let data = liveData now ops lv h r;
               rails = rail h (ov_Queues data) counts @
                 (if lv_Dropped lv > 0
                  then [stat ''Dropped'' (Itoa (int (lv_Dropped lv))) ''history has gaps'' ''bad''
                          (hn_prefix h @ ''/reference#boundaries'')] else []);
               controls = (if hn_controls h
                           then (ov_Controls data)\<lparr>cd_Notice := Query_Get r ''notice'', cd_Error := Query_Get r ''error''\<rparr>
                           else ov_Controls data)
           in Inr (data\<lparr>ov_page := Some (newPage now rd h r ''Overview'' ''overview'' (Some counts)),
                        ov_Counts := counts, ov_Written := lv_Written lv, ov_Pruned := lv_Pruned lv,
                        ov_Epoch := lv_Epoch lv, ov_Rail := rails, ov_Timeline := timeline clock rd now,
                        ov_Controls := controls\<rparr>)))"

subsection \<open>Job lists and failures\<close>

record jobsData =
  jd_page :: page
  jd_listing :: listing
  jd_States :: "State list"
  jd_State :: State

abbreviation reads_of :: "view_reads \<Rightarrow> store_reads" where
  "reads_of rd \<equiv> store_reads.truncate rd"

definition jobs_view ::
    "go_layouts \<Rightarrow> gotime \<Rightarrow> view_reads \<Rightarrow> 'q handler \<Rightarrow> http_request \<Rightarrow> (nat \<times> string) + jobsData" where
  "jobs_view lay now rd h r =
     (let filter' = filterFrom r
      in case list_page lay (reads_of rd) now h r filter' ''/jobs'' of
           Inl err \<Rightarrow> Inl (500, err)
         | Inr rows \<Rightarrow>
             Inr \<lparr>jd_page = newPage now rd h r ''Jobs'' ''jobs'' None, jd_listing = rows, jd_States = allStates,
                  jd_State = (if length (f_States filter') = 1 then hd (f_States filter') else [])\<rparr>)"

record failuresData =
  fd_page :: page
  fd_listing :: "listing option"
  fd_Filter :: job_filter
  fd_Groups :: "group list"
  fd_Counts :: "(State \<times> nat) list"
  fd_Overall :: nat
  fd_State :: State
  fd_Grouped :: bool

definition failures_filter :: "http_request \<Rightarrow> job_filter" where
  "failures_filter r =
     (let filter' = filterFrom r
      in if length (f_States filter') = 0 then filter'\<lparr>f_States := FailureStates\<rparr> else filter')"

definition failures_grouped :: "http_request \<Rightarrow> bool" where
  "failures_grouped r \<longleftrightarrow> f_Pattern (filterFrom r) = [] \<and> Query_Get r ''view'' \<noteq> ''list''"

text \<open>The rows shown: groups, or a page of the listing.\<close>

definition failure_rows ::
    "go_layouts \<Rightarrow> gotime \<Rightarrow> view_reads \<Rightarrow> 'q handler \<Rightarrow> http_request \<Rightarrow> string + (group list \<times> listing option)" where
  "failure_rows lay now rd h r =
     (if failures_grouped r
      then map_sum id (\<lambda>groups. (groups, None)) (vr_GroupJobs rd (failures_filter r) 50)
      else map_sum id (\<lambda>rows. ([], Some rows))
             (list_page lay (reads_of rd) now h r (failures_filter r) ''/failures''))"

definition failure_counts :: "Counts \<Rightarrow> (State \<times> nat) list" where
  "failure_counts counts =
     filter (\<lambda>(_, n). n > 0) (map (\<lambda>st. (st, count_of counts st)) FailureStates)"

definition failures_view ::
    "go_layouts \<Rightarrow> gotime \<Rightarrow> view_reads \<Rightarrow> 'q handler \<Rightarrow> http_request \<Rightarrow> (nat \<times> string) + failuresData" where
  "failures_view lay now rd h r =
     (case failure_rows lay now rd h r of
        Inl err \<Rightarrow> Inl (500, err)
      | Inr (groups, rows) \<Rightarrow>
          (case vr_Counts rd of
             Inl err \<Rightarrow> Inl (500, err)
           | Inr counts \<Rightarrow>
               Inr \<lparr>fd_page = newPage now rd h r ''Failures'' ''failures'' (Some counts),
                    fd_listing = rows,
                    fd_Filter = (case rows of Some l \<Rightarrow> li_Filter l | None \<Rightarrow> failures_filter r),
                    fd_Groups = groups,
                    fd_Counts = failure_counts counts,
                    fd_Overall = sum_list (map snd (failure_counts counts)),
                    fd_State = Query_Get r ''state'',
                    fd_Grouped = failures_grouped r\<rparr>))"

subsection \<open>One job\<close>

record jobData =
  jb_page :: page
  jb_Job :: job
  jb_Attempts :: "attempt list"
  jb_Lineage :: "job list"

definition job_view ::
    "gotime \<Rightarrow> view_reads \<Rightarrow> 'q handler \<Rightarrow> http_request \<Rightarrow> string \<Rightarrow> (nat \<times> string) + jobData" where
  "job_view now rd h r key =
     (case vr_Job rd key of
        Inl _ \<Rightarrow> Inl (404, ''job not found'')
      | Inr (j, attempts) \<Rightarrow>
          (case vr_Lineage rd (job_Epoch j) (job_Queue j) (job_RootID j) of
             Inl err \<Rightarrow> Inl (500, err)
           | Inr lineage \<Rightarrow>
               Inr \<lparr>jb_page = newPage now rd h r (''Job '' @ job_ID j) ''jobs'' None, jb_Job = j,
                    jb_Attempts = attempts, jb_Lineage = lineage\<rparr>))"

record referenceData =
  rf_page :: page
  rf_Statuses :: "StatusDoc list"
  rf_Controls :: bool

definition reference :: "gotime \<Rightarrow> view_reads \<Rightarrow> 'q handler \<Rightarrow> http_request \<Rightarrow> referenceData" where
  "reference now rd h r =
     \<lparr>rf_page = newPage now rd h r ''Reference'' ''reference'' None, rf_Statuses = StatusDocs,
      rf_Controls = hn_controls h\<rparr>"

end
