(* ===== verification/Web_Json.thy ===== *)
theory Web_Json
  imports Web_Views
begin

text \<open>
  The JSON endpoints of \<open>web/json.go\<close>: the wire types, the conversions and the three handlers.
  A reply carries its payload as a value of the wire type; a field that \<open>omitempty\<close> leaves
  out is \<open>None\<close> or empty. \<open>fmt\<close> renders a time in the layout \<open>timeFormat\<close>.
\<close>

definition apiVersion :: int where "apiVersion = 1"

record progressJSON =
  pj_Completed :: int
  pj_Total :: int
  pj_Stage :: string
  pj_At :: "string option"

record jobJSON =
  jj_Key :: string
  jj_ID :: string
  jj_Epoch :: string
  jj_Queue :: string
  jj_Name :: string
  jj_Pattern :: string
  jj_State :: string
  jj_Err :: string
  jj_RootID :: string
  jj_Parent :: string
  jj_Attributes :: "(string, string) gomap"
  jj_EnqueuedAt :: "string option"
  jj_StartedAt :: "string option"
  jj_FinishedAt :: "string option"
  jj_WaitUS :: int
  jj_ExecUS :: int
  jj_Attempt :: int
  jj_Progress :: "progressJSON option"

record attemptJSON =
  aj_Attempt :: int
  aj_State :: string
  aj_Err :: string
  aj_StartedAt :: "string option"
  aj_FinishedAt :: "string option"

record jobsResponse =
  js_APIVersion :: int
  js_Jobs :: "jobJSON list"
  js_Total :: int
  js_Page :: int
  js_Pages :: int
  js_PerPage :: int
  js_Before :: string

record jobResponse =
  jo_APIVersion :: int
  jo_Job :: jobJSON
  jo_Attempts :: "attemptJSON list"
  jo_Lineage :: "jobJSON list"

record queueJSON =
  qj_Name :: string
  qj_Paused :: bool
  qj_Stopped :: bool
  qj_WorkersMin :: int
  qj_WorkersMax :: int
  qj_WorkersRunning :: int
  qj_WorkersIdle :: int
  qj_Capacity :: int
  qj_Created :: int
  qj_Pending :: int
  qj_Active :: int
  qj_Completed :: int
  qj_Failed :: int
  qj_Discarded :: int
  qj_Cancelled :: int
  qj_Rescheduled :: int
  qj_Released :: int

record pendingJSON =
  nj_Queue :: string
  nj_Key :: string
  nj_ID :: string
  nj_Name :: string
  nj_State :: string
  nj_EnqueuedAt :: "string option"

record scheduleJSON =
  sj_ID :: string
  sj_Kind :: string
  sj_IntervalUS :: int
  sj_RunAt :: "string option"
  sj_NextFireAt :: "string option"
  sj_Submissions :: nat
  sj_LastErr :: string

record sinkJSON =
  kj_Dropped :: nat
  kj_Written :: nat
  kj_Pruned :: nat

record liveResponse =
  lr_APIVersion :: int
  lr_Epoch :: string
  lr_Queues :: "queueJSON list"
  lr_Pending :: "pendingJSON list"
  lr_Schedules :: "scheduleJSON list"
  lr_Counts :: Counts
  lr_Sink :: sinkJSON

text \<open>
  A JSON reply: an error body, or a payload with status 200, both marked as private and not
  to be stored. The payloads are records of strings, numbers and maps of strings, which
  \<open>json.Marshal\<close> always encodes.
\<close>

record 'p json_reply =
  jr_status :: nat
  jr_header :: "(string, string) gomap"
  jr_body :: "string + 'p"

definition json_header :: "(string, string) gomap" where
  "json_header =
     [(''Content-Type'', ''application/json; charset=utf-8''), (''Cache-Control'', ''no-store, private'')]"

definition writeJSON :: "nat \<Rightarrow> 'p \<Rightarrow> 'p json_reply" where
  "writeJSON status payload = \<lparr>jr_status = status, jr_header = json_header, jr_body = Inr payload\<rparr>"

definition failJSON :: "nat \<Rightarrow> string \<Rightarrow> 'p json_reply" where
  "failJSON status msg = \<lparr>jr_status = status, jr_header = json_header, jr_body = Inl msg\<rparr>"

subsection \<open>Conversions\<close>

definition jsonTime :: "(gotime \<Rightarrow> string) \<Rightarrow> gotime \<Rightarrow> string option" where
  "jsonTime fmt t = (if IsZero t then None else Some (fmt t))"

definition toJobJSON :: "(gotime \<Rightarrow> string) \<Rightarrow> job \<Rightarrow> jobJSON" where
  "toJobJSON fmt j =
     \<lparr>jj_Key = job_Key j, jj_ID = job_ID j, jj_Epoch = job_Epoch j, jj_Queue = job_Queue j,
      jj_Name = job_Name j, jj_Pattern = job_Pattern j, jj_State = job_State j, jj_Err = job_Err j,
      jj_RootID = job_RootID j, jj_Parent = job_Parent j, jj_Attributes = job_Attributes j,
      jj_EnqueuedAt = jsonTime fmt (job_EnqueuedAt j), jj_StartedAt = jsonTime fmt (job_StartedAt j),
      jj_FinishedAt = jsonTime fmt (job_FinishedAt j), jj_WaitUS = job_WaitUS j, jj_ExecUS = job_ExecUS j,
      jj_Attempt = job_Attempt j,
      jj_Progress = (if \<not> IsZero (job_ProgressAt j)
                     then Some \<lparr>pj_Completed = job_ProgressCompleted j, pj_Total = job_ProgressTotal j,
                                pj_Stage = job_ProgressStage j, pj_At = jsonTime fmt (job_ProgressAt j)\<rparr>
                     else None)\<rparr>"

definition toAttemptJSON :: "(gotime \<Rightarrow> string) \<Rightarrow> attempt \<Rightarrow> attemptJSON" where
  "toAttemptJSON fmt a =
     \<lparr>aj_Attempt = att_Attempt a, aj_State = att_State a, aj_Err = att_Err a,
      aj_StartedAt = jsonTime fmt (att_StartedAt a), aj_FinishedAt = jsonTime fmt (att_FinishedAt a)\<rparr>"

definition toQueueJSON :: "QueueStats \<Rightarrow> queueJSON" where
  "toQueueJSON s =
     \<lparr>qj_Name = qs_Name s, qj_Paused = qs_Paused s, qj_Stopped = qs_Stopped s,
      qj_WorkersMin = qs_WorkersMin s, qj_WorkersMax = qs_WorkersMax s,
      qj_WorkersRunning = qs_RunningWorkers s, qj_WorkersIdle = qs_IdleWorkers s,
      qj_Capacity = qs_Capacity s, qj_Created = qs_CreatedJobs s, qj_Pending = qs_PendingJobs s,
      qj_Active = qs_ActiveJobs s, qj_Completed = qs_CompletedJobs s, qj_Failed = qs_FailedJobs s,
      qj_Discarded = qs_DiscardedJobs s, qj_Cancelled = qs_CancelledJobs s,
      qj_Rescheduled = qs_RescheduledJobs s, qj_Released = qs_ReleasedJobs s\<rparr>"

definition toPendingJSON :: "(gotime \<Rightarrow> string) \<Rightarrow> pendingView \<Rightarrow> pendingJSON" where
  "toPendingJSON fmt p =
     \<lparr>nj_Queue = pv_Queue p, nj_Key = pv_Key p, nj_ID = sub_ID (pv_Submission p),
      nj_Name = sub_Name (pv_Submission p), nj_State = pv_State p,
      nj_EnqueuedAt = jsonTime fmt (sub_EnqueuedAt (pv_Submission p))\<rparr>"

definition toScheduleJSON :: "(gotime \<Rightarrow> string) \<Rightarrow> ScheduleInfo \<Rightarrow> scheduleJSON" where
  "toScheduleJSON fmt i =
     \<lparr>sj_ID = sch_ID i, sj_Kind = sch_Kind i, sj_IntervalUS = Microseconds (sch_Interval i),
      sj_RunAt = jsonTime fmt (sch_RunAt i), sj_NextFireAt = jsonTime fmt (sch_NextFireAt i),
      sj_Submissions = sch_Submissions i,
      sj_LastErr = (case sch_LastErr i of None \<Rightarrow> [] | Some err \<Rightarrow> err)\<rparr>"

subsection \<open>Handlers\<close>

text \<open>Unlike the HTML pager, the first page is frozen too, at the clock reading \<open>now\<close>.\<close>

definition jobsJSON ::
    "(gotime \<Rightarrow> string) \<Rightarrow> go_layouts \<Rightarrow> gotime \<Rightarrow> gotime \<Rightarrow> view_reads \<Rightarrow> 'q handler \<Rightarrow> http_request \<Rightarrow>
     jobsResponse json_reply" where
  "jobsJSON fmt lay now now' rd h r =
     (let filter' = filterFrom r;
          filter' = (if IsZero (f_Before filter') then filter'\<lparr>f_Before := now\<rparr> else filter')
      in case list_page lay (reads_of rd) now' h r filter' ''/jobs.json'' of
           Inl err \<Rightarrow> failJSON 500 err
         | Inr rows \<Rightarrow>
             writeJSON 200
               \<lparr>js_APIVersion = apiVersion, js_Jobs = map (toJobJSON fmt) (li_Jobs rows),
                js_Total = li_Total rows, js_Page = li_Page rows, js_Pages = li_Pages rows,
                js_PerPage = perPage,
                js_Before = (case jsonTime fmt (f_Before (li_Filter rows)) of None \<Rightarrow> [] | Some before \<Rightarrow> before)\<rparr>)"

definition jobJSONByKey ::
    "(gotime \<Rightarrow> string) \<Rightarrow> view_reads \<Rightarrow> string \<Rightarrow> jobResponse json_reply" where
  "jobJSONByKey fmt rd key =
     (case vr_Job rd key of
        Inl _ \<Rightarrow> failJSON 404 ''job not found''
      | Inr (j, attempts) \<Rightarrow>
          (let root = (if job_RootID j = [] then job_ID j else job_RootID j);
               lineage = (case vr_Lineage rd (job_Epoch j) (job_Queue j) root of
                            Inr hops \<Rightarrow> if length hops > 1 then map (toJobJSON fmt) hops else []
                          | Inl _ \<Rightarrow> [])
           in writeJSON 200
                \<lparr>jo_APIVersion = apiVersion, jo_Job = toJobJSON fmt j,
                 jo_Attempts = map (toAttemptJSON fmt) attempts, jo_Lineage = lineage\<rparr>))"

definition liveJSON ::
    "(gotime \<Rightarrow> string) \<Rightarrow> view_reads \<Rightarrow> 'q live \<Rightarrow> 'q handler \<Rightarrow> liveResponse json_reply" where
  "liveJSON fmt rd lv h =
     (case vr_Counts rd of
        Inl err \<Rightarrow> failJSON 500 err
      | Inr counts \<Rightarrow>
          writeJSON 200
            \<lparr>lr_APIVersion = apiVersion, lr_Epoch = lv_Epoch lv,
             lr_Queues = map toQueueJSON (queueViews lv h),
             lr_Pending = map (toPendingJSON fmt) (pendingViews lv h),
             lr_Schedules = map (toScheduleJSON fmt) (scheduleViews lv h),
             lr_Counts = counts,
             lr_Sink = \<lparr>kj_Dropped = lv_Dropped lv, kj_Written = lv_Written lv, kj_Pruned = lv_Pruned lv\<rparr>\<rparr>)"

text \<open>The handler of \<open>GET /jobs/{key}\<close>: a \<open>.json\<close> suffix asks for the JSON form.\<close>

definition job_route ::
    "(gotime \<Rightarrow> string) \<Rightarrow> gotime \<Rightarrow> view_reads \<Rightarrow> 'q handler \<Rightarrow> http_request \<Rightarrow> string \<Rightarrow>
     ((nat \<times> string) + jobData) + jobResponse json_reply" where
  "job_route fmt now rd h r key =
     (if hn_json h \<and> HasSuffix key ''.json''
      then Inr (jobJSONByKey fmt rd (TrimSuffix key ''.json''))
      else Inl (job_view now rd h r key))"

end
