(* ===== verification/Web_Listing_Laws.thy ===== *)
theory Web_Listing_Laws
  imports Web_Listing
begin

text \<open>
  Paging: the pages of a listing partition what matches, even while new jobs arrive, and a
  pager link carries every active filter. The paging arithmetic is proved against the
  contract of a store's queries (\<open>listing_reads\<close>) and instantiated for the in-memory store.
\<close>

subsection \<open>The contract of the queries behind a page\<close>

locale listing_reads =
  fixes rd :: store_reads
    and hits :: "job_filter \<Rightarrow> job list"
  assumes count: "sr_CountJobs rd f = Inr (length (hits f))"
    and window: "0 < f_Limit f \<Longrightarrow> f_Limit f \<le> 500 \<Longrightarrow> 0 \<le> f_Offset f \<Longrightarrow>
      sr_Jobs rd f = Inr (take (nat (f_Limit f)) (drop (nat (f_Offset f)) (hits f)))"
    and paging_free: "hits (f\<lparr>f_Limit := a, f_Offset := b\<rparr>) = hits f"
    and attribute_keys: "\<exists>ks. sr_AttributeKeys rd n = Inr ks"
begin

definition page_count :: "job_filter \<Rightarrow> int" where
  "page_count f = max 1 ((int (length (hits f)) + 49) div 50)"

lemma hits_offset: "hits (f\<lparr>f_Offset := b\<rparr>) = hits f"
  using paging_free [where f = f and a = "f_Limit f" and b = b] by simp

lemma page_count_covers: "int (length (hits f)) \<le> page_count f * 50"
  by (simp add: page_count_def max_def) linarith

text \<open>
  A page never fails, its number is the requested one brought into range, and it shows the
  corresponding window. The offset cannot be negative even when the requested page number is
  so large that the first computation of the offset wraps around.
\<close>

lemma list_page_window:
  fixes lay now h r f path
  defines "g \<equiv> f\<lparr>f_Before := frozen_before lay now r (requested_page r) (f_Before f)\<rparr>"
  defines "p \<equiv> min (requested_page r) (page_count g)"
  assumes small: "page_count g \<le> 100000000000000000"
  shows "\<exists>l. list_page lay rd now h r f path = Inr l \<and> li_Page l = p \<and> li_Pages l = page_count g \<and>
    li_Total l = int (length (hits g)) \<and> 1 \<le> p \<and>
    li_Jobs l = take 50 (drop (nat ((p - 1) * 50)) (hits g)) \<and>
    li_Filter l = g\<lparr>f_Limit := 50, f_Offset := (p - 1) * 50\<rparr>"
proof -
  define q where "q = requested_page r"
  have q1: "1 \<le> q"
    by (simp add: q_def requested_page_def Let_def split: sum.split)
  define g1 where "g1 = f\<lparr>f_Limit := perPage, f_Offset := int64 ((q - 1) * perPage),
    f_Before := frozen_before lay now r q (f_Before f)\<rparr>"
  have g1: "g1 = g\<lparr>f_Limit := 50, f_Offset := int64 ((q - 1) * 50)\<rparr>"
    by (simp add: g1_def g_def q_def perPage_def)
  have h1: "hits g1 = hits g" by (simp add: g1 paging_free)
  let ?n = "int (length (hits g))"
  have pc: "(let pages = (?n + perPage - 1) sdiv perPage in if pages = 0 then 1 else pages) = page_count g"
    by (auto simp: page_count_def perPage_def sdiv_nonneg Let_def max_def)
  define g2 where "g2 = (if q > page_count g then g1\<lparr>f_Offset := (page_count g - 1) * perPage\<rparr> else g1)"
  have pcp: "1 \<le> page_count g" by (simp add: page_count_def)
  have p: "p = min q (page_count g)" and p1: "1 \<le> p" using q1 pcp by (simp_all add: p_def q_def)
  have "int64 ((q - 1) * 50) = (q - 1) * 50" if "q \<le> page_count g"
    using that q1 small by (intro int64_id) simp_all
  then have g2: "g2 = g\<lparr>f_Limit := 50, f_Offset := (p - 1) * 50\<rparr>"
    by (auto simp: g2_def g1 p perPage_def)
  have jobs: "sr_Jobs rd g2 = Inr (take 50 (drop (nat ((p - 1) * 50)) (hits g)))"
    using p1 by (simp add: g2 window paging_free)
  obtain ks where ks: "sr_AttributeKeys rd 12 = Inr ks" using attribute_keys by blast
  show ?thesis
    unfolding list_page_def q_def [symmetric] Let_def g1_def [symmetric]
    using pc jobs p p1
    by (simp add: count h1 ks Let_def g2_def [symmetric] g2 cong: if_cong)
qed

end

subsection \<open>The in-memory store behind a page\<close>

definition mem_error_text :: "mem_error \<Rightarrow> string" where
  "mem_error_text e =
     (case e of
        ErrNotFound \<Rightarrow> ''memory: job not found''
      | ErrBucketLimit \<Rightarrow> ''memory: timeline range exceeds the bucket limit''
      | MemPanic p \<Rightarrow> ''panic'')"

definition mem_reads :: "go_unicode \<Rightarrow> mem_store \<Rightarrow> store_reads" where
  "mem_reads uc s =
     \<lparr>sr_CountJobs = (\<lambda>f. Inr (mem_CountJobs uc s f)),
      sr_Jobs = (\<lambda>f. case mem_Jobs uc s f of Inl e \<Rightarrow> Inl (mem_error_text e) | Inr js \<Rightarrow> Inr js),
      sr_AttributeKeys = (\<lambda>n. Inr (mem_AttributeKeys s n))\<rparr>"

abbreviation mem_hits :: "go_unicode \<Rightarrow> mem_store \<Rightarrow> job_filter \<Rightarrow> job list" where
  "mem_hits uc s f \<equiv> sort_slice job_newer (matching uc s f)"

lemma matching_paging_free: "matching uc s (f\<lparr>f_Limit := a, f_Offset := b\<rparr>) = matching uc s f"
proof -
  have "matchesAttribute j (f\<lparr>f_Limit := a, f_Offset := b\<rparr>) = matchesAttribute j f" for j
    by (simp add: matchesAttribute_def split: option.split)
  then have "job_matches uc (f\<lparr>f_Limit := a, f_Offset := b\<rparr>) ts = job_matches uc f ts" for ts
    by (simp add: job_matches_def fun_eq_iff)
  then show ?thesis by (simp add: matching_def Let_def)
qed

interpretation mem_pages: listing_reads "mem_reads uc s" "mem_hits uc s" for uc s
proof
  show "sr_CountJobs (mem_reads uc s) f = Inr (length (mem_hits uc s f))" for f
    by (simp add: mem_reads_def mem_CountJobs_def)
  show "sr_Jobs (mem_reads uc s) f = Inr (take (nat (f_Limit f)) (drop (nat (f_Offset f)) (mem_hits uc s f)))"
    if "0 < f_Limit f" "f_Limit f \<le> 500" "0 \<le> f_Offset f" for f
    using that by (simp add: mem_reads_def mem_Jobs_window clamp_limit_def)
  show "mem_hits uc s (f\<lparr>f_Limit := a, f_Offset := b\<rparr>) = mem_hits uc s f" for f a b
    by (simp add: matching_paging_free)
  show "\<exists>ks. sr_AttributeKeys (mem_reads uc s) n = Inr ks" for n
    by (simp add: mem_reads_def)
qed

subsection \<open>Pages partition the listing\<close>

definition page_request :: "http_request \<Rightarrow> nat \<Rightarrow> http_request" where
  "page_request r i = r\<lparr>rq_query := values_Set ''page'' (Itoa (int i + 1)) (rq_query r)\<rparr>"

lemma Query_page_request:
  "Query_Get (page_request r i) k = (if k = ''page'' then Itoa (int i + 1) else Query_Get r k)"
  by (simp add: Query_Get_def page_request_def)

lemma requested_page_request:
  "int i < maxInt64 \<Longrightarrow> requested_page (page_request r i) = int i + 1"
  by (auto simp: requested_page_def Query_page_request Let_def ParseInt_FormatInt)

lemma frozen_page_request:
  assumes "Query_Get r ''before'' = FormatInt micros" "minInt64 \<le> micros" "micros \<le> maxInt64"
  shows "frozen_before lay now (page_request r i) page before = time_UnixMicro micros"
  using assms by (simp add: frozen_before_def Query_page_request Let_def ParseInt_FormatInt)

lemma concat_windows:
  "concat (map (\<lambda>i. take 50 (drop (i * 50) xs)) [0..<n]) = take (n * 50) xs"
proof (induction n)
  case (Suc n)
  have "take (Suc n * 50) xs = take (n * 50) xs @ take 50 (drop (n * 50) xs)"
    by (metis add.commute mult_Suc take_add)
  with Suc show ?case by simp
qed simp

text \<open>One page of a listing frozen at \<open>micros\<close> is one slice of fifty.\<close>

context listing_reads
begin

lemma page_slice:
  fixes micros r f lay now h path i
  defines "g \<equiv> f\<lparr>f_Before := time_UnixMicro micros\<rparr>"
  assumes before: "Query_Get r ''before'' = FormatInt micros" "minInt64 \<le> micros" "micros \<le> maxInt64"
    and small: "length (hits g) \<le> 4000000000000000000" and i: "i < (length (hits g) + 49) div 50"
  shows "li_Jobs (projr (list_page lay rd now h (page_request r i) f path)) = take 50 (drop (i * 50) (hits g))"
proof -
  let ?n = "(length (hits g) + 49) div 50"
  have pc: "page_count g = max 1 (int ?n)" unfolding page_count_def by (simp add: zdiv_int)
  have nsmall: "int ?n \<le> 90000000000000000" using small by simp
  have rq: "requested_page (page_request r i) = int i + 1"
    using i nsmall by (intro requested_page_request) simp
  have m: "min (int i + 1) (max 1 (int ?n)) = int i + 1" using i by simp
  obtain l where "list_page lay rd now h (page_request r i) f path = Inr l"
      "li_Jobs l = take 50 (drop (nat ((int i + 1 - 1) * 50)) (hits g))"
    using list_page_window [where f = f and lay = lay and now = now and r = "page_request r i"
        and h = h and path = path] i nsmall
    unfolding frozen_page_request [OF before] g_def [symmetric] pc rq m by auto
  then show ?thesis by (simp add: nat_mult_distrib)
qed

end

lemma concat_pages:
  assumes "\<And>i. i < n \<Longrightarrow> page i = take 50 (drop (i * 50) xs)" "n = (length xs + 49) div 50"
  shows "concat (map page [0..<n]) = xs"
proof -
  have "concat (map page [0..<n]) = concat (map (\<lambda>i. take 50 (drop (i * 50) xs)) [0..<n])"
    by (intro arg_cong [where f = concat] map_cong) (simp_all add: assms(1))
  also have "\<dots> = xs" unfolding concat_windows by (simp add: assms(2))
  finally show ?thesis .
qed

text \<open>Rows enqueued after the window cannot be seen through it.\<close>

definition rows_upto :: "gotime \<Rightarrow> mem_store \<Rightarrow> job multiset" where
  "rows_upto t s = mset (filter (\<lambda>j. job_EnqueuedAt j \<le> t) (map snd (ms_jobs s)))"

lemma frozen_matching:
  assumes "f_Before f \<noteq> zeroTime" "rows_upto (f_Before f) s' = rows_upto (f_Before f) s"
  shows "mset (matching uc s' f) = mset (matching uc s f)"
proof -
  let ?P = "job_matches uc f (Fields uc (ToLower uc (f_Search f)))"
  have "?P j \<Longrightarrow> job_EnqueuedAt j \<le> f_Before f" for j
    using assms(1) by (auto simp: job_matches_def IsZero_def After_def split: if_splits)
  then have eq: "filter ?P js = filter ?P (filter (\<lambda>j. job_EnqueuedAt j \<le> f_Before f) js)" for js
    by (auto intro: filter_cong)
  have "mset (matching uc t f) = filter_mset ?P (rows_upto (f_Before f) t)" for t
    unfolding matching_def Let_def rows_upto_def by (subst eq) (simp only: mset_filter)
  then show ?thesis using assms(2) by simp
qed

lemma frozen_hits:
  assumes "mem_inv s" "f_Before f \<noteq> zeroTime" "rows_upto (f_Before f) s' = rows_upto (f_Before f) s"
  shows "mem_hits uc s' f = mem_hits uc s f"
  using newer.sort_slice_perm [OF frozen_matching [OF assms(2,3), symmetric] newer_total [OF distinct_matching [OF assms(1)]]]
  by simp

text \<open>
  C26. Paging a frozen window shows every matching job exactly once. Follow the pages of a
  listing from the first to the last with the same \<open>before\<close>: even when each page is read from
  a different state of the store, as long as the rows enqueued within the window are the same
  in all of them, the pages put together are the matching jobs of the window, newest first,
  each one once, and every page but the last is full.
\<close>

theorem pages_partition_window:
  fixes micros r f uc s st lay now h path
  defines "g \<equiv> f\<lparr>f_Before := time_UnixMicro micros\<rparr>"
  defines "n \<equiv> (length (mem_hits uc s g) + 49) div 50"
  assumes "mem_inv s" "Query_Get r ''before'' = FormatInt micros"
    and "minInt64 \<le> micros" "micros \<le> maxInt64" "time_UnixMicro micros \<noteq> zeroTime"
    and "length (mem_hits uc s g) \<le> 4000000000000000000"
    and "\<And>i. rows_upto (time_UnixMicro micros) (st i) = rows_upto (time_UnixMicro micros) s"
  shows "concat (map (\<lambda>i. li_Jobs (projr (list_page lay (mem_reads uc (st i)) (now i) h (page_request r i) f path)))
           [0..<n]) = mem_hits uc s g \<and> distinct (map job_Key (mem_hits uc s g))"
proof -
  let ?xs = "mem_hits uc s g"
  have same: "mem_hits uc (st i) g = ?xs" for i
    using frozen_hits [OF assms(3), of g "st i" uc] assms(7,9) by (simp add: g_def)
  have "li_Jobs (projr (list_page lay (mem_reads uc (st i)) (now i) h (page_request r i) f path)) =
      take 50 (drop (i * 50) ?xs)" if "i < n" for i
    using mem_pages.page_slice [OF assms(4-6), of uc "st i" f i] assms(8) that
    unfolding g_def [symmetric] same n_def by blast
  from concat_pages [OF this n_def [THEN meta_eq_to_obj_eq]] show ?thesis
    using distinct_map_sort_slice [of job_Key job_newer "matching uc s g"] distinct_matching [OF assms(3), of uc g]
    by simp
qed

definition demo_layouts :: go_layouts where
  "demo_layouts = \<lparr>gl_parse_micro = (\<lambda>_. None), gl_parse_nano = (\<lambda>_. None)\<rparr>"

definition demo_unicode :: go_unicode where
  "demo_unicode = \<lparr>uc_lower = id, uc_fields = (\<lambda>_. [])\<rparr>"

definition demo_page :: http_request where
  "demo_page =
     \<lparr>rq_method = ''GET'', rq_path = ''/jobs'', rq_rawpath = [],
      rq_query = [(''before'', [''5''])], rq_body = [], rq_header = [], rq_cookies = [],
      rq_remote = ''10.0.0.1:99'', rq_tls = False\<rparr>"

definition demo_rows :: mem_store where
  "demo_rows = mem_UpsertJobs mem_Open [zero_job\<lparr>job_ID := ''1''\<rparr>, zero_job\<lparr>job_ID := ''2''\<rparr>]"

lemma FormatInt_5: "FormatInt 5 = ''5''"
  by code_simp

text \<open>A job that arrives after the window, on the second page read, is not seen.\<close>

theorem pages_partition_window_witness:
  "concat (map (\<lambda>i. li_Jobs (projr (list_page demo_layouts
       (mem_reads demo_unicode (if i = 0 then demo_rows
          else mem_UpsertJobs demo_rows [zero_job\<lparr>job_ID := ''3'', job_EnqueuedAt := 6000\<rparr>]))
       0 (blank_handler [] :: bool handler) (page_request demo_page i) zero_filter ''/jobs'')))
     [0..<(length (mem_hits demo_unicode demo_rows (zero_filter\<lparr>f_Before := 5000\<rparr>)) + 49) div 50]) =
   mem_hits demo_unicode demo_rows (zero_filter\<lparr>f_Before := 5000\<rparr>)"
proof -
  have inv: "mem_inv demo_rows" unfolding demo_rows_def by (intro store_inv)
  have q: "Query_Get demo_page ''before'' = FormatInt 5"
    by (simp add: demo_page_def Query_Get_def values_Get_def values_all_def FormatInt_5)
  have rows: "rows_upto (time_UnixMicro 5)
      (if i = (0::nat) then demo_rows
       else mem_UpsertJobs demo_rows [zero_job\<lparr>job_ID := ''3'', job_EnqueuedAt := 6000\<rparr>]) =
    rows_upto (time_UnixMicro 5) demo_rows" for i
    by (simp add: rows_upto_def demo_rows_def mem_UpsertJobs_def mem_Open_def upsert_job_def record_key_def
        KeyFor_def zero_job_def Let_def time_UnixMicro_def stamped_def zeroTime_def)
  have small: "length (mem_hits demo_unicode demo_rows f) \<le> 4000000000000000000" for f
  proof -
    have "length (mem_hits demo_unicode demo_rows f) \<le> length (ms_jobs demo_rows)"
      unfolding length_sort_slice matching_def Let_def
      using length_filter_le [of _ "map snd (ms_jobs demo_rows)"] by simp
    also have "\<dots> = 2"
      by (simp add: demo_rows_def mem_UpsertJobs_def mem_Open_def upsert_job_def record_key_def KeyFor_def
          zero_job_def Let_def)
    finally show ?thesis by simp
  qed
  show ?thesis
    using pages_partition_window [where s = demo_rows and r = demo_page and micros = 5 and f = zero_filter
        and uc = demo_unicode and lay = demo_layouts and now = "\<lambda>_. 0" and h = "blank_handler [] :: bool handler"
        and path = "''/jobs''", OF inv q _ _ _ small rows]
    by (simp add: time_UnixMicro_def zeroTime_def)
qed

subsection \<open>Pager links\<close>

lemma upper_hex_digit: "n < 16 \<Longrightarrow> is_hex_digit (upper_hex n) \<and> unhex (upper_hex n) = n"
  by (auto simp: upper_hex_def is_hex_digit_def unhex_def byte_chr)

lemma QueryUnescape_QueryEscape: "QueryUnescape (QueryEscape s) = Some s"
proof (induction s)
  case (Cons c s)
  have hex: "is_hex_digit (upper_hex (byte c div 16))" "is_hex_digit (upper_hex (byte c mod 16))"
      "unhex (upper_hex (byte c div 16)) * 16 + unhex (upper_hex (byte c mod 16)) = byte c"
    using byte_less [of c] by (simp_all add: upper_hex_digit less_mult_imp_div_less)
  show ?case
  proof (cases "c = CHR '' '' \<or> unreserved c")
    case True
    moreover have "unreserved c \<Longrightarrow> c \<noteq> CHR ''%'' \<and> c \<noteq> CHR ''+''"
      by (auto simp: unreserved_def byte_def)
    ultimately show ?thesis using Cons by auto
  next
    case False
    with Cons hex show ?thesis by simp
  qed
qed simp

lemma QueryEscape_no: "c \<in> {CHR ''='', CHR ''&'', CHR '';''} \<Longrightarrow> c \<notin> set (QueryEscape s)"
  using QueryEscape_chars [of c s] by (auto simp: unreserved_def byte_def)

lemma cut_sep:
  "sep \<notin> set a \<Longrightarrow> cut_before sep (a @ sep # b) = a \<and> cut_after sep (a @ sep # b) = b"
  by (induction a) (auto simp: cut_before_def cut_after_def)

lemma decode_encode_pair: "decode_pair (encode_pair kv) = Some kv"
  using cut_sep [of "CHR ''=''" "QueryEscape (fst kv)" "QueryEscape (snd kv)"] QueryEscape_no
  by (simp add: decode_pair_def encode_pair_def QueryUnescape_QueryEscape)

lemma Split_join:
  "ps \<noteq> [] \<Longrightarrow> \<forall>p \<in> set ps. sep \<notin> set p \<Longrightarrow> Split (join_with sep ps) sep = ps"
  by (induction sep ps rule: join_with.induct) (simp_all add: Split_no_sep Split_append)

definition add_pair :: "string \<times> string \<Rightarrow> url_values \<Rightarrow> url_values" where
  "add_pair kv m = AList.update (fst kv) (values_all m (fst kv) @ [snd kv]) m"

lemma parse_query_pairs:
  "parse_query (join_with (CHR ''&'') (map encode_pair kvs)) = fold add_pair kvs []"
proof (cases kvs)
  case Nil
  then show ?thesis by (simp add: parse_query_def decode_pair_def)
next
  case (Cons kv rest)
  have "\<forall>p \<in> set (map encode_pair kvs). CHR ''&'' \<notin> set p"
    using QueryEscape_no by (auto simp: encode_pair_def)
  then have "Split (join_with (CHR ''&'') (map encode_pair kvs)) (CHR ''&'') = map encode_pair kvs"
    using Cons by (intro Split_join) simp_all
  then have "parse_query (join_with (CHR ''&'') (map encode_pair kvs)) =
      fold (\<lambda>kv m. case decode_pair (encode_pair kv) of None \<Rightarrow> m
                   | Some (k, v) \<Rightarrow> AList.update k (values_all m k @ [v]) m) kvs []"
    by (simp add: parse_query_def fold_map comp_def)
  also have "\<dots> = fold add_pair kvs []"
    by (rule arg_cong [where f = "\<lambda>g. fold g kvs []"])
      (simp add: decode_encode_pair add_pair_def fun_eq_iff split: prod.split)
  finally show ?thesis .
qed

lemma values_all_fold:
  "values_all (fold add_pair kvs m) k = values_all m k @ map snd (filter (\<lambda>kv. fst kv = k) kvs)"
proof (induction kvs arbitrary: m)
  case (Cons kv kvs)
  have "values_all (add_pair kv m) k = values_all m k @ (if fst kv = k then [snd kv] else [])"
    by (simp add: add_pair_def values_all_def)
  with Cons show ?case by simp
qed simp

lemma values_all_pairs:
  "wf_map m \<Longrightarrow> map snd (filter (\<lambda>kv. fst kv = k) (value_pairs m)) = values_all m k"
proof (induction m)
  case (Cons e m)
  obtain k' vs where e: "e = (k', vs)" by (cases e)
  have pick: "filter (\<lambda>kv. fst kv = k) (map (Pair k') vs) = (if k' = k then map (Pair k') vs else [])"
    by (auto simp: filter_map comp_def)
  show ?case
  proof (cases "k' = k")
    case True
    then have "map_of m k = None" using Cons.prems e by (simp add: map_of_eq_None_iff)
    with Cons e True pick show ?thesis by (simp add: value_pairs_def values_all_def comp_def)
  next
    case False
    with Cons e pick show ?thesis by (simp add: value_pairs_def values_all_def)
  qed
qed (simp add: value_pairs_def values_all_def)

lemma values_roundtrip:
  assumes "wf_map m"
  shows "values_all (parse_query (values_Encode m)) k = values_all m k"
proof -
  let ?m = "sort_slice key_before m"
  have perm: "mset ?m = mset m" by simp
  have wf: "wf_map ?m" using assms by (simp add: distinct_map_sort_slice)
  have "map_of ?m = map_of m" using wf_map_perm [OF wf assms] perm by blast
  then have "values_all ?m k = values_all m k" by (simp add: values_all_def)
  then show ?thesis
    by (simp add: values_Encode_def parse_query_pairs values_all_fold values_all_pairs [OF wf] values_all_def [of "[]"])
qed

lemma set_if_simps:
  "wf_map m \<Longrightarrow> wf_map (set_if b k v m)"
  "values_Get (set_if b k v m) k' = (if b \<and> k' = k then v else values_Get m k')"
  by (simp_all add: set_if_def values_Set_def) (simp add: values_Get_def values_all_def)

lemma wf_filterQuery: "wf_map (filterQuery f)"
  by (simp add: filterQuery_def set_if_simps)

lemma wf_page_values: "wf_map (li_Query l) \<Longrightarrow> wf_map (page_values now l p)"
  by (simp add: page_values_def values_Set_def)

lemma values_Get_filterQuery:
  "values_Get (filterQuery f) ''queue'' = f_Queue f"
  "values_Get (filterQuery f) ''pattern'' = f_Pattern f"
  "values_Get (filterQuery f) ''q'' = f_Search f"
  "values_Get (filterQuery f) ''attr'' = f_AttrKey f"
  "values_Get (filterQuery f) ''value'' = f_AttrValue f"
  "values_Get (filterQuery f) ''state'' = (if length (f_States f) = 1 then hd (f_States f) else [])"
  "values_Get (filterQuery f) ''before'' =
     (if IsZero (f_Before f) then [] else FormatInt (UnixMicro (f_Before f)))"
  by (simp_all add: filterQuery_def set_if_simps)

text \<open>
  C28. A pager link carries the listing along. Parse the query string of the link a listing
  renders for page \<open>p\<close> the way the server will: the filters read from it are the listing's
  filters (queue, pattern, search, attribute and a single state), the page requested is \<open>p\<close>,
  and a window that was frozen stays the same window, at microsecond resolution.
\<close>

theorem pager_link_roundtrip:
  assumes "li_Query l = filterQuery f" "f_States f = [] \<or> (\<exists>st. f_States f = [st] \<and> st \<noteq> [])"
    and "1 \<le> p" "p \<le> maxInt64"
    and "r' = r\<lparr>rq_query := parse_query (values_Encode (page_values now l p))\<rparr>"
  shows "filterFrom r' = zero_filter\<lparr>f_Queue := f_Queue f, f_Pattern := f_Pattern f, f_Search := f_Search f,
             f_AttrKey := f_AttrKey f, f_AttrValue := f_AttrValue f, f_States := f_States f\<rparr> \<and>
         requested_page r' = p \<and>
         (f_Before f \<noteq> zeroTime \<longrightarrow>
            frozen_before lay t r' q b = time_UnixMicro (UnixMicro (f_Before f)))"
proof -
  have wf: "wf_map (page_values now l p)"
    by (rule wf_page_values) (simp add: assms(1) wf_filterQuery)
  have get: "Query_Get r' k = values_Get (page_values now l p) k" for k
    by (simp add: assms(5) Query_Get_def values_Get_def values_roundtrip [OF wf])
  have same: "values_Get (page_values now l p) k = values_Get (filterQuery f) k" if "k \<notin> {''page'', ''before''}" for k
    using that by (simp add: page_values_def assms(1))
  have page: "Query_Get r' ''page'' = FormatInt p" by (simp add: get page_values_def)
  have "ParseInt (FormatInt p) = Inr p" using assms(3,4) by (intro ParseInt_FormatInt) simp_all
  then have "requested_page r' = p" using assms(3) by (simp add: requested_page_def page)
  moreover have "frozen_before lay t r' q b = time_UnixMicro (UnixMicro (f_Before f))" if "f_Before f \<noteq> zeroTime"
  proof -
    have "Query_Get r' ''before'' = FormatInt (UnixMicro (f_Before f))"
      using that by (simp add: get page_values_def assms(1) values_Get_filterQuery IsZero_def)
    moreover have "ParseInt (FormatInt (UnixMicro (f_Before f))) = Inr (UnixMicro (f_Before f))"
      by (rule ParseInt_FormatInt) (use int64_range in \<open>auto simp: UnixMicro_def\<close>)
    ultimately show ?thesis by (simp add: frozen_before_def)
  qed
  moreover have "filterFrom r' = zero_filter\<lparr>f_Queue := f_Queue f, f_Pattern := f_Pattern f, f_Search := f_Search f,
      f_AttrKey := f_AttrKey f, f_AttrValue := f_AttrValue f, f_States := f_States f\<rparr>"
    using assms(2) by (auto simp: filterFrom_def get same values_Get_filterQuery zero_filter_def Let_def)
  ultimately show ?thesis by blast
qed

theorem pager_link_roundtrip_witness:
  "\<exists>l. li_Query l = filterQuery (zero_filter\<lparr>f_Queue := ''a&b'', f_States := [StateFailed]\<rparr>) \<and>
     filterFrom (demo_page\<lparr>rq_query := parse_query (values_Encode (page_values 0 l 3))\<rparr>) =
       zero_filter\<lparr>f_Queue := ''a&b'', f_States := [StateFailed]\<rparr>"
proof -
  let ?f = "zero_filter\<lparr>f_Queue := ''a&b'', f_States := [StateFailed]\<rparr>"
  define l where "l = \<lparr>li_Jobs = [], li_Filter = ?f, li_Total = 0, li_Shown = 0, li_Page = 1, li_Pages = 1,
    li_First = 0, li_Last = 0, li_AttrKeys = [], li_Queues = [], li_Path = ''/jobs'', li_Query = filterQuery ?f\<rparr>"
  have "filterFrom (demo_page\<lparr>rq_query := parse_query (values_Encode (page_values 0 l 3))\<rparr>) = ?f"
    using pager_link_roundtrip [where l = l and f = ?f and p = 3 and r = demo_page and now = 0 and lay = demo_layouts and t = 0 and q = 1 and b = 0, OF _ _ _ _ refl]
    by (simp add: l_def StateFailed_def zero_filter_def)
  then show ?thesis by (intro exI [of _ l]) (simp add: l_def)
qed

end
