(* ===== verification/Web_View_Laws.thy ===== *)
theory Web_View_Laws
  imports Web_Json Web_Listing_Laws Aggregate_Laws
begin

text \<open>
  What the views show. The figures of the failures page add up over the in-memory store, the
  bars of the throughput chart fit their box, a token is shown to a session only, and the
  JSON form of a job carries what the job page shows.
\<close>

subsection \<open>Views over the in-memory store\<close>

definition mem_views :: "(group list \<Rightarrow> group list) \<Rightarrow> go_unicode \<Rightarrow> gotime \<Rightarrow> gotime \<Rightarrow> mem_store \<Rightarrow> view_reads" where
  "mem_views ord uc now now' s =
     \<lparr>sr_CountJobs = sr_CountJobs (mem_reads uc s), sr_Jobs = sr_Jobs (mem_reads uc s),
      sr_AttributeKeys = sr_AttributeKeys (mem_reads uc s),
      vr_Counts = Inr (mem_Counts s),
      vr_Job = (\<lambda>key. map_sum mem_error_text id (mem_Job s key)),
      vr_Lineage = (\<lambda>epoch queue root. Inr (mem_Lineage s epoch queue root)),
      vr_GroupJobs = (\<lambda>f limit. Inr (mem_GroupJobs ord uc s f limit)),
      vr_Timeline = (\<lambda>since bucket. map_sum mem_error_text id (mem_Timeline now now' s since bucket))\<rparr>"

lemma count_of_tally: "count_of counts st = tally_at counts st"
  by (simp add: count_of_def tally_at_def)

lemma failure_total_sum: "failure_total counts = (\<Sum>st \<leftarrow> FailureStates. count_of counts st)"
proof -
  have "fold (\<lambda>st n. n + count_of counts st) sts n = n + (\<Sum>st \<leftarrow> sts. count_of counts st)" for sts n
    by (induction sts arbitrary: n) simp_all
  then show ?thesis by (simp add: failure_total_def)
qed

lemma overall_is_total: "sum_list (map snd (failure_counts counts)) = failure_total counts"
proof -
  have "sum_list (map snd (filter (\<lambda>(_, n). n > (0::nat)) xs)) = sum_list (map snd xs)" for xs :: "(State \<times> nat) list"
    by (induction xs) auto
  then show ?thesis by (simp add: failure_counts_def failure_total_sum o_def)
qed

abbreviation in_state :: "mem_store \<Rightarrow> State \<Rightarrow> job list" where
  "in_state s st \<equiv> filter (\<lambda>j. job_State j = st) (map snd (ms_jobs s))"

lemma count_of_mem: "count_of (mem_Counts s) st = length (in_state s st)"
  using Counts_exact [of s st] by (simp add: count_of_tally filter_map o_def case_prod_unfold)

lemma failure_total_mem:
  "failure_total (mem_Counts s) = length (filter (\<lambda>j. job_State j \<in> set FailureStates) (map snd (ms_jobs s)))"
  using Counts_exact [of s StateFailed] by (simp add: failure_total_sum count_of_tally filter_map o_def case_prod_unfold)

lemma matching_failures:
  "matching uc s (zero_filter\<lparr>f_States := FailureStates\<rparr>) =
     filter (\<lambda>j. job_State j \<in> set FailureStates) (map snd (ms_jobs s))"
  unfolding matching_def Let_def
  by (rule filter_cong [OF refl])
    (simp add: job_matches_def zero_filter_def IsZero_def matchesTerms_def matchesAttribute_def Fields_def ToLower_def
      ascii_def FailureStates_def)

lemma groups_sum:
  assumes "length (mem_GroupJobs ord uc s f 50) < 50"
  shows "(\<Sum>g \<leftarrow> mem_GroupJobs ord uc s f 50. grp_Count g) = length (matching uc s f)"
proof -
  let ?gs = "sort_slice group_before (range_order ord (map snd (fold group_job (matching uc s f) [])))"
  have "mem_GroupJobs ord uc s f 50 = take 50 ?gs"
    by (simp add: mem_GroupJobs_def clamp_limit_def Let_def)
  with assms have gs: "mem_GroupJobs ord uc s f 50 = ?gs" by (simp add: min_def split: if_splits)
  have "(\<Sum>g \<leftarrow> ?gs. grp_Count g) = (\<Sum>g \<leftarrow> map snd (fold group_job (matching uc s f) []). grp_Count g)"
    by (metis mset_map mset_range_order mset_sort_slice sum_mset_sum_list)
  then show ?thesis by (simp only: gs sum_group_counts)
qed

text \<open>
  The failures page adds up. Opened without filters over the in-memory store, its badge,
  its overall figure and the number of jobs in a failure state are the same; it breaks the
  figure down into exactly the failure states that occur, each with its number of jobs; and
  as long as fewer than fifty families failed, the groups listed account for all of them.
\<close>

theorem failures_add_up:
  assumes "filterFrom r = zero_filter" "Query_Get r ''view'' = []"
  shows "\<exists>data. failures_view lay now (mem_views ord uc t t' s) h r = Inr data \<and>
     pg_FailureCount (fd_page data) = fd_Overall data \<and>
     fd_Overall data = mem_CountJobs uc s (zero_filter\<lparr>f_States := FailureStates\<rparr>) \<and>
     set (fd_Counts data) = {(st, n). st \<in> set FailureStates \<and> n = length (in_state s st) \<and> 0 < n} \<and>
     (length (fd_Groups data) < 50 \<longrightarrow> (\<Sum>g \<leftarrow> fd_Groups data. grp_Count g) = fd_Overall data)"
proof -
  have f: "failures_filter r = zero_filter\<lparr>f_States := FailureStates\<rparr>"
    by (simp add: failures_filter_def assms(1)) (simp add: zero_filter_def)
  have g: "failures_grouped r" by (simp add: failures_grouped_def assms) (simp add: zero_filter_def)
  have page: "pg_FailureCount (newPage now rd h r title nav (Some counts)) = failure_total counts"
    for rd title nav counts
    by (simp add: newPage_def Let_def split: option.splits)
  have counts: "set (failure_counts (mem_Counts s)) =
      {(st, n). st \<in> set FailureStates \<and> n = length (in_state s st) \<and> 0 < n}"
    unfolding failure_counts_def count_of_mem by auto
  have total: "mem_CountJobs uc s (zero_filter\<lparr>f_States := FailureStates\<rparr>) = failure_total (mem_Counts s)"
    unfolding mem_CountJobs_def matching_failures failure_total_mem ..
  have "length (mem_GroupJobs ord uc s (zero_filter\<lparr>f_States := FailureStates\<rparr>) 50) < 50 \<Longrightarrow>
      (\<Sum>g \<leftarrow> mem_GroupJobs ord uc s (zero_filter\<lparr>f_States := FailureStates\<rparr>) 50. grp_Count g) =
      failure_total (mem_Counts s)"
    using groups_sum total by (simp add: mem_CountJobs_def)
  then show ?thesis
    by (simp add: failures_view_def failure_rows_def g f mem_views_def page overall_is_total total counts)
qed

subsection \<open>The throughput chart\<close>

lemma fold_timeline_sum:
  "fold timeline_sum bs view =
     view\<lparr>tv_Completed := tv_Completed view + (\<Sum>b \<leftarrow> bs. bkt_Completed b),
          tv_Failed := tv_Failed view + (\<Sum>b \<leftarrow> bs. bkt_Failed b),
          tv_Peak := fold (\<lambda>b. max (bar_total b)) bs (tv_Peak view)\<rparr>"
proof (induction bs arbitrary: view)
  case Nil
  show ?case by simp
next
  case (Cons b bs)
  have "tv_Peak (timeline_sum b view) = max (bar_total b) (tv_Peak view)"
    by (simp add: timeline_sum_def max_def)
  then show ?case by (simp add: Cons.IH) (simp add: timeline_sum_def)
qed

lemma fold_max_bounds:
  fixes f :: "'a \<Rightarrow> nat"
  shows "n \<le> fold (\<lambda>b. max (f b)) bs n"
    and "b \<in> set bs \<Longrightarrow> f b \<le> fold (\<lambda>b. max (f b)) bs n"
    and "fold (\<lambda>b. max (f b)) bs n = n \<or> fold (\<lambda>b. max (f b)) bs n \<in> f ` set bs"
proof (induction bs arbitrary: n)
  case (Cons x bs)
  { case 1 show ?case using Cons.IH(1) [of "max (f x) n"] by simp }
  { case 2 then show ?case using Cons.IH(1) [of "max (f x) n"] Cons.IH(2) [of "max (f x) n"] by auto }
  { case 3 show ?case using Cons.IH(3) [of "max (f x) n"] by (auto simp: max_def split: if_splits) }
qed simp_all

lemma percent_bounds:
  assumes "c + d \<le> p" "0 < (p::nat)"
  shows "0 \<le> int c * 100 sdiv int p" "0 \<le> int d * 100 sdiv int p"
    and "int c * 100 sdiv int p + int d * 100 sdiv int p \<le> 100"
proof -
  have eq: "int n * 100 sdiv int p = int n * 100 div int p" for n using assms(2) by (simp add: sdiv_nonneg)
  show "0 \<le> int c * 100 sdiv int p" "0 \<le> int d * 100 sdiv int p"
    using assms(2) by (simp_all add: eq pos_imp_zdiv_nonneg_iff)
  have "int c * 100 div int p + int d * 100 div int p \<le> (int c * 100 + int d * 100) div int p"
    using assms(2) by (subst div_add1_eq) (simp add: pos_imp_zdiv_nonneg_iff)
  also have "\<dots> \<le> (int p * 100) div int p"
    using assms by (intro zdiv_mono1) linarith+
  also have "\<dots> = 100" using assms(2) by simp
  finally show "int c * 100 sdiv int p + int d * 100 sdiv int p \<le> 100" by (simp add: eq)
qed

lemma div_int_less_two:
  assumes "(a::int) < 2 * b" "0 < b"
  shows "a div b < 2"
proof (rule ccontr)
  assume "\<not> a div b < 2"
  then have "2 * b \<le> a div b * b" using assms(2) by (intro mult_right_mono) simp_all
  also have "\<dots> \<le> a" using div_mult_mod_eq [of a b] pos_mod_sign [OF assms(2), of a] by linarith
  finally show False using assms(1) by simp
qed

lemma percent_full:
  assumes "c + d = (p::nat)" "0 < p"
  shows "99 \<le> int c * 100 sdiv int p + int d * 100 sdiv int p"
proof -
  have eq: "int n * 100 sdiv int p = int n * 100 div int p" for n using assms(2) by (simp add: sdiv_nonneg)
  have "int c * 100 + int d * 100 = 100 * int p" using assms(1) by simp
  then have "100 = (int c * 100 + int d * 100) div int p" using assms(2) by simp
  also have "\<dots> = int c * 100 div int p + int d * 100 div int p +
      ((int c * 100) mod int p + (int d * 100) mod int p) div int p"
    by (rule div_add1_eq)
  also have "((int c * 100) mod int p + (int d * 100) mod int p) div int p < 2"
  proof (rule div_int_less_two)
    show "(int c * 100) mod int p + (int d * 100) mod int p < 2 * int p"
      using assms(2) pos_mod_bound [of "int p" "int c * 100"] pos_mod_bound [of "int p" "int d * 100"] by linarith
  qed (use assms(2) in simp)
  finally show ?thesis by (simp add: eq)
qed

text \<open>
  The throughput chart fits its box and loses nothing. Its totals are those of the
  buckets; there is one bar per bucket, or none when nothing happened; the two parts of a bar
  are percentages that together never exceed 100; and the tallest bucket fills its bar up to
  the rounding of its two parts.
\<close>

theorem timeline_bars_fit:
  assumes "vr_Timeline rd (now - Hour) Minute = Inr bs" "bs \<noteq> []" "view = timeline clock rd now"
  shows "tv_Completed view = (\<Sum>b \<leftarrow> bs. bkt_Completed b) \<and> tv_Failed view = (\<Sum>b \<leftarrow> bs. bkt_Failed b) \<and>
     length (tv_Bars view) = (if list_all (\<lambda>b. bar_total b = 0) bs then 0 else length bs) \<and>
     list_all (\<lambda>bar. 0 \<le> tb_CompletedPct bar \<and> 0 \<le> tb_FailedPct bar \<and>
                     tb_CompletedPct bar + tb_FailedPct bar \<le> 100) (tv_Bars view) \<and>
     (tv_Bars view \<noteq> [] \<longrightarrow> list_ex (\<lambda>bar. 99 \<le> tb_CompletedPct bar + tb_FailedPct bar) (tv_Bars view))"
proof -
  define peak where "peak = fold (\<lambda>b. max (bar_total b)) bs 0"
  have view: "view = (if peak = 0 then no_timeline else no_timeline\<lparr>tv_Bars := map (timeline_bar clock peak) bs\<rparr>)
      \<lparr>tv_Window := ''last hour'', tv_Completed := (\<Sum>b \<leftarrow> bs. bkt_Completed b),
       tv_Failed := (\<Sum>b \<leftarrow> bs. bkt_Failed b), tv_Peak := peak\<rparr>"
    unfolding assms(3) timeline_def using assms(1,2)
    by (simp add: time_Add_def fold_timeline_sum Let_def peak_def no_timeline_def)
  have le: "bar_total b \<le> peak" if "b \<in> set bs" for b using fold_max_bounds(2) [OF that] by (simp add: peak_def)
  have quiet': "peak = 0 \<longleftrightarrow> list_all (\<lambda>b. bar_total b = 0) bs"
    using le fold_max_bounds(3) [of bar_total bs 0] by (auto simp: list_all_iff peak_def)
  have bars: "list_all (\<lambda>bar. 0 \<le> tb_CompletedPct bar \<and> 0 \<le> tb_FailedPct bar \<and>
      tb_CompletedPct bar + tb_FailedPct bar \<le> 100) (map (timeline_bar clock peak) bs)" if "0 < peak"
    using percent_bounds [OF le [unfolded bar_total_def] that]
    by (auto simp: list_all_iff timeline_bar_def)
  have full: "list_ex (\<lambda>bar. 99 \<le> tb_CompletedPct bar + tb_FailedPct bar) (map (timeline_bar clock peak) bs)"
    if "0 < peak"
  proof -
    from that obtain b where "b \<in> set bs" "bar_total b = peak"
      using fold_max_bounds(3) [of bar_total bs 0] by (auto simp: peak_def)
    then show ?thesis
      using percent_full [of "bkt_Completed b" "bkt_Failed b" peak] that
      by (auto simp: list_ex_iff timeline_bar_def bar_total_def)
  qed
  show ?thesis
    using bars full quiet' by (cases "peak = 0") (auto simp: view no_timeline_def)
qed

theorem timeline_bars_fit_witness:
  "let view = timeline (\<lambda>_. ''12:00'')
       ((mem_views rev \<lparr>uc_lower = id, uc_fields = (\<lambda>_. [])\<rparr> 0 0 mem_Open)
          \<lparr>vr_Timeline := (\<lambda>_ _. Inr [\<lparr>bkt_Start = 0, bkt_Completed = 2, bkt_Failed = 1\<rparr>])\<rparr>) 0
   in length (tv_Bars view) = 1 \<and> tv_Completed view = 2 \<and> tv_Failed view = 1"
  using timeline_bars_fit [where bs = "[\<lparr>bkt_Start = 0, bkt_Completed = 2, bkt_Failed = 1\<rparr>]" and now = 0
      and rd = "(mem_views rev \<lparr>uc_lower = id, uc_fields = (\<lambda>_. [])\<rparr> 0 0 mem_Open)
          \<lparr>vr_Timeline := (\<lambda>_ _. Inr [\<lparr>bkt_Start = 0, bkt_Completed = 2, bkt_Failed = 1\<rparr>])\<rparr>"
      and clock = "\<lambda>_. ''12:00''", OF _ _ refl]
  by (simp add: Let_def bar_total_def)

theorem failures_add_up_witness:
  "\<exists>data. failures_view demo_layouts 0 (mem_views rev \<lparr>uc_lower = id, uc_fields = (\<lambda>_. [])\<rparr> 0 0
       (mem_UpsertJobs mem_Open [zero_job\<lparr>job_ID := ''1'', job_State := StateFailed\<rparr>]))
       (blank_handler ''/cq'' :: unit handler) (demo_page\<lparr>rq_query := []\<rparr>) = Inr data \<and>
     pg_FailureCount (fd_page data) = fd_Overall data"
proof -
  have "filterFrom (demo_page\<lparr>rq_query := []\<rparr>) = zero_filter" "Query_Get (demo_page\<lparr>rq_query := []\<rparr>) ''view'' = []"
    by (simp_all add: filterFrom_def Query_Get_def values_Get_def values_all_def zero_filter_def)
  from failures_add_up [OF this] show ?thesis by blast
qed

subsection \<open>Tokens, lineage, pagers\<close>

text \<open>A page shows a token only to the session it belongs to.\<close>

lemma liveData_token:
  assumes "cd_CSRF (ov_Controls (liveData now ops lv h r)) \<noteq> []"
  shows "hn_controls h \<and> (\<exists>found. sessionFrom now h r = Some found \<and>
           cd_CSRF (ov_Controls (liveData now ops lv h r)) = sign (hn_secret h) (''csrf:'' @ se_ID found))"
  using assms by (auto simp: liveData_def no_controls_def csrfFor_def split: if_splits option.splits)

lemma newPage_token:
  assumes "pg_CSRF (newPage now rd h r title nav counts) \<noteq> []"
  shows "\<exists>found. sessionFrom now h r = Some found \<and>
           pg_CSRF (newPage now rd h r title nav counts) = sign (hn_secret h) (''csrf:'' @ se_ID found)"
  using assms by (auto simp: newPage_def csrfFor_def Let_def split: if_splits option.splits)

text \<open>A recorded job is part of the lineage its page shows.\<close>

lemma job_page_lineage:
  assumes "job_view now (mem_views ord uc t t' s) h r key = Inr data" "job_RootID (jb_Job data) = job_ID (jb_Job data)"
  shows "jb_Job data \<in> set (jb_Lineage data)"
  using assms
  by (auto simp: job_view_def mem_views_def mem_Job_def mem_Lineage_def in_lineage_def map_sum_def
      split: sum.splits option.splits dest!: map_of_SomeD) force

text \<open>
  The pager of the flat failures list loses the \<open>view\<close> parameter: its links lead back to the
  grouped page.
\<close>

lemma flat_pager_leads_to_groups:
  assumes "li_Query l = filterQuery f" "f_Pattern f = []"
  shows "failures_grouped (r\<lparr>rq_query := parse_query (values_Encode (page_values now l p))\<rparr>)"
proof -
  have wf: "wf_map (page_values now l p)"
    by (rule wf_page_values) (simp add: assms(1) wf_filterQuery)
  have get: "Query_Get (r\<lparr>rq_query := parse_query (values_Encode (page_values now l p))\<rparr>) k =
      values_Get (page_values now l p) k" for k
    by (simp add: Query_Get_def values_Get_def values_roundtrip [OF wf])
  have same: "values_Get (page_values now l p) k = values_Get (filterQuery f) k" if "k \<notin> {''page'', ''before''}" for k
    using that by (simp add: page_values_def assms(1))
  have "values_Get (filterQuery f) ''view'' = []"
    by (simp add: filterQuery_def set_if_simps)
  then show ?thesis
    by (simp add: failures_grouped_def filterFrom_def Let_def get same values_Get_filterQuery assms(2) zero_filter_def)
qed

end
