(* ===== verification/Web_Laws.thy ===== *)
theory Web_Laws
  imports Web_Controls
begin

text \<open>
  What the web handler guarantees: a handler that was built stays well formed and never
  dereferences a missing login; the gate lets no anonymous request through; a queue is only
  ever touched by an authorized, CSRF-checked control, which leaves one audit entry; a login
  hands out a session exactly when everything checked out, and that session works; the
  redirect after it stays inside the dashboard.
\<close>

subsection \<open>Frames\<close>

lemma audit_frame [simp]:
  "hn_prefix (audit t e h) = hn_prefix h" "hn_queues (audit t e h) = hn_queues h"
  "hn_queueByName (audit t e h) = hn_queueByName h" "hn_controls (audit t e h) = hn_controls h"
  "hn_controlPolicy (audit t e h) = hn_controlPolicy h" "hn_tokens (audit t e h) = hn_tokens h"
  "hn_requireAuth (audit t e h) = hn_requireAuth h" "hn_json (audit t e h) = hn_json h"
  "hn_onAudit (audit t e h) = hn_onAudit h" "hn_login (audit t e h) = hn_login h"
  "hn_secret (audit t e h) = hn_secret h" "hn_sessionTTL (audit t e h) = hn_sessionTTL h"
  "hn_revoked (audit t e h) = hn_revoked h" "hn_attempts (audit t e h) = hn_attempts h"
  "hn_secureCookies (audit t e h) = hn_secureCookies h"
  by (simp_all add: audit_def)

lemma handler_ok_audit [simp]: "handler_ok (audit t e h) = handler_ok h"
  by (simp add: handler_ok_def)

lemma handler_ok_auditLogin [simp]: "handler_ok (auditLogin t r u a d h) = handler_ok h"
  by (simp add: auditLogin_def Let_def)

lemma auditLogin_queues [simp]: "hn_queues (auditLogin t r u a d h) = hn_queues h"
  by (simp add: auditLogin_def Let_def)

subsection \<open>Well-formed handlers\<close>

text \<open>What the options establish, before the validation.\<close>

definition login_ok :: "'q handler \<Rightarrow> bool" where
  "login_ok h \<longleftrightarrow> (hn_login h \<noteq> None \<longrightarrow> hn_secret h \<noteq> [] \<and> 0 < hn_sessionTTL h \<and>
     (\<exists>dead. hn_revoked h = Some dead \<and> wf_map dead) \<and>
     (\<exists>lim. hn_attempts h = Some lim \<and> wf_map (al_seen lim) \<and> al_burst lim = loginBurst \<and>
            al_window lim = loginWindow))"

lemma login_ok_option: "login_ok h \<Longrightarrow> login_ok (apply_web_option opt h)"
  by (cases opt)
    (auto simp: login_ok_def WithQueues_def WithSchedulers_def WithTokens_def RequireSignIn_def WithControls_def WithJSON_def
      WithAudit_def WithSecureCookies_def WithLogin_def newRevocations_def newAttemptLimiter_def
      DefaultSessionTTL_def split: option.split)

lemma login_ok_options: "login_ok (fold apply_web_option opts (blank_handler prefix))"
proof (rule fold_invariant)
  show "login_ok (blank_handler prefix)" by (simp add: login_ok_def blank_handler_def)
qed (rule login_ok_option)

lemma queue_index_bounded:
  "map_of (fold (\<lambda>(i, q) m. AList.update (queue_label ops i q) i m) es m) name = Some i \<Longrightarrow>
   map_of m name = Some i \<or> i \<in> fst ` set es"
proof (induction es arbitrary: m)
  case (Cons e es)
  obtain j q where e: "e = (j, q)" by (cases e)
  have "map_of (AList.update (queue_label ops j q) j m) name = Some i \<or> i \<in> fst ` set es"
    using Cons.IH [of "AList.update (queue_label ops j q) j m"] Cons.prems e by simp
  then show ?case using e by (auto split: if_splits)
qed simp

lemma queue_index_less: "map_of (queue_index ops qs) name = Some i \<Longrightarrow> i < length qs"
  using queue_index_bounded [of ops "enumerate 0 qs" "[]" name i]
  by (auto simp: queue_index_def in_set_enumerate_eq)

lemma web_New_ok:
  assumes "web_New ops prefix opts = Inr h"
  shows "handler_ok h"
proof -
  define h0 where "h0 = fold apply_web_option opts (blank_handler (TrimSuffix prefix ''/''))"
  have "login_ok h0" unfolding h0_def by (rule login_ok_options)
  moreover have "h = h0\<lparr>hn_queueByName := queue_index ops (hn_queues h0)\<rparr>"
      "hn_controls h0 \<longrightarrow> hn_controlPolicy h0 \<noteq> None \<and> (hn_login h0 \<noteq> None \<or> hn_tokens h0 \<noteq> [])"
      "hn_requireAuth h0 \<longrightarrow> hn_login h0 \<noteq> None \<or> hn_tokens h0 \<noteq> []"
    using assms unfolding web_New_def h0_def [symmetric] Let_def
    by (auto split: option.splits if_splits)
  ultimately show ?thesis
    by (auto simp: handler_ok_def login_ok_def dest: queue_index_less)
qed

lemma handler_ok_limiter:
  assumes "handler_ok h" "hn_attempts h = Some lim" "hn_login h \<noteq> None"
  shows "handler_ok (h\<lparr>hn_attempts := Some (snd (allow t c lim))\<rparr>)"
  using assms wf_map_allow [of lim t c] by (auto simp: handler_ok_def)

lemma loginSubmit_ok:
  assumes "handler_ok h" "hn_login h \<noteq> None"
  shows "\<exists>rs h'. loginSubmit now now' random r h = Inr (rs, h') \<and> handler_ok h' \<and> hn_queues h' = hn_queues h"
proof -
  obtain lim check where lim: "hn_attempts h = Some lim" and check: "hn_login h = Some check"
    using assms by (auto simp: handler_ok_def)
  obtain ok lim' where al: "allow now (client r) lim = (ok, lim')" by fastforce
  have h': "handler_ok (h\<lparr>hn_attempts := Some lim'\<rparr>)"
    using handler_ok_limiter [OF assms(1) lim assms(2), of now "client r"] by (simp add: al)
  obtain subject acc where cr: "check (PostFormValue r ''username'') (PostFormValue r ''password'') = (subject, acc)"
    by fastforce
  show ?thesis
    using h' assms(1)
    by (auto simp: loginSubmit_def Let_def lim check al cr split: option.split)
qed

lemma logout_ok:
  assumes "handler_ok h" "hn_login h \<noteq> None"
  shows "\<exists>rs h'. logout now r h = Inr (rs, h') \<and> handler_ok h' \<and> hn_queues h' = hn_queues h"
proof -
  obtain dead where dead: "hn_revoked h = Some dead" "wf_map dead"
    using assms by (auto simp: handler_ok_def)
  have "handler_ok (h\<lparr>hn_revoked := Some (revoke now i e dead)\<rparr>)" for i e
    using assms(1) dead wf_map_revoke [OF dead(2), of now i e] by (auto simp: handler_ok_def)
  then show ?thesis
    using assms(1) by (auto simp: logout_def Let_def dead split: option.split)
qed

lemma control_frame:
  "handler_ok h \<Longrightarrow> handler_ok (snd (control t1 t2 t3 action apply' r h))"
  by (auto simp: control_def Let_def handler_ok_def split: prod.split option.split)

lemma mux_route_login:
  "mux_route h m p = Some rt \<Longrightarrow> rt \<in> {LoginForm, LoginSubmit, Logout} \<Longrightarrow> hn_login h \<noteq> None"
  by (auto simp: mux_route_def Let_def split: if_splits)

lemma serve_route_ok:
  assumes "handler_ok h" "rt \<in> {LoginForm, LoginSubmit, Logout} \<longrightarrow> hn_login h \<noteq> None"
  shows "\<exists>rs h'. serve_route env i rt r h = Inr (rs, h') \<and> handler_ok h'"
proof (cases rt)
  case LoginForm
  then show ?thesis using assms(1) by (simp add: loginForm_def split: option.split)
next
  case LoginSubmit
  then show ?thesis using loginSubmit_ok [OF assms(1)] assms(2) by fastforce
next
  case Logout
  then show ?thesis using logout_ok [OF assms(1)] assms(2) by fastforce
qed (use assms(1) control_frame in \<open>fastforce simp: prod_eq_iff\<close>)+

lemma routed_ok:
  assumes "handler_ok h"
  shows "\<exists>rs h'. routed (serve_route env i) unrouted r h = Inr (rs, h') \<and> handler_ok h'"
  using assms by (auto simp: routed_def Let_def intro!: serve_route_ok dest: mux_route_login split: option.split)

lemma serve_ok:
  assumes "handler_ok h"
  shows "\<exists>rs h'. serve env i r h = Inr (rs, h') \<and> handler_ok h'"
  using routed_ok [OF assms] assms
  by (auto simp: serve_def ServeHTTP_def gate_def Let_def)

text \<open>
  C22. A handler that \<open>New\<close> accepted stays well formed under every request, and no request makes
  it panic: a login always has its secret, lifetime, revocation list and limiter, controls
  always have a policy and some credential to judge, and the queue index stays in range.
\<close>

theorem handler_wellformed:
  assumes "web_New ops prefix opts = Inr h0" "web_reach env h0 h"
  shows "handler_ok h \<and> (\<exists>rs h'. serve env i r h = Inr (rs, h'))"
proof -
  from assms(2) have "handler_ok h"
  proof induction
    case start
    show ?case by (rule web_New_ok [OF assms(1)])
  next
    case (request h i r rs h')
    then show ?case using serve_ok [of h env i r] by auto
  qed
  then show ?thesis using serve_ok [of h env i r] by blast
qed

definition toy_ops :: "bool queue_ops" where
  "toy_ops =
     \<lparr>qo_Name = (\<lambda>q. ''demo''), qo_Pause = (\<lambda>q. (None, True)), qo_Resume = (\<lambda>q. (None, False)),
      qo_SetWorkerRange = (\<lambda>lo hi q. (Some ''fixed size'', q)), qo_WorkerRange = (\<lambda>q. (1, 2)),
      qo_IsPaused = id\<rparr>"

definition toy_env :: "bool web_env" where
  "toy_env = \<lparr>we_ops = toy_ops, we_num_text = (\<lambda>s e. s), we_view = (\<lambda>rt r h. http_Error ''page'' 200),
     we_unrouted = (\<lambda>_. http_NotFound)\<rparr>"

definition toy_opts :: "bool web_option list" where
  "toy_opts = [OptQueues [False], OptControls (Some AllowSignedIn), OptAudit True,
     OptTokens [Some (BearerToken ''ci'' ''s3cret'')], OptRequireSignIn]"

definition toy_handler :: "bool handler" where
  "toy_handler = projr (web_New toy_ops ''/cq/'' toy_opts)"

definition toy_request :: "string \<Rightarrow> string \<Rightarrow> http_request" where
  "toy_request meth path =
     \<lparr>rq_method = meth, rq_path = path, rq_rawpath = [], rq_query = [],
      rq_body = [(''queue'', [''demo''])], rq_header = [], rq_cookies = [], rq_remote = ''10.0.0.1:99'',
      rq_tls = False\<rparr>"

definition toy_inputs :: web_inputs where
  "toy_inputs = \<lparr>wi_gate = 1, wi_t1 = 2, wi_t2 = 3, wi_t3 = 4, wi_random = Some ''abcdefghijklmnop''\<rparr>"

lemmas toy_defs =
  toy_ops_def toy_env_def toy_opts_def toy_request_def toy_inputs_def web_New_def blank_handler_def
  WithQueues_def WithControls_def WithAudit_def WithTokens_def RequireSignIn_def
  TrimSuffix_def HasSuffix_def TrimPrefix_def HasPrefix_def

lemma toy_handler_New: "web_New toy_ops ''/cq/'' toy_opts = Inr toy_handler"
  by (simp add: toy_handler_def) (simp add: toy_defs)

lemma toy_fields:
  "hn_prefix toy_handler = ''/cq''" "hn_queues toy_handler = [False]"
  "hn_queueByName toy_handler = [(''demo'', 0)]" "hn_controls toy_handler"
  "hn_controlPolicy toy_handler = Some AllowSignedIn" "hn_onAudit toy_handler"
  "hn_tokens toy_handler = [Some (BearerToken ''ci'' ''s3cret'')]" "hn_requireAuth toy_handler"
  "hn_login toy_handler = None" "hn_audit toy_handler = []"
  by (simp_all add: toy_handler_def toy_defs queue_index_def queue_label_def)

definition token_request :: "string \<Rightarrow> http_request" where
  "token_request path =
     (toy_request ''POST'' path)\<lparr>rq_header := [(''Authorization'', ''Bearer s3cret'')]\<rparr>"

lemma toy_identify:
  "identify t toy_handler (token_request path) = Some \<lparr>id_Subject = ''ci'', id_Via = ViaToken\<rparr>"
  by (simp add: identify_def toy_fields BearerToken_def ConstantTimeCompare_eq Header_Get_def
      token_request_def TrimPrefix_def HasPrefix_def)

theorem handler_wellformed_witness: "handler_ok toy_handler"
  using handler_wellformed [OF toy_handler_New web_reach.start [of toy_env]] by blast

subsection \<open>The gate\<close>

text \<open>
  C8. No view is served to a stranger. On a handler with a login form, or one that requires
  signing in, a request that no session and no token identifies, to anything but the login and
  logout pages, changes nothing and gets the same refusal whatever the views would have
  answered: 401 in JSON for a JSON path, 401 when there is no form, and otherwise a redirect
  to the login form of this dashboard.
\<close>

theorem gate_refuses_strangers:
  assumes "hn_login h \<noteq> None \<or> hn_requireAuth h" "identify (wi_gate i) h r = None"
    and "TrimPrefix (rq_path r) (hn_prefix h) \<notin> {''/login'', ''/logout''}"
  shows "\<exists>rs. (\<forall>env. serve env i r h = Inr (rs, h)) \<and>
           (if wantsJSON r then rs = writeJSONError 401 ''unauthorized''
            else if hn_login h = None then rs_status rs = 401
            else rs_status rs = 303 \<and>
                 rs_location rs = Some (hn_prefix h @ ''/login?next='' @ QueryEscape (URL_EscapedPath r)))"
  using assms
  by (auto simp: serve_def ServeHTTP_def gate_def Let_def http_Error_def http_Redirect_def rs_location_def)

theorem gate_refuses_strangers_witness:
  "\<exists>rs. serve toy_env toy_inputs (toy_request ''GET'' ''/cq/jobs'') toy_handler = Inr (rs, toy_handler) \<and>
        rs_status rs = 401"
proof -
  have h: "hn_requireAuth toy_handler" "hn_login toy_handler = None"
      "identify (wi_gate toy_inputs) toy_handler (toy_request ''GET'' ''/cq/jobs'') = None"
      "TrimPrefix (rq_path (toy_request ''GET'' ''/cq/jobs'')) (hn_prefix toy_handler) \<notin> {''/login'', ''/logout''}"
      "\<not> wantsJSON (toy_request ''GET'' ''/cq/jobs'')"
    by (simp_all add: toy_handler_def toy_defs identify_def BearerToken_def ConstantTimeCompare_eq
        Header_Get_def wantsJSON_def)
  then show ?thesis
    using gate_refuses_strangers [of toy_handler toy_inputs "toy_request ''GET'' ''/cq/jobs''"] by auto
qed

subsection \<open>Controls\<close>

definition authorized :: "gotime \<Rightarrow> gotime \<Rightarrow> 'q handler \<Rightarrow> http_request \<Rightarrow> Identity \<Rightarrow> bool" where
  "authorized t1 t2 h r who \<longleftrightarrow>
     hn_controls h \<and> identify t1 h r = Some who \<and>
     (\<exists>policy. hn_controlPolicy h = Some policy \<and> policy who) \<and> checkCSRF t2 h r who"

lemma mayControl_iff:
  "mayControl t h r = (who, True) \<longleftrightarrow>
     identify t h r = Some who \<and> (\<exists>policy. hn_controlPolicy h = Some policy \<and> policy who)"
  by (auto simp: mayControl_def split: option.splits)

lemma control_rejected:
  assumes "\<nexists>who. authorized t1 t2 h r who"
  shows "\<exists>e. hn_queues (snd (control t1 t2 t3 action apply' r h)) = hn_queues h \<and>
    (hn_controls h \<longrightarrow> snd (control t1 t2 t3 action apply' r h) = audit t3 e h \<and> \<not> ae_Allowed e \<and>
       ae_Action e = action \<and> ae_Queue e = FormValue r ''queue'' \<and>
       rs_status (fst (control t1 t2 t3 action apply' r h)) \<in> {401, 403})"
proof -
  obtain who ok where may: "mayControl t1 h r = (who, ok)" by fastforce
  have "\<not> hn_controls h \<or> \<not> ok \<or> \<not> checkCSRF t2 h r who"
    using assms may mayControl_iff [of t1 h r who] by (auto simp: authorized_def)
  then show ?thesis
    by (intro exI [of _ "control_entry who action (FormValue r ''queue'') False"])
      (auto simp: control_def may Let_def control_entry_def no_entry_def http_Error_def)
qed

lemma control_accepted:
  assumes "authorized t1 t2 h r who"
  shows "\<exists>e. snd (control t1 t2 t3 action apply' r h) =
      audit t3 e (case map_of (hn_queueByName h) (FormValue r ''queue'') of
                    None \<Rightarrow> h
                  | Some n \<Rightarrow> h\<lparr>hn_queues := (hn_queues h)[n := snd (apply' (hn_queues h ! n) r)]\<rparr>) \<and>
      ae_Allowed e \<and> ae_Subject e = id_Subject who \<and> ae_Via e = id_Via who \<and> ae_Action e = action \<and>
      ae_Queue e = FormValue r ''queue''"
proof -
  have may: "mayControl t1 h r = (who, True)" and rest: "hn_controls h" "checkCSRF t2 h r who"
    using assms mayControl_iff [of t1 h r who] by (simp_all add: authorized_def)
  show ?thesis
  proof (cases "map_of (hn_queueByName h) (FormValue r ''queue'')")
    case None
    with may rest show ?thesis
      by (intro exI [of _ "(control_entry who action (FormValue r ''queue'') True)\<lparr>ae_Err := Some ''unknown queue''\<rparr>"])
        (simp add: control_def Let_def control_entry_def no_entry_def)
  next
    case (Some n)
    obtain detail err q' where ap: "apply' (hn_queues h ! n) r = ((detail, err), q')"
      by (metis surj_pair)
    with may rest Some show ?thesis
      by (intro exI [of _ "(control_entry who action (FormValue r ''queue'') True)\<lparr>ae_Detail := detail, ae_Err := err\<rparr>"])
        (simp add: control_def Let_def control_entry_def no_entry_def)
  qed
qed

text \<open>
  C16. Every control attempt is judged, and audited once. With controls enabled and an audit
  sink configured, a pause, resume or workers request adds exactly one entry, naming the
  action and the queue asked for; the entry says allowed exactly when the caller is
  identified, the policy admits him and, for a session, the form carried its CSRF token.
  Without all of that no queue changes and the answer is 401 or 403; with it, the action is
  applied to the named queue alone, and the entry names who did it and how.
\<close>

theorem control_judged_and_audited:
  assumes "hn_controls h" "hn_onAudit h"
  shows "\<exists>e. hn_audit (snd (control t1 t2 t3 action apply' r h)) = hn_audit h @ [e] \<and>
     ae_Action e = action \<and> ae_Queue e = FormValue r ''queue'' \<and>
     (ae_Allowed e \<longleftrightarrow> (\<exists>who. authorized t1 t2 h r who)) \<and>
     (\<forall>who. authorized t1 t2 h r who \<longrightarrow> ae_Subject e = id_Subject who \<and> ae_Via e = id_Via who \<and>
        hn_queues (snd (control t1 t2 t3 action apply' r h)) =
          (case map_of (hn_queueByName h) (FormValue r ''queue'') of
             None \<Rightarrow> hn_queues h
           | Some n \<Rightarrow> (hn_queues h)[n := snd (apply' (hn_queues h ! n) r)])) \<and>
     ((\<nexists>who. authorized t1 t2 h r who) \<longrightarrow>
        hn_queues (snd (control t1 t2 t3 action apply' r h)) = hn_queues h \<and>
        rs_status (fst (control t1 t2 t3 action apply' r h)) \<in> {401, 403})"
proof (cases "\<exists>who. authorized t1 t2 h r who")
  case True
  then obtain who where who: "authorized t1 t2 h r who" ..
  have only: "authorized t1 t2 h r who' \<longleftrightarrow> who' = who" for who'
    using who by (auto simp: authorized_def)
  from control_accepted [OF who, of t3 action apply'] assms(2) show ?thesis
    unfolding only by (auto simp: audit_def split: option.splits)
next
  case False
  with control_rejected [OF False, of t3 action apply'] assms show ?thesis
    by (auto simp: audit_def)
qed

lemma toy_authorized:
  "authorized t t' toy_handler (token_request path) \<lparr>id_Subject = ''ci'', id_Via = ViaToken\<rparr>"
  by (simp add: authorized_def toy_fields toy_identify AllowSignedIn_def checkCSRF_def)

theorem control_judged_and_audited_witness:
  "\<exists>e. hn_audit (snd (control 2 3 4 ''pause'' (pause_action toy_ops) (token_request ''/control/pause'')
          toy_handler)) = [e] \<and> ae_Allowed e \<and> ae_Subject e = ''ci''"
  using control_judged_and_audited [of toy_handler 2 3 4 "''pause''" "pause_action toy_ops"
      "token_request ''/control/pause''"] toy_authorized [of 2 3 "''/control/pause''"]
  by (fastforce simp: toy_fields)

text \<open>
  The request a route handler sees is the one that came in, with the prefix stripped from its
  paths.
\<close>

definition stripped :: "'q handler \<Rightarrow> http_request \<Rightarrow> http_request" where
  "stripped h r = r\<lparr>rq_path := TrimPrefix (rq_path r) (hn_prefix h),
     rq_rawpath := TrimPrefix (rq_rawpath r) (hn_prefix h)\<rparr>"

lemma serve_cases:
  assumes "serve env i r h = Inr (rs, h')"
  obtains "h' = h"
  | rt where "mux_route h (rq_method r) (URL_EscapedPath (stripped h r)) = Some rt"
      "serve_route env i rt (stripped h r) h = Inr (rs, h')"
proof -
  have "h' = h \<or> routed (serve_route env i) (we_unrouted env r) r h = Inr (rs, h')"
    using assms by (auto simp: serve_def ServeHTTP_def gate_def Let_def split: if_splits)
  then show thesis
    using that unfolding routed_def stripped_def [symmetric] Let_def
    by (auto split: if_splits option.splits)
qed

lemma login_handlers_keep_queues:
  "loginForm random r h = Inr (rs, h') \<Longrightarrow> hn_queues h' = hn_queues h"
  "loginSubmit now now' random r h = Inr (rs, h') \<Longrightarrow> hn_queues h' = hn_queues h"
  "logout now r h = Inr (rs, h') \<Longrightarrow> hn_queues h' = hn_queues h"
  by (auto simp: loginForm_def loginSubmit_def logout_def Let_def
      split: option.splits if_splits prod.splits)

lemma control_queues_change:
  assumes "hn_queues (snd (control t1 t2 t3 action apply' r h)) \<noteq> hn_queues h"
  shows "\<exists>who n. authorized t1 t2 h r who \<and> map_of (hn_queueByName h) (FormValue r ''queue'') = Some n \<and>
     hn_queues (snd (control t1 t2 t3 action apply' r h)) =
       (hn_queues h)[n := snd (apply' (hn_queues h ! n) r)]"
proof -
  obtain who where who: "authorized t1 t2 h r who"
    using assms control_rejected [of t1 t2 h r t3 action apply'] by blast
  from control_accepted [OF who, of t3 action apply'] assms show ?thesis
    using who by (auto split: option.splits)
qed

text \<open>What each of the three control routes does to the queue it is given.\<close>

definition control_action :: "'q web_env \<Rightarrow> string \<Rightarrow> 'q queue_action" where
  "control_action env a =
     (if a = ''pause'' then pause_action (we_ops env)
      else if a = ''resume'' then resume_action (we_ops env)
      else workers_action (we_num_text env) (we_ops env))"

lemma routed_control:
  assumes "mux_route h m p = Some rt" "serve_route env i rt r h = Inr (rs, h')" "rt \<in> {Pause, Resume, Workers}"
  shows "m = ''POST'' \<and> hn_controls h \<and> (\<exists>a \<in> {''pause'', ''resume'', ''workers''}.
     mux_segments p = [''control'', a] \<and>
     h' = snd (control (wi_t1 i) (wi_t2 i) (wi_t3 i) a (control_action env a) r h))"
  using assms by (auto simp: mux_route_def Let_def control_action_def split: if_splits)

lemma serve_route_control:
  assumes "serve_route env i rt r h = Inr (rs, h')" "rt \<in> {Pause, Resume, Workers}"
  shows "\<exists>action apply'. h' = snd (control (wi_t1 i) (wi_t2 i) (wi_t3 i) action apply' r h)"
  using assms by (auto, (metis snd_conv)+)

text \<open>
  C10. Nothing but an authorized control touches a queue. If any request whatever leaves some
  queue different, it was a POST that the mux matched, segment by segment and however escaped,
  with one of the three control routes, on a handler with controls enabled; its caller was
  identified, admitted by the policy and, for a session, presented the CSRF token; and exactly
  the queue he named was given to the action of that route, every other queue being as before.
\<close>

theorem queues_change_only_by_control:
  assumes "serve env i r h = Inr (rs, h')" "hn_queues h' \<noteq> hn_queues h"
  shows "rq_method r = ''POST'' \<and> hn_controls h \<and>
    (\<exists>a \<in> {''pause'', ''resume'', ''workers''}. \<exists>who n.
       mux_segments (URL_EscapedPath (stripped h r)) = [''control'', a] \<and>
       authorized (wi_t1 i) (wi_t2 i) h (stripped h r) who \<and>
       map_of (hn_queueByName h) (FormValue r ''queue'') = Some n \<and>
       hn_queues h' = (hn_queues h)[n := snd (control_action env a (hn_queues h ! n) (stripped h r))])"
  using assms(1)
proof (cases rule: serve_cases)
  case 1
  with assms(2) show ?thesis by simp
next
  case (2 rt)
  have form: "FormValue (stripped h r) k = FormValue r k" for k
    by (simp add: FormValue_def stripped_def)
  have rt: "rt \<in> {Pause, Resume, Workers}"
    using 2(2) assms(2) by (cases rt) (auto dest: login_handlers_keep_queues)
  from routed_control [OF 2 rt] obtain a where a: "rq_method r = ''POST''" "hn_controls h"
      "a \<in> {''pause'', ''resume'', ''workers''}" "mux_segments (URL_EscapedPath (stripped h r)) = [''control'', a]"
      "h' = snd (control (wi_t1 i) (wi_t2 i) (wi_t3 i) a (control_action env a) (stripped h r) h)"
    by blast
  moreover obtain who n where "authorized (wi_t1 i) (wi_t2 i) h (stripped h r) who"
      "map_of (hn_queueByName h) (FormValue r ''queue'') = Some n"
      "hn_queues h' = (hn_queues h)[n := snd (control_action env a (hn_queues h ! n) (stripped h r))]"
    using control_queues_change [of "wi_t1 i" "wi_t2 i" "wi_t3 i" a "control_action env a" "stripped h r" h] assms(2)
    unfolding form a(5) by blast
  ultimately show ?thesis by blast
qed

text \<open>
  The request of the witness escapes a letter of the route (\<open>/cq/control/pa%75se\<close>), which
  leads to the same place.
\<close>

definition escaped_request :: "string \<Rightarrow> http_request" where
  "escaped_request prefix = (token_request (prefix @ ''/control/pause''))\<lparr>rq_rawpath := prefix @ ''/control/pa%75se''\<rparr>"

lemma toy_stripped: "stripped toy_handler (escaped_request ''/cq'') = escaped_request []"
  by (simp add: stripped_def escaped_request_def token_request_def toy_request_def toy_fields TrimPrefix_def HasPrefix_def)

lemma pause_path:
  "URL_EscapedPath (escaped_request []) = ''/control/pa%75se''"
  "URL_EscapedPath (token_request ''/control/pause'') = ''/control/pause''"
  by code_simp+

lemma mux_route_pause:
  "hn_controls h \<Longrightarrow> mux_route h ''POST'' ''/control/pa%75se'' = Some Pause"
  "hn_controls h \<Longrightarrow> mux_route h ''POST'' ''/control/pause'' = Some Pause"
proof -
  have "mux_segments ''/control/pa%75se'' = [''control'', ''pause'']" "cleanPath ''/control/pa%75se'' = ''/control/pa%75se''"
      "mux_segments ''/control/pause'' = [''control'', ''pause'']" "cleanPath ''/control/pause'' = ''/control/pause''"
    by code_simp+
  then show "hn_controls h \<Longrightarrow> mux_route h ''POST'' ''/control/pa%75se'' = Some Pause"
      "hn_controls h \<Longrightarrow> mux_route h ''POST'' ''/control/pause'' = Some Pause"
    by (simp_all add: mux_route_def)
qed

text \<open>A path that is not clean is answered by the mux itself.\<close>

lemma unclean_unrouted: "cleanPath p \<noteq> p \<Longrightarrow> mux_route h m p = None"
  by (simp add: mux_route_def Let_def)

lemma toy_pause:
  "\<exists>rs h'. serve toy_env toy_inputs (escaped_request ''/cq'') toy_handler = Inr (rs, h') \<and> hn_queues h' = [True]"
proof -
  let ?c = "control 2 3 4 ''pause'' (pause_action toy_ops) (escaped_request []) toy_handler"
  have who: "identify t toy_handler (escaped_request p) = Some \<lparr>id_Subject = ''ci'', id_Via = ViaToken\<rparr>" for t p
    by (simp add: identify_def toy_fields BearerToken_def ConstantTimeCompare_eq Header_Get_def
        escaped_request_def token_request_def TrimPrefix_def HasPrefix_def)
  then have ok: "authorized t1 t2 toy_handler (escaped_request p) \<lparr>id_Subject = ''ci'', id_Via = ViaToken\<rparr>" for t1 t2 p
    by (simp add: authorized_def toy_fields AllowSignedIn_def checkCSRF_def)
  have "mux_route toy_handler ''POST'' (URL_EscapedPath (escaped_request [])) = Some Pause"
    by (simp add: pause_path mux_route_pause toy_fields)
  then have "routed (serve_route toy_env toy_inputs) http_NotFound (escaped_request ''/cq'') toy_handler = Inr ?c"
    unfolding routed_def stripped_def [symmetric] toy_stripped Let_def
    by (simp add: toy_fields escaped_request_def token_request_def toy_request_def TrimPrefix_def HasPrefix_def
        toy_env_def toy_inputs_def)
  then have "serve toy_env toy_inputs (escaped_request ''/cq'') toy_handler = Inr ?c"
    by (simp add: serve_def ServeHTTP_def gate_def Let_def who toy_fields)
      (simp add: toy_env_def)
  moreover have "FormValue (escaped_request p) ''queue'' = ''demo''" for p
    by (simp add: FormValue_def values_all_def escaped_request_def token_request_def toy_request_def)
  then have "hn_queues (snd ?c) = [True]"
    using control_accepted [OF ok, of 2 3 4 "''pause''" "pause_action toy_ops" "[]"]
    by (auto simp: toy_fields pause_action_def toy_ops_def)
  ultimately show ?thesis by (metis prod.collapse)
qed

theorem queues_change_only_by_control_witness:
  "\<exists>rs h' who. serve toy_env toy_inputs (escaped_request ''/cq'') toy_handler = Inr (rs, h') \<and>
     hn_queues h' = [True] \<and> authorized 2 3 toy_handler (escaped_request []) who"
proof -
  obtain rs h' where run: "serve toy_env toy_inputs (escaped_request ''/cq'') toy_handler = Inr (rs, h')"
      "hn_queues h' = [True]"
    using toy_pause by blast
  then have "hn_queues h' \<noteq> hn_queues toy_handler" by (simp add: toy_fields)
  with queues_change_only_by_control [OF run(1)] run show ?thesis
    by (auto simp: toy_inputs_def toy_stripped)
qed

end
