(* ===== verification/Web_Login_Laws.thy ===== *)
theory Web_Login_Laws
  imports Web_Laws
begin

text \<open>
  Logging in and out: who gets a session, that the session works, and that the redirect which
  follows stays inside the dashboard.
\<close>

subsection \<open>Redirecting\<close>

lemma HasPrefix_append: "HasPrefix (p @ r) p"
  by (simp add: HasPrefix_def)

text \<open>
  C17. The redirect after a login cannot leave the dashboard. Whatever \<open>next\<close> value a form
  carries, on a handler mounted at the root or at a path such as \<open>/cq\<close>, the target is the
  mount point or a path below it; it starts with a slash that no second slash and no
  backslash follows, so no browser reads it as another origin.
\<close>

theorem safeNext_stays_home:
  assumes "hn_prefix h = [] \<or> (\<exists>c cs. hn_prefix h = CHR ''/'' # c # cs \<and> c \<noteq> CHR ''/'' \<and> c \<noteq> CHR 0x5C)"
  shows "(HasPrefix (safeNext h next') (hn_prefix h @ ''/'') \<or> safeNext h next' = hn_prefix h) \<and>
         hd (safeNext h next') = CHR ''/'' \<and> \<not> HasPrefix (safeNext h next') ''//'' \<and>
         \<not> HasPrefix (safeNext h next') [CHR ''/'', CHR 0x5C]"
proof -
  have cases: "safeNext h next' = hn_prefix h @ ''/'' \<or>
      (\<exists>u. safeNext h next' = path_Clean (EscapedPath u) \<and>
           (HasPrefix (safeNext h next') (hn_prefix h @ ''/'') \<or> safeNext h next' = hn_prefix h))"
    unfolding safeNext_def Let_def by (auto split: option.split) metis
  show ?thesis
  proof (cases "safeNext h next' = hn_prefix h @ ''/''")
    case True
    with assms show ?thesis by (auto simp: HasPrefix_def)
  next
    case False
    with cases obtain u where u: "safeNext h next' = path_Clean (EscapedPath u)"
      and home: "HasPrefix (safeNext h next') (hn_prefix h @ ''/'') \<or> safeNext h next' = hn_prefix h" by blast
    have "path_Clean (EscapedPath u) \<noteq> []" by (auto simp: path_Clean_def Let_def)
    then have nonempty: "safeNext h next' \<noteq> []" by (simp add: u)
    with home assms have "hd (safeNext h next') = CHR ''/''"
      by (auto simp: HasPrefix_iff)
    moreover have "CHR 0x5C \<notin> set (safeNext h next')"
      using path_Clean_chars [of "EscapedPath u"] EscapedPath_no_backslash [of u] unfolding u by auto
    then have "\<not> HasPrefix (safeNext h next') [CHR ''/'', CHR 0x5C]"
      by (auto simp: HasPrefix_iff)
    ultimately show ?thesis
      using home path_Clean_no_double_slash [of "EscapedPath u"] by (simp add: u)
  qed
qed

theorem safeNext_stays_home_witness:
  "\<not> HasPrefix (safeNext (blank_handler [] :: bool handler) ''//evil.example/x'') ''//''"
  using safeNext_stays_home [of "blank_handler [] :: bool handler" "''//evil.example/x''"]
  by (simp add: blank_handler_def)

subsection \<open>Logging in\<close>

definition login_accepted ::
    "gotime \<Rightarrow> http_request \<Rightarrow> PasswordCheck \<Rightarrow> attempt_limiter \<Rightarrow> string \<Rightarrow> bool" where
  "login_accepted now r check lim subject \<longleftrightarrow>
     Cookie r loginCSRFCookie = Some (PostFormValue r ''csrf'') \<and>
     fst (allow now (client r) lim) \<and>
     check (PostFormValue r ''username'') (PostFormValue r ''password'') = (subject, True) \<and> subject \<noteq> []"

lemma cookie_names_differ: "loginCSRFCookie \<noteq> sessionCookie"
  by (simp add: loginCSRFCookie_def sessionCookie_def)

lemma loginSubmit_accepted:
  assumes "hn_login h = Some check" "hn_attempts h = Some lim" "login_accepted now r check lim subject"
  shows "\<exists>h'. loginSubmit now now' (Some bytes) r h =
      Inr (http_Redirect (safeNext h (PostFormValue r ''next''))
             [(base_cookie h r sessionCookie
                 (signSession (hn_secret h) subject (EncodeToString_b64 bytes) (now' + hn_sessionTTL h)))
                \<lparr>ck_Expires := now' + hn_sessionTTL h\<rparr>, clearCookie h r loginCSRFCookie], h') \<and>
    hn_login h' = hn_login h \<and> hn_secret h' = hn_secret h \<and> hn_revoked h' = hn_revoked h"
proof -
  obtain ok lim' where al: "allow now (client r) lim = (ok, lim')" by fastforce
  have same: "safeNext (h\<lparr>hn_attempts := a\<rparr>) n = safeNext h n"
      "base_cookie (h\<lparr>hn_attempts := a\<rparr>) r n v = base_cookie h r n v"
      "clearCookie (h\<lparr>hn_attempts := a\<rparr>) r n = clearCookie h r n" for a n v
    by (simp_all add: safeNext_def base_cookie_def clearCookie_def cookiePath_def secureCookie_def)
  show ?thesis
    using assms al
    by (simp add: loginSubmit_def login_accepted_def ConstantTimeCompare_eq newSessionID_def Let_def
        time_Add_def same)
qed

lemma loginSubmit_refused:
  assumes "hn_login h = Some check" "hn_attempts h = Some lim" "\<nexists>subject. login_accepted now r check lim subject"
  shows "\<exists>rs h'. loginSubmit now now' random r h = Inr (rs, h') \<and> rs_cookies rs = [] \<and>
    rs_status rs \<in> {401, 403, 429}"
proof -
  obtain ok lim' where al: "allow now (client r) lim = (ok, lim')" by fastforce
  obtain subject acc where cr: "check (PostFormValue r ''username'') (PostFormValue r ''password'') = (subject, acc)"
    by fastforce
  have "Cookie r loginCSRFCookie \<noteq> Some (PostFormValue r ''csrf'') \<or> \<not> ok \<or> \<not> acc \<or> subject = []"
    using assms(3) al cr by (auto simp: login_accepted_def)
  then show ?thesis
    by (auto simp: loginSubmit_def assms(1,2) al cr ConstantTimeCompare_eq Let_def renderLogin_def
        split: option.split)
qed

text \<open>
  C20. A login hands out a session exactly when everything checks out, and the session works.
  The form must echo the token of its cookie, the limiter must let the attempt through, and
  the password check must accept with a non-empty subject; otherwise no cookie at all is set
  and the answer is 401, 403 or 429. When they do, the answer redirects and sets a session
  cookie, out of reach of scripts, whose value identifies exactly that subject to the handler
  until it expires or is revoked.
\<close>

theorem login_grants_working_session:
  assumes "hn_login h = Some check" "hn_attempts h = Some lim"
    and "loginSubmit now now' (Some bytes) r h = Inr (rs, h')"
    and "- 9223372036854775808000000000 \<le> now' + hn_sessionTTL h"
    and "now' + hn_sessionTTL h \<le> 9223372036854775807000000000"
  shows "((\<nexists>subject. login_accepted now r check lim subject) \<longrightarrow>
            rs_cookies rs = [] \<and> rs_status rs \<in> {401, 403, 429}) \<and>
         (\<forall>subject. login_accepted now r check lim subject \<longrightarrow>
            rs_status rs = 303 \<and>
            (\<exists>c rest. rs_cookies rs = c # rest \<and> ck_Name c = sessionCookie \<and> ck_HttpOnly c \<and> ck_SameSiteLax c \<and>
               (\<forall>t r'. CookiesNamed r' sessionCookie = [ck_Value c] \<and>
                       t \<le> whole_second (now' + hn_sessionTTL h) \<and>
                       (\<forall>dead. hn_revoked h = Some dead \<longrightarrow> \<not> isRevoked t dead (EncodeToString_b64 bytes)) \<longrightarrow>
                  identify t h' r' = Some \<lparr>id_Subject = subject, id_Via = ViaSession\<rparr>)))"
proof (intro conjI impI allI)
  assume "\<nexists>subject. login_accepted now r check lim subject"
  from loginSubmit_refused [OF assms(1,2) this, of now' "Some bytes"] assms(3)
  show "rs_cookies rs = []" "rs_status rs \<in> {401, 403, 429}" by auto
next
  fix subject assume acc: "login_accepted now r check lim subject"
  let ?v = "signSession (hn_secret h) subject (EncodeToString_b64 bytes) (now' + hn_sessionTTL h)"
  let ?c = "(base_cookie h r sessionCookie ?v)\<lparr>ck_Expires := now' + hn_sessionTTL h\<rparr>"
  have rs: "rs = http_Redirect (safeNext h (PostFormValue r ''next'')) [?c, clearCookie h r loginCSRFCookie]"
    and h': "hn_login h' = hn_login h" "hn_secret h' = hn_secret h" "hn_revoked h' = hn_revoked h"
    using loginSubmit_accepted [OF assms(1,2) acc, of now' bytes] assms(3) by auto
  show "rs_status rs = 303" by (simp add: rs http_Redirect_def)
  have "identify t h' r' = Some \<lparr>id_Subject = subject, id_Via = ViaSession\<rparr>"
    if "CookiesNamed r' sessionCookie = [?v]" "t \<le> whole_second (now' + hn_sessionTTL h)"
      "\<forall>dead. hn_revoked h = Some dead \<longrightarrow> \<not> isRevoked t dead (EncodeToString_b64 bytes)" for t r'
  proof -
    have "verifySession t t (hn_secret h) (hn_revoked h) ?v =
        Some \<lparr>se_Subject = subject, se_ID = EncodeToString_b64 bytes,
              se_Expiry = whole_second (now' + hn_sessionTTL h)\<rparr>"
      using that(2,3) acc
      by (subst verifySession_signed [OF b64_no_dot _ assms(4,5)])
        (auto simp: login_accepted_def After_def split: option.split)
    with that(1) h' assms(1) show ?thesis
      by (simp add: identify_def sessionSubject_def sessionFrom_def)
  qed
  then show "\<exists>c rest. rs_cookies rs = c # rest \<and> ck_Name c = sessionCookie \<and> ck_HttpOnly c \<and> ck_SameSiteLax c \<and>
               (\<forall>t r'. CookiesNamed r' sessionCookie = [ck_Value c] \<and>
                       t \<le> whole_second (now' + hn_sessionTTL h) \<and>
                       (\<forall>dead. hn_revoked h = Some dead \<longrightarrow> \<not> isRevoked t dead (EncodeToString_b64 bytes)) \<longrightarrow>
                  identify t h' r' = Some \<lparr>id_Subject = subject, id_Via = ViaSession\<rparr>)"
    by (intro exI [of _ ?c] exI [of _ "[clearCookie h r loginCSRFCookie]"])
      (simp add: rs http_Redirect_def base_cookie_def)
qed

definition login_handler :: "bool handler" where
  "login_handler = WithLogin (Some (StaticPassword ''ada'' ''pw'')) ''key'' 0 (blank_handler [])"

definition login_request :: http_request where
  "login_request =
     (toy_request ''POST'' ''/login'')
       \<lparr>rq_cookies := [(loginCSRFCookie, ''tok'')],
        rq_body := [(''csrf'', [''tok'']), (''username'', [''ada'']), (''password'', [''pw''])]\<rparr>"

lemma login_handler_fields:
  "hn_login login_handler = Some (StaticPassword ''ada'' ''pw'')"
  "hn_attempts login_handler = Some (newAttemptLimiter loginBurst loginWindow)"
  "hn_revoked login_handler = Some []" "hn_sessionTTL login_handler = 12 * Hour"
  by (simp_all add: login_handler_def WithLogin_def blank_handler_def DefaultSessionTTL_def newRevocations_def)

lemma login_request_accepted:
  "login_accepted 5 login_request (StaticPassword ''ada'' ''pw'') (newAttemptLimiter loginBurst loginWindow) ''ada''"
  by (simp add: login_accepted_def login_request_def toy_request_def Cookie_def CookiesNamed_def PostFormValue_def
      values_Get_def values_all_def allow_def newAttemptLimiter_def StaticPassword_def ConstantTimeCompare_eq Let_def)

theorem login_grants_working_session_witness:
  "\<exists>rs h' c rest. loginSubmit 5 6 (Some ''abcdefghijklmnop'') login_request login_handler = Inr (rs, h') \<and>
     rs_cookies rs = c # rest \<and>
     identify 7 h' (login_request\<lparr>rq_cookies := [(sessionCookie, ck_Value c)]\<rparr>) =
       Some \<lparr>id_Subject = ''ada'', id_Via = ViaSession\<rparr>"
proof -
  obtain rs h' where run: "loginSubmit 5 6 (Some ''abcdefghijklmnop'') login_request login_handler = Inr (rs, h')"
    using loginSubmit_accepted [OF login_handler_fields(1,2) login_request_accepted] by blast
  have ttl: "- 9223372036854775808000000000 \<le> 6 + hn_sessionTTL login_handler"
      "6 + hn_sessionTTL login_handler \<le> 9223372036854775807000000000"
    by (simp_all add: login_handler_fields)
  from login_grants_working_session [OF login_handler_fields(1,2) run ttl] login_request_accepted
  obtain c rest where c: "rs_cookies rs = c # rest" and
      known: "\<And>t r'. CookiesNamed r' sessionCookie = [ck_Value c] \<Longrightarrow> t \<le> whole_second (6 + hn_sessionTTL login_handler) \<Longrightarrow>
         (\<forall>dead. hn_revoked login_handler = Some dead \<longrightarrow>
            \<not> isRevoked t dead (EncodeToString_b64 ''abcdefghijklmnop'')) \<Longrightarrow>
         identify t h' r' = Some \<lparr>id_Subject = ''ada'', id_Via = ViaSession\<rparr>"
    by blast
  have "identify 7 h' (login_request\<lparr>rq_cookies := [(sessionCookie, ck_Value c)]\<rparr>) =
      Some \<lparr>id_Subject = ''ada'', id_Via = ViaSession\<rparr>"
    by (rule known) (simp_all add: CookiesNamed_def login_handler_fields isRevoked_def whole_second_def)
  with run c show ?thesis by blast
qed

text \<open>
  The login page carries the token that guards its form, but the header that forbids caching
  it is set after the status line has gone out.
\<close>

lemma login_page_cacheable:
  "loginForm (Some bytes) r h = Inr (rs, h') \<Longrightarrow>
   rs_body rs = LoginPage [] (Query_Get r ''next'') (EncodeToString_hex bytes) \<and>
   map_of (rs_header rs) ''Cache-Control'' = None"
  by (auto simp: loginForm_def newCSRFToken_def renderLogin_def)

text \<open>The bearer scheme is optional: the bare token is accepted as well.\<close>

lemma BearerToken_without_scheme:
  "BearerToken ''ci'' ''s3cret'' ((toy_request ''GET'' ''/'')\<lparr>rq_header := [(''Authorization'', ''s3cret'')]\<rparr>) =
     (''ci'', True)"
  by (simp add: BearerToken_def Header_Get_def ConstantTimeCompare_eq TrimPrefix_def HasPrefix_def)

end
