(* ===== verification/Go_Float.thy ===== *)
theory Go_Float
  imports Go_Strings Complex_Main "HOL-Library.Log_Nat"
begin

text \<open>
  The \<open>float64\<close> arithmetic behind the figures of the pages. A finite value is the rational it
  denotes, and each operation of Go rounds the exact result to a value with 53 significant
  bits, ties to even. The program only forms values between \<open>2\<close> to the power -63 and 70, far
  from the limits of the exponent, so there is no overflow and there are no subnormals here.
  \<open>strconv.FormatFloat\<close> with format \<open>f\<close> rounds the exact value to decimals, again ties to even.
\<close>

subsection \<open>Rounding\<close>

definition round_even :: "rat \<Rightarrow> int" where
  "round_even x =
     (let n = \<lfloor>x\<rfloor>; r = x - of_int n
      in if r < 1 / 2 then n else if r > 1 / 2 then n + 1 else if even n then n else n + 1)"

lemma round_even_error: "\<bar>of_int (round_even x) - x\<bar> \<le> 1 / 2"
proof -
  have "of_int \<lfloor>x\<rfloor> \<le> x" "x < of_int \<lfloor>x\<rfloor> + 1" by linarith+
  then show ?thesis by (auto simp: round_even_def Let_def abs_le_iff)
qed

text \<open>The exponent of the leading bit of a positive fraction.\<close>

definition frac_exp :: "int \<Rightarrow> int \<Rightarrow> int" where
  "frac_exp p q =
     (let e = bitlen p - bitlen q
      in if (2::rat) powi e * of_int q \<le> of_int p then e else e - 1)"

definition float64 :: "rat \<Rightarrow> rat" where
  "float64 x =
     (if x = 0 then 0
      else let (p, q) = quotient_of \<bar>x\<bar>; u = (2::rat) powi (frac_exp p q - 52)
           in sgn x * (of_int (round_even (\<bar>x\<bar> / u)) * u))"

lemma powi_two_pos: "(0::rat) < 2 powi e"
  by (simp add: zero_less_power_int)

lemma frac_exp_le:
  assumes "0 < p" "0 < q"
  shows "(2::rat) powi (frac_exp p q) * of_int q \<le> of_int p"
proof (cases "(2::rat) powi (bitlen p - bitlen q) * of_int q \<le> of_int p")
  case True
  then show ?thesis by (simp add: frac_exp_def)
next
  case False
  have p: "2 ^ nat (bitlen p - 1) \<le> p" and q: "q < 2 ^ nat (bitlen q)"
    using bitlen_bounds assms by blast+
  have b: "1 \<le> bitlen p" "0 \<le> bitlen q" using assms bitlen_nonneg [of q] bitlen_nonneg [of p] bitlen_eq_zero_iff [of p] by linarith+
  have "of_int q \<le> (of_int (2 ^ nat (bitlen q)) :: rat)" using q by (simp only: of_int_le_iff less_imp_le)
  then have "of_int q \<le> (2::rat) powi bitlen q" using b(2) by (simp add: power_int_nonneg_exp)
  then have "(2::rat) powi (bitlen p - bitlen q - 1) * of_int q \<le> 2 powi (bitlen p - bitlen q - 1) * 2 powi bitlen q"
    by (intro mult_left_mono) (simp_all add: less_imp_le powi_two_pos)
  also have "\<dots> = 2 powi (bitlen p - 1)" by (simp flip: power_int_add)
  also have "\<dots> = of_int (2 ^ nat (bitlen p - 1))" using b(1) by (simp add: power_int_nonneg_exp)
  also have "\<dots> \<le> of_int p" using p by (simp only: of_int_le_iff)
  finally show ?thesis using False by (simp add: frac_exp_def)
qed

text \<open>The relative error of one rounding, and the values on which it is exact.\<close>

lemma float64_error: "\<bar>float64 x - x\<bar> \<le> \<bar>x\<bar> / 2 ^ 53"
proof (cases "x = 0")
  case True
  then show ?thesis by (simp add: float64_def)
next
  case False
  obtain p q where pq: "quotient_of \<bar>x\<bar> = (p, q)" by (cases "quotient_of \<bar>x\<bar>")
  then have q: "0 < q" and x: "\<bar>x\<bar> = of_int p / of_int q"
    using quotient_of_denom_pos quotient_of_div by blast+
  then have "0 < p" using False by (metis abs_ge_zero divide_le_0_iff less_le not_less of_int_0_less_iff of_int_le_0_iff zero_less_abs_iff)
  define u where "u = (2::rat) powi (frac_exp p q - 52)"
  have u: "0 < u" by (simp add: u_def powi_two_pos)
  have "2 powi (frac_exp p q) \<le> \<bar>x\<bar>"
    using frac_exp_le [OF \<open>0 < p\<close> q] q by (simp add: x pos_le_divide_eq)
  moreover have "u * 2 ^ 52 = 2 powi (frac_exp p q)"
  proof -
    have "u * 2 powi 52 = 2 powi (frac_exp p q - 52 + 52)"
      unfolding u_def by (rule power_int_add [symmetric]) simp
    then show ?thesis by simp
  qed
  ultimately have small: "u / 2 \<le> \<bar>x\<bar> / 2 ^ 53" by simp
  have "float64 x - x = sgn x * (of_int (round_even (\<bar>x\<bar> / u)) * u) - sgn x * \<bar>x\<bar>"
    using False by (simp add: float64_def pq flip: u_def) (simp add: sgn_mult_abs)
  then have "\<bar>float64 x - x\<bar> = \<bar>sgn x * (of_int (round_even (\<bar>x\<bar> / u)) * u - \<bar>x\<bar>)\<bar>"
    by (simp only: right_diff_distrib)
  also have "\<dots> = \<bar>of_int (round_even (\<bar>x\<bar> / u)) * u - \<bar>x\<bar>\<bar>"
    using False by (simp add: abs_mult abs_sgn_eq)
  also have "\<dots> = \<bar>of_int (round_even (\<bar>x\<bar> / u)) - \<bar>x\<bar> / u\<bar> * u"
  proof -
    have "of_int (round_even (\<bar>x\<bar> / u)) * u - \<bar>x\<bar> = (of_int (round_even (\<bar>x\<bar> / u)) - \<bar>x\<bar> / u) * u"
      using u by (simp add: field_simps)
    then show ?thesis using u by (simp add: abs_mult)
  qed
  also have "\<dots> \<le> 1 / 2 * u"
    using round_even_error [of "\<bar>x\<bar> / u"] u by (intro mult_right_mono) simp_all
  finally show ?thesis using small by linarith
qed

lemma float64_near:
  assumes "\<bar>x\<bar> \<le> b"
  shows "\<bar>float64 x - x\<bar> \<le> b / 2 ^ 53"
proof -
  have "\<bar>x\<bar> / 2 ^ 53 \<le> b / 2 ^ 53" using assms by (intro divide_right_mono) simp_all
  with float64_error [of x] show ?thesis by linarith
qed

lemma float64_nonneg:
  assumes "0 \<le> x"
  shows "0 \<le> float64 x"
proof -
  have "x / 2 ^ 53 \<le> x" using assms by simp
  with float64_error [of x] assms show ?thesis by linarith
qed

lemma round_even_ge: "of_int k \<le> x \<Longrightarrow> k \<le> round_even x"
  by (auto simp: round_even_def Let_def le_floor_iff le_add1 intro: order_trans [of k "\<lfloor>x\<rfloor>"])

lemma float64_grid:
  assumes "0 < x"
  obtains e where "2 powi e \<le> x"
    and "float64 x = of_int (round_even (x / 2 powi (e - 52))) * 2 powi (e - 52)"
proof -
  obtain p q where pq: "quotient_of x = (p, q)" by (cases "quotient_of x")
  then have q: "0 < q" and x: "x = of_int p / of_int q"
    using quotient_of_denom_pos quotient_of_div by blast+
  then have "0 < p" using assms by (simp add: zero_less_divide_iff)
  from frac_exp_le [OF this q] q have "2 powi (frac_exp p q) \<le> x" by (simp add: x pos_le_divide_eq)
  then show ?thesis using assms pq by (intro that) (simp_all add: float64_def Let_def)
qed

text \<open>Rounding does not cross a whole number from above: they are all on the grid.\<close>

lemma float64_ge_int:
  assumes "0 \<le> m" "m \<le> 2 ^ 53" "of_int m \<le> x"
  shows "of_int m \<le> float64 x"
proof (cases "m = 0")
  case True
  then show ?thesis using assms(3) by (simp add: float64_nonneg)
next
  case False
  then have "(1::rat) \<le> of_int m" using assms(1) by (simp add: int_one_le_iff_zero_less)
  then have "0 < x" using assms(3) by linarith
  then obtain e where e: "2 powi e \<le> x"
    and fx: "float64 x = of_int (round_even (x / 2 powi (e - 52))) * 2 powi (e - 52)"
    by (rule float64_grid)
  let ?u = "2 powi (e - 52) :: rat"
  have u: "0 < ?u" by (rule powi_two_pos)
  have on_grid: "of_int m \<le> float64 x" if "of_int k * ?u \<le> x" "of_int m \<le> of_int k * ?u" for k
  proof -
    have "of_int k \<le> x / ?u" using that(1) u by (simp add: pos_le_divide_eq)
    then have "of_int k \<le> (of_int (round_even (x / ?u)) :: rat)" by (simp add: round_even_ge)
    then have "of_int k * ?u \<le> float64 x" unfolding fx using u by (intro mult_right_mono) simp_all
    with that(2) show ?thesis by linarith
  qed
  show ?thesis
  proof (cases "e \<le> 52")
    case True
    have "(2::rat) ^ nat (52 - e) * ?u = 2 powi (52 - e + (e - 52))"
      using True by (subst power_int_add) (simp_all add: power_int_nonneg_exp)
    then have "of_int (m * 2 ^ nat (52 - e)) * ?u = of_int m" by (simp add: mult.assoc)
    with assms(3) show ?thesis by (intro on_grid [of "m * 2 ^ nat (52 - e)"]) (simp_all only: order_refl)
  next
    case False
    have "2 powi 52 * ?u = 2 powi (52 + (e - 52))" by (rule power_int_add [symmetric]) simp
    then have top: "of_int (2 ^ 52) * ?u = 2 powi e" by simp
    have "(2::rat) powi 53 \<le> 2 powi e" using False by (intro power_int_increasing) simp_all
    moreover have "of_int m \<le> (of_int (2 ^ 53) :: rat)" using assms(2) by (simp only: of_int_le_iff)
    ultimately have "of_int m \<le> (2::rat) powi e" by simp
    with e top show ?thesis by (intro on_grid [of "2 ^ 52"]) simp_all
  qed
qed

lemma round_even_of_int: "round_even (of_int k) = k"
  by (simp add: round_even_def)

lemma float64_int:
  assumes "0 \<le> n" "n < 2 ^ 53"
  shows "float64 (of_int n) = of_int n"
proof (cases "n = 0")
  case True
  then show ?thesis by (simp add: float64_def)
next
  case False
  then have "0 < (of_int n :: rat)" using assms(1) by simp
  then obtain e where e: "2 powi e \<le> (of_int n :: rat)"
    and fx: "float64 (of_int n) = of_int (round_even (of_int n / 2 powi (e - 52))) * 2 powi (e - 52)"
    by (rule float64_grid)
  have "of_int n < (of_int (2 ^ 53) :: rat)" using assms(2) by (simp only: of_int_less_iff)
  then have "2 powi e < (2::rat) powi 53" using e by simp
  moreover have "(2::rat) powi 53 \<le> 2 powi e" if "\<not> e \<le> 52"
    using that by (intro power_int_increasing) simp_all
  ultimately have le: "e \<le> 52" by linarith
  have "of_int n / 2 powi (e - 52) = (of_int n * 2 powi (52 - e) :: rat)"
    using power_int_minus_divide [of "2::rat" "e - 52"] by simp
  also have "\<dots> = of_int (n * 2 ^ nat (52 - e))" using le by (simp add: power_int_nonneg_exp)
  finally have grid: "of_int n / 2 powi (e - 52) = (of_int (n * 2 ^ nat (52 - e)) :: rat)" .
  then have "float64 (of_int n) = of_int n / 2 powi (e - 52) * 2 powi (e - 52)"
    unfolding fx by (simp only: round_even_of_int)
  then show ?thesis by simp
qed

subsection \<open>Conversions\<close>

text \<open>\<open>int(f)\<close> drops the fraction.\<close>

definition float_to_int :: "rat \<Rightarrow> int" where
  "float_to_int x = (if x < 0 then \<lceil>x\<rceil> else \<lfloor>x\<rfloor>)"

definition FormatFloat_f :: "nat \<Rightarrow> rat \<Rightarrow> string" where
  "FormatFloat_f prec x =
     (let n = nat (round_even (\<bar>x\<bar> * 10 ^ prec))
      in (if x < 0 then ''-'' else []) @ format_nat (n div 10 ^ prec) @
         (if prec = 0 then []
          else ''.'' @ map (\<lambda>i. digit_char (n div 10 ^ i mod 10)) (rev [0..<prec])))"

subsection \<open>Durations as floating-point numbers\<close>

text \<open>\<open>Duration.Seconds\<close>, \<open>Minutes\<close> and \<open>Hours\<close>: the whole units plus the remaining nanoseconds.\<close>

definition float_units :: "int \<Rightarrow> duration \<Rightarrow> rat" where
  "float_units w d =
     float64 (float64 (of_int (d sdiv w)) + float64 (float64 (of_int (d smod w)) / of_int w))"

definition Seconds :: "duration \<Rightarrow> rat" where "Seconds d = float_units Second d"
definition Minutes :: "duration \<Rightarrow> rat" where "Minutes d = float_units Minute d"
definition Hours :: "duration \<Rightarrow> rat" where "Hours d = float_units Hour d"

definition Milliseconds :: "duration \<Rightarrow> int" where
  "Milliseconds d = d sdiv Millisecond"

text \<open>
  Away from the limits of the 53 bits, counting whole units through a \<open>float64\<close> is exact: the
  fraction stays far enough below 1 for the rounding not to reach the next unit.
\<close>

lemma float_units_near:
  assumes "0 \<le> d" "0 < w" "w < 2 ^ 53" "d div w < 2 ^ 53"
  shows "of_int (d div w) \<le> float_units w d"
    and "\<bar>float_units w d - of_int d / of_int w\<bar> \<le> of_int (d div w + 3) / 2 ^ 53"
proof -
  let ?m = "d div w" and ?n = "d mod w"
  define b :: rat where "b = float64 (of_int ?n / of_int w)"
  have m: "0 \<le> ?m" "?m < 2 ^ 53" and n: "0 \<le> ?n" "?n < w" "?n < 2 ^ 53"
    using assms pos_mod_bound [OF assms(2), of d] less_trans [of "d mod w" w "2 ^ 53"]
    by (simp_all add: pos_imp_zdiv_nonneg_iff)
  have eq: "float_units w d = float64 (of_int ?m + b)"
    using assms m n by (simp add: float_units_def b_def sdiv_nonneg smod_nonneg float64_int)
  have frac: "0 \<le> (of_int ?n / of_int w :: rat)" "(of_int ?n / of_int w :: rat) \<le> 1"
    using assms(2) n by (simp_all add: pos_divide_le_eq)
  have b: "0 \<le> b" "\<bar>b - of_int ?n / of_int w\<bar> \<le> 1 / 2 ^ 53"
    using float64_nonneg [OF frac(1)] float64_near [of "of_int ?n / of_int w" 1] frac by (simp_all add: b_def)
  show "of_int ?m \<le> float_units w d"
    unfolding eq using m b(1) by (intro float64_ge_int) simp_all
  have "d = ?m * w + ?n" by simp
  then have "(of_int d :: rat) = of_int ?m * of_int w + of_int ?n" by (metis of_int_add of_int_mult)
  then have sum: "of_int d / of_int w = (of_int ?m + of_int ?n / of_int w :: rat)"
    using assms(2) by (simp add: field_simps)
  have "(1::rat) / 2 ^ 53 \<le> 1" by simp
  then have "b \<le> 2" using b(2) frac(2) by linarith
  moreover have "(0::rat) \<le> of_int ?m" using m(1) by simp
  ultimately have "\<bar>of_int ?m + b\<bar> \<le> of_int (?m + 2)" using b(1) by simp
  from float64_near [OF this] b(2)
  have "\<bar>float_units w d - of_int d / of_int w\<bar> \<le> of_int (?m + 2) / 2 ^ 53 + 1 / 2 ^ 53"
    unfolding eq sum by linarith
  then show "\<bar>float_units w d - of_int d / of_int w\<bar> \<le> of_int (?m + 3) / 2 ^ 53"
    by (simp add: add_divide_distrib)
qed

lemma float_units_floor:
  assumes "0 \<le> d" "0 < w" "w * (d div w + 3) < 2 ^ 53"
  shows "float_to_int (float_units w d) = d div w"
proof -
  let ?m = "d div w"
  have m: "0 \<le> ?m" using assms by (simp add: pos_imp_zdiv_nonneg_iff)
  have "1 * (?m + 3) \<le> w * (?m + 3)" "w * 1 \<le> w * (?m + 3)"
    using m assms(2) by (intro mult_right_mono mult_left_mono; simp)+
  then have "?m + 3 < 2 ^ 53" "w < 2 ^ 53" using le_less_trans [OF _ assms(3)] by simp_all
  then have small: "w < 2 ^ 53" "?m < 2 ^ 53" by linarith+
  note near = float_units_near [OF assms(1,2) small]
  have "d + 1 \<le> (?m + 1) * w" using pos_mod_bound [OF assms(2), of d] by (simp add: algebra_simps minus_mod_eq_mult_div [symmetric])
  then have "(of_int (d + 1) :: rat) \<le> of_int ((?m + 1) * w)" by (simp only: of_int_le_iff)
  then have "of_int d / of_int w + 1 / of_int w \<le> (of_int (?m + 1) :: rat)"
    using assms(2) by (simp add: pos_divide_le_eq add_divide_distrib [symmetric])
  moreover have "(of_int (?m + 3) :: rat) / 2 ^ 53 < 1 / of_int w"
  proof -
    have "(of_int (w * (?m + 3)) :: rat) < of_int (2 ^ 53)" using assms(3) by (simp only: of_int_less_iff)
    then show ?thesis using assms(2) by (simp add: field_simps)
  qed
  ultimately have "float_units w d < of_int (?m + 1)" using near(2) by linarith
  with near(1) have "\<lfloor>float_units w d\<rfloor> = ?m" by (simp add: floor_eq_iff)
  moreover have "0 \<le> float_units w d" using near(1) m by (metis of_int_0_le_iff order_trans)
  ultimately show ?thesis by (simp add: float_to_int_def)
qed

end
