(* ===== verification/Web_Format.thy ===== *)
theory Web_Format
  imports Web_Status Go_Float Go_Encoding
begin

text \<open>
  The helpers the templates call (\<open>funcs\<close> of \<open>web/handler.go\<close>) and \<open>compactDuration\<close>, byte for
  byte and with the floating-point arithmetic of the code, and what they show. The rendering
  of a wall-clock time is the parameter \<open>clock\<close>; \<open>prefix\<close>, \<open>statusGroup\<close> and \<open>statusHelp\<close> are the
  prefix of the handler and two functions of \<open>web/status.go\<close>.
\<close>

subsection \<open>Durations\<close>

definition micro_sign :: string where "micro_sign = [chr 194, chr 181]"
definition em_dash :: string where "em_dash = [chr 226, chr 128, chr 148]"
definition middle_dot :: string where "middle_dot = [chr 194, chr 183]"

definition compactDuration :: "duration \<Rightarrow> string" where
  "compactDuration d =
     (if d < Millisecond then FormatInt (Microseconds d) @ micro_sign @ ''s''
      else if d < Second then
        (if d < 10 * Millisecond
         then FormatFloat_f 1 (float64 (float64 (of_int (Microseconds d)) / 1000)) @ ''ms''
         else FormatInt (Milliseconds d) @ ''ms'')
      else if d < Minute then FormatFloat_f 1 (Seconds d) @ ''s''
      else if d < Hour
      then Itoa (float_to_int (Minutes d)) @ ''m '' @ Itoa (float_to_int (Seconds d) smod 60) @ ''s''
      else if d < 24 * Hour
      then Itoa (float_to_int (Hours d)) @ ''h '' @ Itoa (float_to_int (Minutes d) smod 60) @ ''m''
      else Itoa (float_to_int (Hours d) sdiv 24) @ ''d '' @ Itoa (float_to_int (Hours d) smod 24) @ ''h'')"

subsection \<open>Template helpers\<close>

text \<open>A template argument: a string, or a value of another type.\<close>

datatype 'v any = AnyString string | AnyOther 'v

fun dict_pairs :: "'v any list \<Rightarrow> (string, 'v any) gomap \<Rightarrow> string + (string, 'v any) gomap" where
  "dict_pairs (AnyString key # v # pairs) out = dict_pairs pairs (AList.update key v out)"
| "dict_pairs (AnyOther _ # _ # pairs) out = Inl ''dict: keys must be strings''"
| "dict_pairs _ out = Inr out"

definition dict :: "'v any list \<Rightarrow> string + (string, 'v any) gomap" where
  "dict pairs = (if length pairs mod 2 \<noteq> 0 then Inl ''dict: odd number of arguments'' else dict_pairs pairs [])"

definition since :: "gotime \<Rightarrow> gotime \<Rightarrow> string" where
  "since now tt = (if IsZero tt then em_dash else compactDuration (time_Sub now tt) @ '' ago'')"

definition until :: "gotime \<Rightarrow> gotime \<Rightarrow> string" where
  "until now tt =
     (if IsZero tt then em_dash
      else let remaining = time_Sub tt now
           in if remaining \<le> 0 then ''due'' else ''in '' @ compactDuration remaining)"

definition us :: "int \<Rightarrow> string" where
  "us v = (if v = 0 then em_dash else compactDuration (int64 (v * Microsecond)))"

definition dur :: "duration \<Rightarrow> string" where
  "dur d = (if d = 0 then em_dash else compactDuration d)"

definition clock_text :: "(gotime \<Rightarrow> string) \<Rightarrow> gotime \<Rightarrow> string" where
  "clock_text clock tt = (if IsZero tt then em_dash else clock tt)"

definition tries :: "int \<Rightarrow> int" where
  "tries attempt = int64 (attempt + 1)"

definition progress :: "job \<Rightarrow> string" where
  "progress j =
     (if job_ProgressTotal j \<le> 0 then job_ProgressStage j
      else let done' = float64 (float64 (float64 (of_int (job_ProgressCompleted j)) /
                                         float64 (of_int (job_ProgressTotal j))) * 100);
               label = FormatFloat_f 0 done' @ ''%''
           in if job_ProgressStage j \<noteq> [] then label @ '' '' @ middle_dot @ '' '' @ job_ProgressStage j
              else label)"

subsection \<open>What they show\<close>

definition tenths :: "nat \<Rightarrow> string" where
  "tenths t = format_nat (t div 10) @ ''.'' @ [digit_char (t mod 10)]"

lemma FormatFloat_tenths: "0 \<le> x \<Longrightarrow> FormatFloat_f 1 x = tenths (nat (round_even (x * 10)))"
  by (simp add: FormatFloat_f_def tenths_def Let_def)

lemma round_even_nonneg: "0 \<le> x \<Longrightarrow> 0 \<le> round_even x"
  using round_even_ge [of 0 x] by simp

lemma abs_diff_scale: "0 < w \<Longrightarrow> \<bar>a - b\<bar> * w = \<bar>a * w - b * (w :: rat)\<bar>"
  by (simp add: left_diff_distrib abs_mult_pos)

text \<open>One decimal of a value that stands for \<open>k\<close> steps of \<open>20 * h\<close> to the unit is within half a decimal.\<close>

lemma tenths_near:
  assumes "0 \<le> x" "0 < h" "\<bar>x - of_int k / of_int (20 * h)\<bar> \<le> e" "e * of_int (20 * h) < 1"
  shows "\<bar>int (nat (round_even (x * 10))) * (2 * h) - k\<bar> \<le> h"
proof -
  let ?t = "round_even (x * 10)" and ?w = "of_int (20 * h) :: rat"
  have w: "0 < ?w" using assms(2) by simp
  have "\<bar>of_int ?t - x * 10\<bar> * (?w / 10) \<le> 1 / 2 * (?w / 10)"
    using round_even_error [of "x * 10"] w by (intro mult_right_mono) simp_all
  moreover have "\<bar>of_int ?t - x * 10\<bar> * (?w / 10) = \<bar>of_int ?t * (?w / 10) - x * ?w\<bar>"
    using abs_diff_scale [of "?w / 10" "of_int ?t" "x * 10"] w by (simp add: algebra_simps)
  moreover have "\<bar>x - of_int k / ?w\<bar> * ?w \<le> e * ?w" using assms(3) w by (intro mult_right_mono) simp_all
  moreover have "\<bar>x - of_int k / ?w\<bar> * ?w = \<bar>x * ?w - of_int k\<bar>"
    using abs_diff_scale [of ?w x "of_int k / ?w"] w by simp
  ultimately have "\<bar>of_int ?t * (?w / 10) - of_int k\<bar> < ?w / 20 + 1" using assms(4) by linarith
  then have "\<bar>of_int (?t * (2 * h) - k)\<bar> < (of_int (h + 1) :: rat)" by simp
  then have "\<bar>?t * (2 * h) - k\<bar> < h + 1" by (simp only: of_int_abs [symmetric] of_int_less_iff)
  then show ?thesis using round_even_nonneg [of "x * 10"] assms(1) by simp
qed

lemma Seconds_tenths:
  assumes "0 \<le> d" "d < Minute"
  shows "\<exists>t. FormatFloat_f 1 (Seconds d) = tenths t \<and> \<bar>int t * 100000000 - d\<bar> \<le> 50000000"
proof -
  have small: "Second < 2 ^ 53" "d div Second < 2 ^ 53" "0 < Second" using assms by simp_all
  note near = float_units_near [OF assms(1) small(3,1,2)]
  have "0 \<le> d div Second" using assms by (simp add: pos_imp_zdiv_nonneg_iff)
  then have x: "0 \<le> Seconds d" unfolding Seconds_def using near(1) by (metis of_int_0_le_iff order_trans)
  have "d div Second + 3 \<le> 63" using assms(2) by simp
  then have "(of_int (d div Second + 3) :: rat) \<le> of_int 63" by (simp only: of_int_le_iff)
  then have "(of_int (d div Second + 3) :: rat) / 2 ^ 53 \<le> 63 / 2 ^ 53" by (intro divide_right_mono) simp_all
  with near(2) have "\<bar>Seconds d - of_int d / of_int (20 * 50000000)\<bar> \<le> 63 / 2 ^ 53"
    by (simp add: Seconds_def)
  from tenths_near [OF x _ this] FormatFloat_tenths [OF x] show ?thesis by auto
qed

lemma micros_tenths:
  assumes "0 \<le> u" "u < 10000"
  shows "\<exists>t. FormatFloat_f 1 (float64 (float64 (of_int u) / 1000)) = tenths t \<and> \<bar>int t * 100 - u\<bar> \<le> 50"
proof -
  let ?x = "float64 (of_int u / 1000)"
  have exact: "float64 (of_int u) = of_int u" using assms by (simp add: float64_int)
  have x: "0 \<le> ?x" using assms by (intro float64_nonneg) simp
  have "(of_int u :: rat) < of_int 10000" using assms(2) by (simp only: of_int_less_iff)
  then have "\<bar>of_int u / 1000 :: rat\<bar> \<le> 10" using assms(1) by simp
  from float64_near [OF this] have "\<bar>?x - of_int u / of_int (20 * 50)\<bar> \<le> 10 / 2 ^ 53" by simp
  from tenths_near [OF x _ this] FormatFloat_tenths [OF x] exact show ?thesis by auto
qed

text \<open>
  C39. Durations are shown accurately. Below a hundred days, \<open>compactDuration\<close> shows the exact
  count of whole microseconds or milliseconds, the seconds within half a tenth (and
  milliseconds below ten likewise, of the microseconds), and from a minute on the two leading
  units of the duration, rounded down: going through \<open>float64\<close> loses nothing there.
\<close>

theorem compactDuration_accurate:
  assumes "0 \<le> d" "d < 2400 * Hour"
  shows "if d < Millisecond then compactDuration d = Itoa (d div Microsecond) @ micro_sign @ ''s''
    else if d < 10 * Millisecond then
      \<exists>t. compactDuration d = tenths t @ ''ms'' \<and> \<bar>int t * 100 - d div Microsecond\<bar> \<le> 50
    else if d < Second then compactDuration d = Itoa (d div Millisecond) @ ''ms''
    else if d < Minute then
      \<exists>t. compactDuration d = tenths t @ ''s'' \<and> \<bar>int t * 100000000 - d\<bar> \<le> 50000000
    else if d < Hour then
      compactDuration d = Itoa (d div Minute) @ ''m '' @ Itoa (d div Second mod 60) @ ''s''
    else if d < 24 * Hour then
      compactDuration d = Itoa (d div Hour) @ ''h '' @ Itoa (d div Minute mod 60) @ ''m''
    else compactDuration d = Itoa (d div (24 * Hour)) @ ''d '' @ Itoa (d div Hour mod 24) @ ''h''"
proof -
  have units: "float_to_int (Seconds d) = d div Second" if "d < Hour"
    using assms(1) that unfolding Seconds_def by (intro float_units_floor) simp_all
  have units': "float_to_int (Minutes d) = d div Minute" if "d < 24 * Hour"
    using assms(1) that unfolding Minutes_def by (intro float_units_floor) simp_all
  have units'': "float_to_int (Hours d) = d div Hour"
    using assms unfolding Hours_def by (intro float_units_floor) simp_all
  have days: "d div 86400000000000 = d div Hour div 24" using zdiv_zmult2_eq [of 24 d Hour] by simp
  have micros: "Microseconds d = d div Microsecond" "Milliseconds d = d div Millisecond"
    using assms(1) by (simp_all add: Microseconds_def Milliseconds_def sdiv_nonneg)
  have nonneg: "0 \<le> d div Second" "0 \<le> d div Minute" "0 \<le> d div Hour" "0 \<le> d div Microsecond"
    using assms(1) by (simp_all add: pos_imp_zdiv_nonneg_iff)
  consider "d < Millisecond" | "Millisecond \<le> d" "d < 10 * Millisecond" | "10 * Millisecond \<le> d" "d < Second"
    | "Second \<le> d" "d < Minute" | "Minute \<le> d" "d < Hour" | "Hour \<le> d" "d < 24 * Hour" | "24 * Hour \<le> d"
    by linarith
  then show ?thesis
  proof cases
    case 2
    then have "d div Microsecond < 10000" by simp
    from micros_tenths [OF nonneg(4) this] 2 show ?thesis by (auto simp: compactDuration_def micros)
  next
    case 4
    with Seconds_tenths [OF assms(1) 4(2)] show ?thesis by (auto simp: compactDuration_def)
  qed (use units units' units'' nonneg in \<open>simp_all add: compactDuration_def micros days sdiv_nonneg smod_nonneg\<close>)
qed

theorem compactDuration_accurate_witness:
  "compactDuration (93784 * Second) = ''1d 2h'' \<and>
   (\<exists>t. compactDuration 59960000000 = tenths t @ ''s'' \<and> \<bar>int t * 100000000 - 59960000000\<bar> \<le> 50000000)"
proof -
  have "Itoa 1 = ''1''" "Itoa 2 = ''2''" by code_simp+
  then show ?thesis
    using compactDuration_accurate [of "93784 * Second"] compactDuration_accurate [of 59960000000] by simp
qed

text \<open>
  The bounds of the statement: the last tenth before a minute is shown as sixty seconds, and
  past 4096 hours the last nanosecond of an hour is already counted as the next one.
\<close>

lemma compactDuration_edges:
  "compactDuration 59960000000 = ''60.0s''"
  "compactDuration (4097 * Hour - 1) = ''170d 17h''"
  "compactDuration (-1500) = ''-1'' @ micro_sign @ ''s''"
proof -
  have "round_even (Seconds 59960000000 * 10) = 600" "0 \<le> Seconds 59960000000"
      "digit_char 0 = CHR ''0''" "digit_char 6 = CHR ''6''" by code_simp+
  then show "compactDuration 59960000000 = ''60.0s''"
    by (simp add: compactDuration_def FormatFloat_tenths tenths_def format_nat.simps del: One_nat_def)
  have "Hours (4097 * Hour - 1) = 4097" "Itoa 170 = ''170''" "Itoa 17 = ''17''" by code_simp+
  then show "compactDuration (4097 * Hour - 1) = ''170d 17h''"
    by (simp add: compactDuration_def float_to_int_def sdiv_nonneg smod_nonneg)
  have "Itoa (-1) = ''-1''" by code_simp
  then show "compactDuration (-1500) = ''-1'' @ micro_sign @ ''s''"
    by (simp add: compactDuration_def Microseconds_def)
qed

subsection \<open>Progress\<close>

lemma float64_scale:
  assumes "0 \<le> x"
  shows "float64 x \<le> x * (10001 / 10000)" "x * (9999 / 10000) \<le> float64 x"
proof -
  have "x / 2 ^ 53 \<le> x / 10000" using assms by simp
  with float64_error [of x] assms have "\<bar>float64 x - x\<bar> \<le> x / 10000" by linarith
  then show "float64 x \<le> x * (10001 / 10000)" "x * (9999 / 10000) \<le> float64 x"
    by linarith+
qed

text \<open>However large the counters, unfinished or finished work never shows more than 100 percent.\<close>

lemma progress_at_most_100:
  assumes "0 \<le> job_ProgressCompleted j" "job_ProgressCompleted j \<le> job_ProgressTotal j" "0 < job_ProgressTotal j"
  shows "\<exists>p \<le> 100. progress j = Itoa (int p) @ ''%'' @
           (if job_ProgressStage j = [] then [] else '' '' @ middle_dot @ '' '' @ job_ProgressStage j)"
proof -
  define c t where "c = float64 (of_int (job_ProgressCompleted j))" and "t = float64 (of_int (job_ProgressTotal j))"
  define r where "r = c / t"
  define f where "f = float64 (float64 r * 100)"
  let ?C = "of_int (job_ProgressCompleted j) :: rat" and ?T = "of_int (job_ProgressTotal j) :: rat"
  have CT: "0 \<le> ?C" "?C \<le> ?T" "0 < ?T" using assms by simp_all
  have c: "0 \<le> c" "c \<le> ?T * (10001 / 10000)" and t: "?T * (9999 / 10000) \<le> t"
    using float64_nonneg [of ?C] float64_scale [of ?C] float64_scale [of ?T] CT by (simp_all add: c_def t_def)
  have "0 < t" using t CT(3) by linarith
  moreover have "c \<le> t * (10003 / 10000)" using c(2) t CT(3) by linarith
  ultimately have r: "0 \<le> r" "r \<le> 10003 / 10000"
    using c(1) by (simp_all add: r_def pos_divide_le_eq mult.commute)
  have q: "0 \<le> float64 r * 100" "float64 r * 100 \<le> 1001 / 10"
    using float64_nonneg [OF r(1)] float64_scale(1) [OF r(1)] r(2) by linarith+
  have f: "0 \<le> f" "f \<le> 1002 / 10"
    unfolding f_def using float64_nonneg [OF q(1)] float64_scale(1) [OF q(1)] q(2) by linarith+
  from round_even_error [of f] f(2) have "of_int (round_even f) < (of_int 101 :: rat)" by linarith
  then have "nat (round_even f) \<le> 100" by (simp only: of_int_less_iff)
  moreover have "progress j = Itoa (int (nat (round_even f))) @ ''%'' @
      (if job_ProgressStage j = [] then [] else '' '' @ middle_dot @ '' '' @ job_ProgressStage j)"
    using assms(3) f(1) by (simp add: progress_def FormatFloat_f_def FormatInt_def Let_def flip: c_def t_def r_def f_def)
  ultimately show ?thesis by blast
qed

end
