(* ===== verification/Web_Site.thy ===== *)
theory Web_Site
  imports Web_View_Laws Web_Laws Web_Login_Laws Web_Format Sink_Laws
begin

text \<open>
  The dashboard put together: the views of \<open>Web_Views\<close> and \<open>Web_Json\<close> behind the routes of
  \<open>Web_Controls\<close>, with the templates, the JSON encoder and the rendering of times as
  parameters. What the pages send is proved of \<open>serve\<close>, the handler on any request.
\<close>

subsection \<open>Serving the views\<close>

record 'q site =
  wb_ops :: "'q queue_ops"
  wb_num_text :: "string \<Rightarrow> num_error \<Rightarrow> string"
  wb_unrouted :: "http_request \<Rightarrow> http_response"
  wb_layouts :: go_layouts
  wb_clock :: "gotime \<Rightarrow> string"
  wb_fmt :: "gotime \<Rightarrow> string"
  wb_now :: gotime
  wb_now' :: gotime
  wb_reads :: view_reads
  wb_live :: "'q live"
  wb_overview_html :: "overviewData \<Rightarrow> string + string"
  wb_live_html :: "overviewData \<Rightarrow> string + string"
  wb_jobs_html :: "jobsData \<Rightarrow> string + string"
  wb_failures_html :: "failuresData \<Rightarrow> string + string"
  wb_job_html :: "jobData \<Rightarrow> string + string"
  wb_reference_html :: "referenceData \<Rightarrow> string + string"
  wb_jobs_json :: "jobsResponse \<Rightarrow> string"
  wb_job_json :: "jobResponse \<Rightarrow> string"
  wb_live_json :: "liveResponse \<Rightarrow> string"

definition json_response :: "('p \<Rightarrow> string) \<Rightarrow> 'p json_reply \<Rightarrow> http_response" where
  "json_response enc reply =
     \<lparr>rs_status = jr_status reply, rs_header = jr_header reply, rs_cookies = [],
      rs_body = (case jr_body reply of Inl msg \<Rightarrow> JSONError msg | Inr payload \<Rightarrow> TextBody (enc payload))\<rparr>"

fun view_response :: "'q site \<Rightarrow> route \<Rightarrow> http_request \<Rightarrow> 'q handler \<Rightarrow> http_response" where
  "view_response w Overview r h =
     answer_view (wb_overview_html w) (overview (wb_clock w) (wb_now w) (wb_ops w) (wb_reads w) (wb_live w) h r)"
| "view_response w LivePartial r h =
     livePartial (wb_now w) (wb_ops w) (wb_live w) (wb_live_html w) h r"
| "view_response w JobsPage r h =
     answer_view (wb_jobs_html w) (jobs_view (wb_layouts w) (wb_now w) (wb_reads w) h r)"
| "view_response w (JobPage key) r h =
     (case job_route (wb_fmt w) (wb_now w) (wb_reads w) h r key of
        Inl view \<Rightarrow> answer_view (wb_job_html w) view
      | Inr reply \<Rightarrow> json_response (wb_job_json w) reply)"
| "view_response w FailuresPage r h =
     answer_view (wb_failures_html w) (failures_view (wb_layouts w) (wb_now w) (wb_reads w) h r)"
| "view_response w ReferencePage r h =
     render (wb_reference_html w) (reference (wb_now w) (wb_reads w) h r)"
| "view_response w JobsJSON r h =
     json_response (wb_jobs_json w) (jobsJSON (wb_fmt w) (wb_layouts w) (wb_now w) (wb_now' w) (wb_reads w) h r)"
| "view_response w LiveJSON r h =
     json_response (wb_live_json w) (liveJSON (wb_fmt w) (wb_reads w) (wb_live w) h)"
| "view_response w _ r h = http_NotFound"

definition site_env :: "'q site \<Rightarrow> 'q web_env" where
  "site_env w = \<lparr>we_ops = wb_ops w, we_num_text = wb_num_text w, we_view = view_response w,
                 we_unrouted = wb_unrouted w\<rparr>"

subsection \<open>Private pages\<close>

definition kept_private :: "http_response \<Rightarrow> bool" where
  "kept_private rs \<longleftrightarrow> map_of (rs_header rs) ''Cache-Control'' = Some ''no-store, private''"

text \<open>A response that shows something: a success that is not the empty login form.\<close>

definition discloses :: "http_response \<Rightarrow> bool" where
  "discloses rs \<longleftrightarrow> rs_status rs = 200 \<and> (case rs_body rs of LoginPage msg _ _ \<Rightarrow> msg \<noteq> [] | _ \<Rightarrow> True)"

definition discreet :: "http_response \<Rightarrow> bool" where
  "discreet rs \<longleftrightarrow> (discloses rs \<longrightarrow> kept_private rs)"

lemma discreet_render: "discreet (render tmpl data)"
  by (simp add: discreet_def discloses_def kept_private_def render_def http_Error_def split: sum.split)

lemma discreet_answer:
  assumes "\<And>status msg. v = Inl (status, msg) \<Longrightarrow> status \<noteq> 200"
  shows "discreet (answer_view tmpl v)"
  using assms discreet_render [of tmpl]
  by (auto simp: answer_view_def discreet_def discloses_def http_Error_def split: sum.split)

lemma discreet_json: "jr_header reply = json_header \<Longrightarrow> discreet (json_response enc reply)"
  by (simp add: discreet_def kept_private_def json_response_def json_header_def)

lemma discreet_failures [simp]:
  "status \<noteq> 200 \<Longrightarrow> discreet (http_Error msg status)" "discreet http_NotFound"
  "discreet (http_Redirect target cookies)" "discreet (writeJSONError status' msg)"
  "discreet ((renderLogin 200 [] next' token)\<lparr>rs_cookies := cookies\<rparr>)"
  "status \<noteq> 200 \<Longrightarrow> discreet (renderLogin status msg' next' token)"
  by (simp_all add: discreet_def discloses_def kept_private_def http_Error_def http_NotFound_def http_Redirect_def
      writeJSONError_def renderLogin_def)

lemma discreet_unauthorized [simp]:
  "discreet ((http_Error msg 401)\<lparr>rs_header := hs\<rparr>)"
  by (simp add: discreet_def discloses_def http_Error_def)

lemma json_headers: "jr_header (writeJSON status p) = json_header" "jr_header (failJSON status msg) = json_header"
  by (simp_all add: writeJSON_def failJSON_def)

lemma discreet_view: "discreet (view_response w rt r h)"
proof (cases rt)
  case (JobPage key)
  have "discreet (answer_view (wb_job_html w) (job_view (wb_now w) (wb_reads w) h r key))"
    by (rule discreet_answer) (auto simp: job_view_def split: sum.splits prod.splits)
  moreover have "jr_header (jobJSONByKey (wb_fmt w) (wb_reads w) key') = json_header" for key'
    by (simp add: jobJSONByKey_def json_headers Let_def split: sum.split prod.split)
  ultimately show ?thesis using JobPage by (simp add: job_route_def discreet_json)
next
  case JobsJSON
  then show ?thesis
    by (simp add: jobsJSON_def json_headers discreet_json Let_def split: sum.split)
next
  case LiveJSON
  then show ?thesis by (simp add: liveJSON_def json_headers discreet_json split: sum.split)
qed (auto simp: livePartial_def discreet_render overview_def jobs_view_def failures_view_def Let_def
      intro!: discreet_answer split: sum.splits prod.splits)

lemma discreet_login:
  "loginForm random r h = Inr (rs, h') \<Longrightarrow> discreet rs"
  "loginSubmit now now' random r h = Inr (rs, h') \<Longrightarrow> discreet rs"
  "logout now r h = Inr (rs, h') \<Longrightarrow> discreet rs"
  by (auto simp: loginForm_def loginSubmit_def logout_def Let_def split: option.splits if_splits prod.splits)

lemma discreet_control: "discreet (fst (control t1 t2 t3 action act r h))"
  by (simp add: control_def Let_def split: option.split prod.split)

lemma discreet_route:
  assumes "serve_route (site_env w) i rt r h = Inr (rs, h')"
  shows "discreet rs"
proof -
  have "discreet rs" if "control t1 t2 t3 action act r h = (rs, h')" for t1 t2 t3 action act
    using discreet_control [of t1 t2 t3 action act r h] that by simp
  with assms show ?thesis
    by (cases rt) (auto simp: site_env_def dest: discreet_login intro: discreet_view simp del: view_response.simps)
qed

text \<open>
  C23. Nothing the dashboard shows may be kept by a cache. Whatever the request, the state of the
  handler, the stored history and the templates, an answer with status 200 is the empty login
  form or carries \<open>Cache-Control: no-store, private\<close>; this holds for the pages, the polled
  fragment and the JSON endpoints. (The mux answers a request it has no route for with an
  error or a redirect.)
\<close>

theorem pages_private:
  assumes "serve (site_env w) i r h = Inr (rs, h')" "rs_status (wb_unrouted w r) \<noteq> 200" "rs_status rs = 200"
  shows "(\<exists>next' token. rs_body rs = LoginPage [] next' token) \<or>
         map_of (rs_header rs) ''Cache-Control'' = Some ''no-store, private''"
proof -
  have mux: "discreet (wb_unrouted w r)" using assms(2) by (simp add: discreet_def discloses_def)
  have "discreet rs" if "routed (serve_route (site_env w) i) (wb_unrouted w r) r h = Inr (rs, h')"
    using that mux by (auto simp: routed_def Let_def dest: discreet_route split: if_splits option.splits)
  then have "discreet rs"
    using assms(1) by (auto simp: serve_def ServeHTTP_def gate_def Let_def site_env_def split: if_splits)
  then show ?thesis
    using assms(3) by (auto simp: discreet_def discloses_def kept_private_def split: http_body.splits)
qed

definition idle_stats :: QueueStats where
  "idle_stats =
     \<lparr>qs_Name = ''demo'', qs_Paused = False, qs_Stopped = False, qs_WorkersMin = 1, qs_WorkersMax = 1,
      qs_RunningWorkers = 1, qs_IdleWorkers = 1, qs_Capacity = 8, qs_CreatedJobs = 0, qs_PendingJobs = 0,
      qs_ActiveJobs = 0, qs_CompletedJobs = 0, qs_FailedJobs = 0, qs_DiscardedJobs = 0,
      qs_CancelledJobs = 0, qs_RescheduledJobs = 0, qs_ReleasedJobs = 0\<rparr>"

definition toy_site :: "bool site" where
  "toy_site =
     \<lparr>wb_ops = toy_ops, wb_num_text = (\<lambda>s e. s), wb_unrouted = (\<lambda>_. http_NotFound),
      wb_layouts = \<lparr>gl_parse_micro = (\<lambda>_. None), gl_parse_nano = (\<lambda>_. None)\<rparr>,
      wb_clock = (\<lambda>_. []), wb_fmt = (\<lambda>_. []), wb_now = 5, wb_now' = 6,
      wb_reads = \<lparr>sr_CountJobs = (\<lambda>_. Inr 0), sr_Jobs = (\<lambda>_. Inr []), sr_AttributeKeys = (\<lambda>_. Inr []),
        vr_Counts = Inr [], vr_Job = (\<lambda>_. Inl []), vr_Lineage = (\<lambda>_ _ _. Inr []),
        vr_GroupJobs = (\<lambda>_ _. Inr []), vr_Timeline = (\<lambda>_ _. Inr [])\<rparr>,
      wb_live = \<lparr>lv_Stats = (\<lambda>_. idle_stats), lv_Submissions = (\<lambda>_. []), lv_Describe = (\<lambda>_. []), lv_Epoch = [],
        lv_Dropped = 0, lv_Written = 0, lv_Pruned = 0\<rparr>,
      wb_overview_html = Inr \<circ> pg_Title \<circ> the \<circ> ov_page, wb_live_html = (\<lambda>_. Inr []),
      wb_jobs_html = Inr \<circ> pg_Title \<circ> jd_page, wb_failures_html = Inr \<circ> pg_Title \<circ> fd_page,
      wb_job_html = Inr \<circ> pg_Title \<circ> jb_page, wb_reference_html = Inr \<circ> pg_Title \<circ> rf_page,
      wb_jobs_json = (\<lambda>_. []), wb_job_json = (\<lambda>_. []), wb_live_json = (\<lambda>_. [])\<rparr>"

theorem pages_private_witness:
  "\<exists>rs. serve (site_env toy_site) toy_inputs (toy_request ''GET'' ''/cq/reference'') (blank_handler ''/cq'') =
         Inr (rs, blank_handler ''/cq'') \<and>
        rs_body rs = TextBody ''Reference'' \<and>
        map_of (rs_header rs) ''Cache-Control'' = Some ''no-store, private''"
proof -
  let ?h = "blank_handler ''/cq'' :: bool handler"
  define rs where "rs = render (wb_reference_html toy_site)
    (reference (wb_now toy_site) (wb_reads toy_site) ?h (toy_request ''GET'' ''/reference''))"
  have "TrimPrefix ''/cq/reference'' ''/cq'' = ''/reference''"
      "URL_EscapedPath (toy_request ''GET'' ''/reference'') = ''/reference''"
      "mux_segments ''/reference'' = [''reference'']" "cleanPath ''/reference'' = ''/reference''"
    by code_simp+
  then have "serve (site_env toy_site) toy_inputs (toy_request ''GET'' ''/cq/reference'') ?h = Inr (rs, ?h)"
    by (simp add: serve_def ServeHTTP_def routed_def site_env_def toy_request_def mux_route_def rs_def
        blank_handler_def TrimPrefix_def HasPrefix_def Let_def)
  moreover have "rs_status rs = 200" "rs_body rs = TextBody ''Reference''" "rs_status (wb_unrouted toy_site r) \<noteq> 200" for r
    by (simp_all add: rs_def render_def toy_site_def reference_def newPage_def blank_handler_def Let_def
        http_NotFound_def http_Error_def)
  ultimately show ?thesis using pages_private [of toy_site toy_inputs] by fastforce
qed

subsection \<open>The sink behind the overview\<close>

text \<open>The live figures with those of a sink: its epoch and its three counters.\<close>

definition sink_live :: "'s sink \<Rightarrow> 'q live \<Rightarrow> 'q live" where
  "sink_live s lv = lv\<lparr>lv_Epoch := sink_Epoch s, lv_Dropped := unat (sink_Dropped s),
                      lv_Written := unat (sink_Written s), lv_Pruned := unat (sink_Pruned s)\<rparr>"

definition gap_stat :: "'q handler \<Rightarrow> nat \<Rightarrow> railStat" where
  "gap_stat h n =
     stat ''Dropped'' (Itoa (int n)) ''history has gaps'' ''bad'' (hn_prefix h @ ''/reference#boundaries'')"

lemma gap_not_in_rail: "gap_stat h n \<notin> set (rail h qs counts)"
  by (simp add: gap_stat_def rail_def stat_def Let_def split: prod.split)

lemma sink_live_figures:
  "lv_Dropped (sink_live s lv) = unat (sink_Dropped s)" "lv_Written (sink_live s lv) = unat (sink_Written s)"
  by (simp_all add: sink_live_def)

lemma overview_figures:
  assumes "overview clock now ops rd lv h r = Inr page"
  shows "ov_Rail page = rail h (queueViews lv h) (ov_Counts page) @
           (if lv_Dropped lv > 0 then [gap_stat h (lv_Dropped lv)] else [])"
    and "ov_Written page = lv_Written lv"
  using assms by (auto simp: overview_def Let_def gap_stat_def liveData_def split: sum.splits)

text \<open>
  C36. The overview admits the gaps of the history, and only real ones. Over a sink after any
  interleaving of its goroutines, the overview shows the figure of dropped records exactly
  when the sink has shed a record, the figure is the number shed, and the figure of written
  records is the number the store took. (The counters are 64 bits wide; no run sheds or
  writes that many records.)
\<close>

theorem overview_admits_gaps:
  assumes "sink_reach impl cq (sink_New st t pid opts) s"
    and "length (h_shed s) < 2 ^ 64" "length (h_jobs s) + length (h_attempts s) < 2 ^ 64"
    and "overview clock now ops rd (sink_live s lv) h r = Inr page"
  shows "(if h_shed s = [] then \<forall>n. gap_stat h n \<notin> set (ov_Rail page)
          else gap_stat h (length (h_shed s)) \<in> set (ov_Rail page)) \<and>
         ov_Written page = length (h_jobs s) + length (h_attempts s)"
proof -
  have "sk_dropped s = of_nat (length (h_shed s))" "sk_written s = of_nat (length (h_jobs s) + length (h_attempts s))"
    using sink_inv_reachable [OF assms(1)] by (simp_all add: sink_inv_def conserve_def written_ok_def)
  then have counters: "unat (sink_Dropped s) = length (h_shed s)"
      "unat (sink_Written s) = length (h_jobs s) + length (h_attempts s)"
    using assms(2,3) by (simp_all add: sink_Dropped_def sink_Written_def unat_of_nat take_bit_nat_eq_self del: of_nat_add)
  note page = overview_figures [OF assms(4), unfolded sink_live_figures counters]
  show ?thesis using gap_not_in_rail [of h] by (simp add: page)
qed

theorem overview_admits_gaps_witness:
  "\<exists>s page. sink_run mem_impl demo_cq
      [Start 5 5, Call (HookCall OnEnqueue demo_event), OfferCheck 0, OfferSend 0,
       Call (HookCall OnStart demo_event), OfferCheck 1, OfferSend 1, RunRecv, RunTick] demo_sink = Some s \<and>
     overview (wb_clock toy_site) 7 toy_ops (wb_reads toy_site) (sink_live s (wb_live toy_site))
       (blank_handler ''/cq'') (toy_request ''GET'' ''/'') = Inr page \<and>
     gap_stat (blank_handler ''/cq'' :: bool handler) 1 \<in> set (ov_Rail page)"
proof -
  obtain s where run: "sink_run mem_impl demo_cq
         [Start 5 5, Call (HookCall OnEnqueue demo_event), OfferCheck 0, OfferSend 0,
          Call (HookCall OnStart demo_event), OfferCheck 1, OfferSend 1, RunRecv, RunTick] demo_sink = Some s"
      and shed: "length (h_shed s) = 1" and taken: "length (h_jobs s) + length (h_attempts s) < 2 ^ 64"
    by (simp add: demo_defs)
  obtain page where page: "overview (wb_clock toy_site) 7 toy_ops (wb_reads toy_site) (sink_live s (wb_live toy_site))
       (blank_handler ''/cq'') (toy_request ''GET'' ''/'') = Inr page"
    by (simp add: overview_def toy_site_def Let_def)
  from overview_admits_gaps [OF sink_run_reach [OF run [unfolded demo_sink_def]] _ taken page] shed run page
  show ?thesis by (auto split: if_splits)
qed

end
