(* ===== verification/Demo.thy ===== *)
theory Demo
  imports Sink_Sql Web_Site
begin

text \<open>
  The demonstration program \<open>cmd/demo\<close>, which puts a store, a sink, two queues and the web
  handler together: its flags, the choice of the database, the configuration it derives, its
  start-up with every fatal error, its mux, and the jobs it submits.

  The flags are a record, what the database drivers answer are arguments, and a job is the
  function cq runs: it gets a context and the variable its closure captures, and returns the
  progress it reported, its error and the variable. How often and when cq runs it is cq's.
\<close>

subsection \<open>Configuration\<close>

record demo_flags =
  fl_addr :: string
  fl_db :: string
  fl_pg :: string
  fl_rate :: duration
  fl_retain :: duration
  fl_token :: string
  fl_user :: string
  fl_pass :: string

definition demo_default_flags :: demo_flags where
  "demo_default_flags =
     \<lparr>fl_addr = '':8080'', fl_db = ''cq-dashboard.db'', fl_pg = [], fl_rate = 300 * Millisecond,
      fl_retain = Hour, fl_token = [], fl_user = [], fl_pass = []\<rparr>"

text \<open>A handle that fails its ping is closed and the error of the ping returned.\<close>

record ('d, 's) demo_drivers =
  dd_sqlite :: "string \<Rightarrow> string + 'd"
  dd_pragma :: "'d \<Rightarrow> string option"
  dd_pgx :: "string \<Rightarrow> string + 'd"
  dd_ping :: "'d \<Rightarrow> string option"
  dd_sqlite_store :: "'d \<Rightarrow> 's"
  dd_pg_store :: "'d \<Rightarrow> 's"

definition openStore :: "('d, 's) demo_drivers \<Rightarrow> string \<Rightarrow> string \<Rightarrow> string + 's" where
  "openStore dd path pgDSN =
     (if pgDSN = [] then map_sum id (dd_sqlite_store dd) (sqlite_Open (dd_sqlite dd path) (dd_pragma dd))
      else case dd_pgx dd pgDSN of
             Inl err \<Rightarrow> Inl err
           | Inr db \<Rightarrow> (case dd_ping dd db of Some err \<Rightarrow> Inl err | None \<Rightarrow> Inr (dd_pg_store dd db)))"

definition demo_sink_options :: "demo_flags \<Rightarrow> sink_option list" where
  "demo_sink_options fl = [OptErrorHandler True, OptRetention (fl_retain fl) Minute [StateCompleted]]"

definition demo_secret :: string where "demo_secret = ''demo-signing-secret''"

definition demo_web_options :: "demo_flags \<Rightarrow> 'q \<Rightarrow> 'q \<Rightarrow> scheduler \<Rightarrow> 'q web_option list" where
  "demo_web_options fl queue reports sched =
     [OptQueues [queue, reports], OptSchedulers [sched], OptJSON] @
     (if fl_user fl \<noteq> [] \<and> fl_pass fl \<noteq> []
      then [OptLogin (Some (StaticPassword (fl_user fl) (fl_pass fl))) demo_secret Hour] else []) @
     (if fl_token fl \<noteq> []
      then [OptTokens [Some (BearerToken ''demo-operator'' (fl_token fl))],
            OptControls (Some AllowSignedIn), OptAudit True] else [])"

text \<open>
  The schedules it asks for: one that is refused is logged and the others still registered,
  but a cron expression that does not parse ends the function before the last two.
\<close>

datatype schedule_request = Every string duration | On string string | At string gotime

definition registerSchedules :: "(string \<Rightarrow> string option) \<Rightarrow> gotime \<Rightarrow> schedule_request list" where
  "registerSchedules cron_error now =
     Every ''heartbeat'' (30 * Second) #
     (if cron_error ''0 3 * * *'' \<noteq> None then []
      else [On ''nightly-report'' ''0 3 * * *'', At ''warmup'' (time_Add now (2 * Minute))])"

text \<open>Start-up: an error of any step ends the program with a message.\<close>

definition demo_boot ::
    "('d, 's) demo_drivers \<Rightarrow> 's store_impl \<Rightarrow> 'q queue_ops \<Rightarrow> gotime \<Rightarrow> gotime \<Rightarrow> gotime \<Rightarrow> nat \<Rightarrow> 'q \<Rightarrow> 'q \<Rightarrow>
     scheduler \<Rightarrow> demo_flags \<Rightarrow> string + (nat \<times> 's sink \<times> 'q handler)" where
  "demo_boot dd impl ops t now now' pid queue reports sched fl =
     (case openStore dd (fl_db fl) (fl_pg fl) of
        Inl err \<Rightarrow> Inl (''open store: '' @ err)
      | Inr st \<Rightarrow>
          (case sink_Start impl now now' (sink_New st t pid (demo_sink_options fl)) of
             (Inl err, _) \<Rightarrow> Inl (''start sink: '' @ err)
           | (Inr reconciled, sk) \<Rightarrow>
               (case web_New ops ''/cq'' (demo_web_options fl queue reports sched) of
                  Inl err \<Rightarrow> Inl (''web: '' @ err)
                | Inr h \<Rightarrow> Inr (reconciled, sk, h))))"

text \<open>
  The mux in front: the dashboard for every path below \<open>/cq/\<close>, whatever the method, and a
  redirect to it from the root. A path that is not clean the mux redirects itself, except for
  \<open>CONNECT\<close>; so it does with \<open>/cq\<close>.
\<close>

definition demo_serve :: "'q web_env \<Rightarrow> web_inputs \<Rightarrow> http_request \<Rightarrow> 'q handler \<Rightarrow> 'q served" where
  "demo_serve env i r h =
     (let path = URL_EscapedPath r;
          segs = mux_segments path
      in if rq_method r \<noteq> ''CONNECT'' \<and> cleanPath path \<noteq> path then Inr (we_unrouted env r, h)
         else if length segs > 1 \<and> hd segs = ''cq'' then serve env i r h
         else if segs = [''/''] \<and> (rq_method r = ''GET'' \<or> rq_method r = ''HEAD'')
         then Inr ((http_Redirect ''/cq/'' [])\<lparr>rs_status := 302\<rparr>, h)
         else Inr (we_unrouted env r, h))"

subsection \<open>Jobs\<close>

text \<open>
  The context: whether it is cancelled at the \<open>i\<close>-th wait and with which error, the random
  number drawn, and what \<open>cq.Reschedule\<close> returns.
\<close>

record job_ctx =
  cx_done :: "int \<Rightarrow> bool"
  cx_err :: string
  cx_intn :: int
  cx_reschedule :: "string option"

type_synonym job_body = "job_ctx \<Rightarrow> int \<Rightarrow> (cq_progress list \<times> string option) \<times> int"

record demo_job =
  dj_Name :: string
  dj_Tenant :: string
  dj_Retry :: "nat option"
  dj_Body :: job_body

text \<open>The loop that waits and reports, up to \<open>n\<close> or the end of the context.\<close>

fun report_steps :: "job_ctx \<Rightarrow> string \<Rightarrow> int \<Rightarrow> int list \<Rightarrow> cq_progress list \<times> string option" where
  "report_steps cx stage n [] = ([], None)"
| "report_steps cx stage n (i # is) =
     (if cx_done cx i then ([], Some (cx_err cx))
      else let (reports, err) = report_steps cx stage n is
           in (\<lparr>prg_Completed = i, prg_Total = n, prg_Stage = stage\<rparr> # reports, err))"

definition submitFast :: demo_job where
  "submitFast = \<lparr>dj_Name = ''send-email'', dj_Tenant = ''acme'', dj_Retry = None,
     dj_Body = (\<lambda>cx v. (([], None), v))\<rparr>"

definition submitSlowWithProgress :: demo_job where
  "submitSlowWithProgress = \<lparr>dj_Name = ''import-rows'', dj_Tenant = ''globex'', dj_Retry = None,
     dj_Body = (\<lambda>cx v. (report_steps cx ''importing'' 20 [1..20], v))\<rparr>"

definition submitFlaky :: demo_job where
  "submitFlaky = \<lparr>dj_Name = ''sync-inventory'', dj_Tenant = ''acme'', dj_Retry = Some 3,
     dj_Body = (\<lambda>cx attempts. let attempts = attempts + 1
                              in (([], if attempts < 3 then Some ''upstream timeout'' else None), attempts))\<rparr>"

definition submitDoomed :: demo_job where
  "submitDoomed = \<lparr>dj_Name = ''charge-card'', dj_Tenant = ''initech'', dj_Retry = None,
     dj_Body = (\<lambda>cx v. (([], Some ''invalid payload''), v))\<rparr>"

definition submitPoller :: demo_job where
  "submitPoller = \<lparr>dj_Name = ''poll-status'', dj_Tenant = ''globex'', dj_Retry = None,
     dj_Body = (\<lambda>cx hops. let hops = hops + 1
                          in (([], if hops \<le> 2 then cx_reschedule cx else None), hops))\<rparr>"

definition produceReports_job :: demo_job where
  "produceReports_job = \<lparr>dj_Name = ''nightly-rollup'', dj_Tenant = ''initech'', dj_Retry = None,
     dj_Body = (\<lambda>cx v. case report_steps cx ''rendering'' 5 [1..5] of
                          (reports, Some err) \<Rightarrow> ((reports, Some err), v)
                        | (reports, None) \<Rightarrow>
                            ((reports, if cx_intn cx = 0 then Some ''report source unavailable'' else None), v))\<rparr>"

text \<open>One tick of \<open>produce\<close>: the job drawn by \<open>rand.Intn\<close>.\<close>

definition produce_kinds :: "demo_job list" where
  "produce_kinds = [submitFast, submitSlowWithProgress, submitFlaky, submitDoomed, submitPoller]"

definition produce_tick :: "nat \<Rightarrow> demo_job option" where
  "produce_tick n = (if n < length produce_kinds then Some (produce_kinds ! n) else None)"

subsection \<open>Properties\<close>

text \<open>The handler the flags configure.\<close>

lemma demo_web_New:
  "\<exists>h. web_New ops ''/cq'' (demo_web_options fl queue reports sched) = Inr h \<and>
     hn_prefix h = ''/cq'' \<and> hn_queues h = [queue, reports] \<and> \<not> hn_requireAuth h \<and> hn_json h \<and>
     hn_login h = (if fl_user fl \<noteq> [] \<and> fl_pass fl \<noteq> []
                   then Some (StaticPassword (fl_user fl) (fl_pass fl)) else None) \<and>
     hn_tokens h = (if fl_token fl \<noteq> [] then [Some (BearerToken ''demo-operator'' (fl_token fl))] else []) \<and>
     (hn_controls h \<longleftrightarrow> fl_token fl \<noteq> [])"
proof -
  have prefix: "TrimSuffix ''/cq'' ''/'' = ''/cq''" by code_simp
  show ?thesis
    by (simp add: web_New_def demo_web_options_def prefix blank_handler_def WithQueues_def WithSchedulers_def
        WithJSON_def WithLogin_def WithTokens_def WithControls_def WithAudit_def demo_secret_def Let_def)
qed

text \<open>The fixed part of a handler: no request changes its configuration.\<close>

definition same_config :: "'q handler \<Rightarrow> 'q handler \<Rightarrow> bool" where
  "same_config h h' \<longleftrightarrow> hn_prefix h' = hn_prefix h \<and> hn_login h' = hn_login h \<and> hn_tokens h' = hn_tokens h \<and>
     hn_controls h' = hn_controls h \<and> hn_controlPolicy h' = hn_controlPolicy h \<and>
     hn_requireAuth h' = hn_requireAuth h \<and> hn_json h' = hn_json h \<and> hn_secret h' = hn_secret h"

lemma same_config_audit [simp]: "same_config h (audit t e h') = same_config h h'"
  by (simp add: same_config_def audit_def)

lemma same_config_auditLogin [simp]: "same_config h (auditLogin t r u a d h') = same_config h h'"
  by (simp add: auditLogin_def Let_def)

lemma same_config_refl [simp]: "same_config h h"
  by (simp add: same_config_def)

lemma same_config_trans: "same_config h h1 \<Longrightarrow> same_config h1 h2 \<Longrightarrow> same_config h h2"
  by (simp add: same_config_def)

lemma same_config_updates [simp]:
  "same_config h (h\<lparr>hn_queues := qs\<rparr>)" "same_config h (h\<lparr>hn_attempts := limiter\<rparr>)" "same_config h (h\<lparr>hn_revoked := dead\<rparr>)"
  by (simp_all add: same_config_def)

lemma same_config_login:
  "loginForm random r h = Inr (rs, h') \<Longrightarrow> same_config h h'"
  "loginSubmit now now' random r h = Inr (rs, h') \<Longrightarrow> same_config h h'"
  "logout now r h = Inr (rs, h') \<Longrightarrow> same_config h h'"
  by (auto simp: loginForm_def loginSubmit_def logout_def Let_def split: option.splits if_splits prod.splits)

lemma same_config_control: "same_config h (snd (control t1 t2 t3 action act r h))"
  by (simp add: control_def Let_def split: option.split prod.split)

lemma same_config_serve:
  assumes "serve env i r h = Inr (rs, h')"
  shows "same_config h h'"
  using assms
proof (cases rule: serve_cases)
  case (2 rt)
  show ?thesis
  proof (cases "rt \<in> {Pause, Resume, Workers}")
    case True
    with serve_route_control [OF 2(2)] same_config_control show ?thesis by metis
  next
    case False
    with 2(2) show ?thesis by (cases rt) (auto dest: same_config_login)
  qed
qed simp

lemma same_config_reach: "web_reach env h0 h \<Longrightarrow> same_config h0 h"
  by (induction rule: web_reach.induct) (auto intro: same_config_trans same_config_serve)

lemma demo_serve_changes:
  assumes "demo_serve env i r h = Inr (rs, h')" "hn_queues h' \<noteq> hn_queues h"
  shows "hn_controls h \<and> (\<exists>who. authorized (wi_t1 i) (wi_t2 i) h (stripped h r) who)"
proof -
  have "serve env i r h = Inr (rs, h')" using assms by (auto simp: demo_serve_def Let_def split: if_splits)
  then show ?thesis
  proof (cases rule: serve_cases)
    case 1
    with assms(2) show ?thesis by simp
  next
    case (2 rt)
    have "rt \<in> {Pause, Resume, Workers}"
      using 2(2) assms(2) by (cases rt) (auto dest: login_handlers_keep_queues)
    with serve_route_control [OF 2(2)] control_queues_change assms(2) show ?thesis
      by (metis authorized_def)
  qed
qed

lemma first_token_via:
  assumes "identify t h r = Some who" "id_Via who = ViaToken"
  shows "first_token (hn_tokens h) r = Some who"
proof -
  have "ViaSession \<noteq> ViaToken" by (simp add: ViaSession_def ViaToken_def)
  with assms show ?thesis by (auto simp: identify_def split: option.splits if_splits)
qed

lemma first_token_single: "first_token [Some auth] r = Some who \<Longrightarrow> snd (auth r)"
  by (cases "auth r"; cases "snd (auth r)") auto

text \<open>
  C38. The queues of the running program obey its flags. Once it has started, on any store, and
  whatever requests came before, a request through its mux that changes a queue came while a
  token was configured, and carried that token, or belonged to a session of the configured
  login and carried its CSRF token.
\<close>

theorem demo_guards_queues:
  assumes "demo_boot dd impl ops t now now' pid queue reports sched fl = Inr (n, sk, h0)"
    and "web_reach env h0 h" "demo_serve env i r h = Inr (rs, h')" "hn_queues h' \<noteq> hn_queues h"
  shows "fl_token fl \<noteq> [] \<and>
    (TrimPrefix (Header_Get r ''Authorization'') ''Bearer '' = fl_token fl \<or>
     fl_user fl \<noteq> [] \<and> fl_pass fl \<noteq> [] \<and>
     (\<exists>se. sessionFrom (wi_t2 i) h r = Some se \<and> PostFormValue r ''csrf'' = sign (hn_secret h) (''csrf:'' @ se_ID se)))"
proof -
  obtain cfg where cfg: "web_New ops ''/cq'' (demo_web_options fl queue reports sched) = Inr cfg"
      "hn_login cfg = (if fl_user fl \<noteq> [] \<and> fl_pass fl \<noteq> []
         then Some (StaticPassword (fl_user fl) (fl_pass fl)) else None)"
      "hn_tokens cfg = (if fl_token fl \<noteq> [] then [Some (BearerToken ''demo-operator'' (fl_token fl))] else [])"
      "hn_controls cfg \<longleftrightarrow> fl_token fl \<noteq> []"
    using demo_web_New [of ops fl queue reports sched] by blast
  have "h0 = cfg" using assms(1) cfg(1) by (auto simp: demo_boot_def split: sum.splits prod.splits)
  with same_config_reach [OF assms(2)] cfg have h: "hn_login h = hn_login cfg" "hn_tokens h = hn_tokens cfg"
      "hn_controls h \<longleftrightarrow> fl_token fl \<noteq> []" by (simp_all add: same_config_def)
  obtain who where who: "hn_controls h" "authorized (wi_t1 i) (wi_t2 i) h (stripped h r) who"
    using demo_serve_changes [OF assms(3,4)] by blast
  have keep: "Header_Get (stripped h r) k = Header_Get r k" "PostFormValue (stripped h r) k = PostFormValue r k"
      "sessionFrom t' h (stripped h r) = sessionFrom t' h r" for k t'
    by (simp_all add: stripped_def Header_Get_def PostFormValue_def sessionFrom_def CookiesNamed_def)
  have token: "fl_token fl \<noteq> []" using who(1) h(3) by simp
  show ?thesis
  proof (cases "id_Via who = ViaToken")
    case True
    have "identify (wi_t1 i) h (stripped h r) = Some who" using who(2) by (simp add: authorized_def)
    from first_token_via [OF this True]
    have "first_token [Some (BearerToken ''demo-operator'' (fl_token fl))] (stripped h r) = Some who"
      using token h(2) cfg(3) by simp
    then have "snd (BearerToken ''demo-operator'' (fl_token fl) (stripped h r))" by (rule first_token_single)
    with token show ?thesis by (simp add: BearerToken_def ConstantTimeCompare_eq keep split: if_splits)
  next
    case False
    then obtain se where "sessionFrom (wi_t2 i) h r = Some se" "hn_login h \<noteq> None"
        "PostFormValue r ''csrf'' = sign (hn_secret h) (''csrf:'' @ se_ID se)"
      using who(2) by (auto simp: authorized_def checkCSRF_def csrfFor_def ConstantTimeCompare_eq keep
        split: if_splits option.splits)
    with token h(1) cfg(2) show ?thesis by (auto split: if_splits)
  qed
qed

text \<open>The flags never keep the program from starting: only the database can.\<close>

lemma demo_boot_fails_by_store:
  assumes "demo_boot dd impl ops t now now' pid queue reports sched fl = Inl msg"
  shows "(\<exists>err. openStore dd (fl_db fl) (fl_pg fl) = Inl err \<and> msg = ''open store: '' @ err) \<or>
         (\<exists>err. msg = ''start sink: '' @ err)"
  using assms demo_web_New [of ops fl queue reports sched]
  by (auto simp: demo_boot_def split: sum.splits prod.splits)

definition toy_drivers :: "(unit, mem_store) demo_drivers" where
  "toy_drivers = \<lparr>dd_sqlite = (\<lambda>_. Inr ()), dd_pragma = (\<lambda>_. None), dd_pgx = (\<lambda>_. Inr ()), dd_ping = (\<lambda>_. None),
     dd_sqlite_store = (\<lambda>_. mem_Open), dd_pg_store = (\<lambda>_. mem_Open)\<rparr>"

definition toy_flags :: demo_flags where
  "toy_flags = demo_default_flags\<lparr>fl_token := ''s3cret''\<rparr>"

lemma demo_boots: "\<exists>sk h. demo_boot toy_drivers mem_impl toy_ops 3 5 5 4 False False 0 toy_flags = Inr (0, sk, h) \<and>
    hn_queues h = [False, False] \<and> hn_queueByName h = [(''demo'', 1)] \<and> hn_controls h \<and>
    hn_controlPolicy h = Some AllowSignedIn \<and> hn_prefix h = ''/cq'' \<and> hn_login h = None \<and> \<not> hn_requireAuth h \<and>
    hn_tokens h = [Some (BearerToken ''demo-operator'' ''s3cret'')]"
proof -
  have prefix: "TrimSuffix ''/cq'' ''/'' = ''/cq''" by code_simp
  show ?thesis
    by (simp add: demo_boot_def openStore_def sqlite_Open_def toy_drivers_def toy_flags_def demo_default_flags_def
        demo_defs demo_sink_options_def WithErrorHandler_def WithRetention_def
        web_New_def demo_web_options_def prefix blank_handler_def WithQueues_def WithSchedulers_def WithJSON_def
        WithTokens_def WithControls_def WithAudit_def queue_index_def queue_label_def toy_ops_def)
qed

theorem demo_guards_queues_witness:
  "\<exists>sk h rs h'. demo_boot toy_drivers mem_impl toy_ops 3 5 5 4 False False 0 toy_flags = Inr (0, sk, h) \<and>
     demo_serve toy_env toy_inputs (token_request ''/cq/control/pause'') h = Inr (rs, h') \<and>
     hn_queues h' = [False, True] \<and>
     TrimPrefix (Header_Get (token_request ''/cq/control/pause'') ''Authorization'') ''Bearer '' = ''s3cret''"
proof -
  obtain sk h where boot: "demo_boot toy_drivers mem_impl toy_ops 3 5 5 4 False False 0 toy_flags = Inr (0, sk, h)"
    and h: "hn_queues h = [False, False]" "hn_queueByName h = [(''demo'', 1)]" "hn_controls h"
      "hn_controlPolicy h = Some AllowSignedIn" "hn_prefix h = ''/cq''" "hn_login h = None" "\<not> hn_requireAuth h"
      "hn_tokens h = [Some (BearerToken ''demo-operator'' ''s3cret'')]"
    using demo_boots by blast
  let ?r = "token_request ''/cq/control/pause''"
  let ?c = "control 2 3 4 ''pause'' (pause_action toy_ops) (token_request ''/control/pause'') h"
  have strip: "stripped h ?r = token_request ''/control/pause''"
    by (simp add: stripped_def token_request_def toy_request_def h TrimPrefix_def HasPrefix_def)
  have who: "authorized t1 t2 h (token_request p) \<lparr>id_Subject = ''demo-operator'', id_Via = ViaToken\<rparr>" for t1 t2 p
    by (simp add: authorized_def identify_def h BearerToken_def ConstantTimeCompare_eq Header_Get_def
        token_request_def TrimPrefix_def HasPrefix_def AllowSignedIn_def checkCSRF_def)
  have "mux_route h ''POST'' (URL_EscapedPath (token_request ''/control/pause'')) = Some Pause"
    by (simp add: pause_path mux_route_pause h)
  then have "routed (serve_route toy_env toy_inputs) http_NotFound ?r h = Inr ?c"
    unfolding routed_def stripped_def [symmetric] strip Let_def
    by (simp add: h token_request_def toy_request_def TrimPrefix_def HasPrefix_def toy_env_def toy_inputs_def)
  then have "serve toy_env toy_inputs ?r h = Inr ?c"
    by (simp add: serve_def ServeHTTP_def h) (simp add: toy_env_def)
  moreover have "URL_EscapedPath ?r = ''/cq/control/pause''" "cleanPath ''/cq/control/pause'' = ''/cq/control/pause''"
      "mux_segments ''/cq/control/pause'' = [''cq'', ''control'', ''pause'']"
    by code_simp+
  ultimately have run: "demo_serve toy_env toy_inputs ?r h = Inr ?c" by (simp add: demo_serve_def)
  have "FormValue (token_request p) ''queue'' = ''demo''" for p
    by (simp add: FormValue_def values_all_def token_request_def toy_request_def)
  then have changed: "hn_queues (snd ?c) = [False, True]"
    using control_accepted [OF who, of 2 3 4 "''pause''" "pause_action toy_ops" "''/control/pause''"]
    by (auto simp: h pause_action_def toy_ops_def)
  then have "hn_queues (snd ?c) \<noteq> hn_queues h" by (simp add: h)
  from demo_guards_queues [OF boot web_reach.start, of toy_env toy_inputs ?r "fst ?c" "snd ?c"] run this
  have "TrimPrefix (Header_Get ?r ''Authorization'') ''Bearer '' = ''s3cret''"
    by (simp add: toy_flags_def demo_default_flags_def)
  with boot run changed show ?thesis by (metis prod.collapse)
qed

subsection \<open>What the jobs report\<close>

lemma report_steps_all:
  "list_all (\<lambda>i. \<not> cx_done cx i) is \<Longrightarrow>
     report_steps cx stage n is = (map (\<lambda>i. \<lparr>prg_Completed = i, prg_Total = n, prg_Stage = stage\<rparr>) is, None)"
  by (induction "is") simp_all

text \<open>A job cut short reports the steps before the cut, and its error is that of the context.\<close>

lemma report_steps_cut:
  assumes "list_all (\<lambda>i. \<not> cx_done cx i) is" "cx_done cx j"
  shows "report_steps cx stage n (is @ j # js) =
     (map (\<lambda>i. \<lparr>prg_Completed = i, prg_Total = n, prg_Stage = stage\<rparr>) is, Some (cx_err cx))"
  using assms by (induction "is") simp_all

text \<open>Retried three times, the flaky job succeeds; the poller reschedules itself twice and ends.\<close>

lemma flaky_succeeds:
  "map (\<lambda>n. snd (fst (dj_Body submitFlaky cx n))) [0, 1, 2] =
     [Some ''upstream timeout'', Some ''upstream timeout'', None]"
  by (simp add: submitFlaky_def)

lemma poller_ends:
  "map (\<lambda>n. snd (fst (dj_Body submitPoller (cx\<lparr>cx_reschedule := Some err\<rparr>) n))) [0, 1, 2] = [Some err, Some err, None]"
  by (simp add: submitPoller_def)

end
