(* ===== verification/Fair_Runs.thy ===== *)
theory Fair_Runs
  imports Main
begin

text \<open>
  Infinite runs of a transition function and weak fairness, for the properties of the form
  ``this eventually happens''. A transition function says for an action and a state what the
  move gives, or \<open>None\<close> when the action is not enabled; a run is a sequence of actions with the
  states between them. A group of actions is treated weakly fairly when it cannot stay enabled
  for ever without one of its actions being taken.
\<close>

definition is_run :: "('a \<Rightarrow> 's \<Rightarrow> 's option) \<Rightarrow> (nat \<Rightarrow> 'a) \<Rightarrow> (nat \<Rightarrow> 's) \<Rightarrow> bool" where
  "is_run step as ss \<longleftrightarrow> (\<forall>i. step (as i) (ss i) = Some (ss (Suc i)))"

definition enabled :: "('a \<Rightarrow> 's \<Rightarrow> 's option) \<Rightarrow> 'a set \<Rightarrow> 's \<Rightarrow> bool" where
  "enabled step A s \<longleftrightarrow> (\<exists>a\<in>A. step a s \<noteq> None)"

definition weakly_fair :: "('a \<Rightarrow> 's \<Rightarrow> 's option) \<Rightarrow> 'a set \<Rightarrow> (nat \<Rightarrow> 'a) \<Rightarrow> (nat \<Rightarrow> 's) \<Rightarrow> bool" where
  "weakly_fair step A as ss \<longleftrightarrow>
     (\<forall>i. (\<forall>j\<ge>i. enabled step A (ss j)) \<longrightarrow> (\<exists>j\<ge>i. as j \<in> A))"

lemma is_runD: "is_run step as ss \<Longrightarrow> step (as i) (ss i) = Some (ss (Suc i))"
  by (simp add: is_run_def)

lemma fair_fires:
  assumes "weakly_fair step A as ss" "\<And>j. i \<le> j \<Longrightarrow> enabled step A (ss j)"
  obtains j where "i \<le> j" "as j \<in> A"
  using assms by (auto simp: weakly_fair_def)

text \<open>Fairness the other way round: again and again the group moves or cannot.\<close>

lemma weakly_fair_recurs:
  "weakly_fair step A as ss \<longleftrightarrow> (\<forall>i. \<exists>j\<ge>i. as j \<in> A \<or> \<not> enabled step A (ss j))"
  by (auto simp: weakly_fair_def)

lemma enabled_insert [simp]:
  "enabled step {} s \<longleftrightarrow> False"
  "enabled step (insert a A) s \<longleftrightarrow> step a s \<noteq> None \<or> enabled step A s"
  by (simp_all add: enabled_def)

text \<open>What one move keeps, the run keeps; with side facts that hold from some point on.\<close>

lemma run_invariant:
  assumes "i \<le> j" "P (ss i)" "\<And>k. i \<le> k \<Longrightarrow> P (ss k) \<Longrightarrow> P (ss (Suc k))"
  shows "P (ss j)"
  using assms(1,2,3) by (induction rule: dec_induct) auto

text \<open>A quantity that only grows and is bounded, or only shrinks, ends up constant.\<close>

lemma shrinking_settles:
  fixes f :: "nat \<Rightarrow> nat"
  assumes "\<And>j. i \<le> j \<Longrightarrow> f (Suc j) \<le> f j"
  obtains k where "i \<le> k" "\<And>j. k \<le> j \<Longrightarrow> f j = f k"
proof -
  define m where "m = (LEAST m. \<exists>k\<ge>i. f k = m)"
  have "\<exists>k\<ge>i. f k = m" unfolding m_def by (rule LeastI [of _ "f i"]) blast
  then obtain k where k: "i \<le> k" "f k = m" by blast
  have "f j = f k" if "k \<le> j" for j
  proof -
    have "f j \<le> f k" using that
    proof (induction rule: dec_induct)
      case (step n)
      with assms [of n] k(1) show ?case by simp
    qed simp
    moreover have "m \<le> f j" unfolding m_def by (rule Least_le, intro exI [of _ j]) (use k(1) that in simp)
    ultimately show ?thesis using k(2) by simp
  qed
  with k(1) that show thesis by blast
qed

lemma growing_settles:
  fixes f :: "nat \<Rightarrow> nat"
  assumes "\<And>j. i \<le> j \<Longrightarrow> f j \<le> f (Suc j)" "\<And>j. i \<le> j \<Longrightarrow> f j \<le> n"
  obtains k where "i \<le> k" "\<And>j. k \<le> j \<Longrightarrow> f j = f k"
proof -
  obtain k where k: "i \<le> k" "\<And>j. k \<le> j \<Longrightarrow> n - f j = n - f k"
    using shrinking_settles [of i "\<lambda>j. n - f j"] assms(1) by (metis diff_le_mono2)
  have "f j = f k" if "k \<le> j" for j
    using k(2) [OF that] assms(2) [of j] assms(2) [of k] k(1) that by simp
  with k(1) that show thesis by blast
qed

end
