(* ===== verification/Sink_Liveness.thy ===== *)
theory Sink_Liveness
  imports Sink_Laws Fair_Runs
begin

text \<open>
  What the sink's goroutines eventually do. The safety properties of \<open>Sink_Laws\<close> hold in every
  interleaving; the ones here in every interleaving that is fair to the writer: its select
  loop does not ignore a case that stays ready, and its ticker goes on ticking. Then every
  record the channel accepted reaches the store, and a Close that waits returns.
\<close>

subsection \<open>Fairness\<close>

definition receives :: "sink_action set" where
  "receives = {RunRecv, DrainRecv}"

text \<open>The cases of the writer's select loop and the end of its drain, each on its own.\<close>

definition writer_fair :: "'s store_impl \<Rightarrow> cq_consts \<Rightarrow> (nat \<Rightarrow> sink_action) \<Rightarrow> (nat \<Rightarrow> 's sink) \<Rightarrow> bool" where
  "writer_fair impl cq as ss \<longleftrightarrow>
     weakly_fair (sink_do impl cq) receives as ss \<and>
     weakly_fair (sink_do impl cq) {RunTick} as ss \<and>
     weakly_fair (sink_do impl cq) {RunDone} as ss \<and>
     weakly_fair (sink_do impl cq) {DrainEnd} as ss"

definition active :: "'s sink \<Rightarrow> bool" where
  "active s \<longleftrightarrow> sk_writer s \<noteq> WriterOff \<and> sk_writer s \<noteq> WriterExit"

definition running :: "'s sink \<Rightarrow> bool" where
  "running s \<longleftrightarrow> (\<exists>b. sk_writer s = WriterRun b)"

definition draining :: "'s sink \<Rightarrow> bool" where
  "draining s \<longleftrightarrow> (\<exists>b. sk_writer s = WriterDrain b)"

lemma active_cases: "active s \<longleftrightarrow> running s \<or> draining s"
  by (cases "sk_writer s") (auto simp: active_def running_def draining_def)

lemma enabled_writer:
  "active s \<Longrightarrow> sk_events s \<noteq> [] \<Longrightarrow> enabled (sink_do impl cq) receives s"
  "running s \<Longrightarrow> enabled (sink_do impl cq) {RunTick} s"
  "running s \<Longrightarrow> sk_done s \<Longrightarrow> enabled (sink_do impl cq) {RunDone} s"
  "draining s \<Longrightarrow> sk_events s = [] \<Longrightarrow> enabled (sink_do impl cq) {DrainEnd} s"
  by (auto simp: receives_def active_def running_def draining_def take_event_def Let_def
      split: list.split writer.split)

subsection \<open>What one move can do\<close>

text \<open>The moves that touch no record on its way: new calls, the heartbeat, retention and Close.\<close>

fun aside :: "sink_action \<Rightarrow> bool" where
  "aside (Call _) = True" | "aside (BeatTick _) = True" | "aside BeatDone = True"
| "aside (RetainStart _) = True" | "aside (RetainTick _) = True" | "aside RetainDone = True"
| "aside CloseEnter = True" | "aside CloseSignal = True" | "aside CloseReturn = True"
| "aside _ = False"

lemma aside_move:
  assumes "sink_do impl cq a s = Some s'" "aside a"
  shows "a \<notin> receives \<union> {RunTick, RunDone, DrainEnd}" "sk_conf s' = sk_conf s" "sk_epoch s' = sk_epoch s"
    "sk_events s' = sk_events s" "sk_writer s' = sk_writer s" "h_accepted s' = h_accepted s"
    "h_flushed s' = h_flushed s" "h_late s' = h_late s" "h_shed s' = h_shed s"
  by (use assms in \<open>cases a; auto simp: receives_def Let_def split: closer.splits if_splits\<close>)+

text \<open>
  What a move does to the records on their way: nothing, launching the writer, one more record
  in the channel, or one of the moves of the writer.
\<close>

lemma writer_move_cases:
  assumes "sink_do impl cq a s = Some s'"
  obtains
    (aside) "a \<notin> receives \<union> {RunTick, RunDone, DrainEnd}" "sk_conf s' = sk_conf s" "sk_epoch s' = sk_epoch s"
      "sk_events s' = sk_events s" "sk_writer s' = sk_writer s" "h_accepted s' = h_accepted s"
      "h_flushed s' = h_flushed s" "h_late s' = h_late s" "set (h_shed s) \<subseteq> set (h_shed s')"
  | (launch) "a \<notin> receives \<union> {RunTick, RunDone, DrainEnd}" "sk_conf s' = sk_conf s" "sk_epoch s' = sk_epoch s"
      "sk_events s' = sk_events s" "\<not> sk_started s" "sk_writer s' = WriterRun []" "h_accepted s' = h_accepted s"
      "h_flushed s' = h_flushed s" "h_late s' = h_late s" "h_shed s' = h_shed s"
  | (sent) r where "a \<notin> receives \<union> {RunTick, RunDone, DrainEnd}" "sk_conf s' = sk_conf s" "sk_epoch s' = sk_epoch s"
      "sk_events s' = sk_events s @ [r]" "sk_writer s' = sk_writer s" "h_accepted s' = h_accepted s @ [r]"
      "h_flushed s' = h_flushed s" "h_late s' = (if sk_done s then h_late s @ [r] else h_late s)" "h_shed s' = h_shed s"
  | (run) batch where "a = RunRecv" "sk_writer s = WriterRun batch" "take_event impl WriterRun batch s = Some s'"
  | (drain) batch where "a = DrainRecv" "sk_writer s = WriterDrain batch" "take_event impl WriterDrain batch s = Some s'"
  | (tick) batch where "a = RunTick" "sk_writer s = WriterRun batch"
      "s' = (flush impl batch s)\<lparr>sk_writer := WriterRun []\<rparr>"
  | (turn) batch where "a = RunDone" "sk_writer s = WriterRun batch" "s' = s\<lparr>sk_writer := WriterDrain batch\<rparr>"
  | (exit) batch where "a = DrainEnd" "sk_writer s = WriterDrain batch" "sk_events s = []"
      "s' = (flush impl batch s)\<lparr>sk_writer := WriterExit, sk_stopped := True\<rparr>"
proof (cases a)
  case (Start now now')
  show thesis
  proof (cases impl now now' s rule: sink_Start_cases)
    case (store r st)
    with Start assms aside show thesis by (auto simp: receives_def)
  next
    case (launch n st)
    with Start assms that(2) show thesis by (auto simp: receives_def)
  qed
next
  case (OfferCheck i)
  with assms have "offer_check i s = Some s'" by simp
  then show thesis
    by (cases rule: offer_check_cases) (use OfferCheck aside in \<open>auto simp: receives_def\<close>)
next
  case (OfferSend i)
  with assms have "offer_send i s = Some s'" by simp
  then show thesis
    by (cases rule: offer_send_cases) (use OfferSend aside sent in \<open>auto simp: receives_def\<close>)
next
  case RunRecv
  with assms run show thesis by (auto split: writer.splits)
next
  case DrainRecv
  with assms drain show thesis by (auto split: writer.splits)
next
  case RunTick
  with assms tick show thesis by (auto split: writer.splits)
next
  case RunDone
  with assms turn show thesis by (auto split: writer.splits if_splits)
next
  case DrainEnd
  with assms exit show thesis by (auto split: writer.splits if_splits)
qed (use aside aside_move [OF assms] in simp_all)

lemma move_accepts: "sink_do impl cq a s = Some s' \<Longrightarrow> \<exists>zs. h_accepted s' = h_accepted s @ zs"
  by (cases rule: writer_move_cases) (auto elim!: take_event_cases)

lemma move_conf: "sink_do impl cq a s = Some s' \<Longrightarrow> sk_conf s' = sk_conf s \<and> sk_epoch s' = sk_epoch s"
  by (cases rule: writer_move_cases) (auto elim!: take_event_cases)

lemma sink_reach_conf: "sink_reach impl cq s0 s \<Longrightarrow> sk_conf s = sk_conf s0 \<and> sk_epoch s = sk_epoch s0"
  by (induction rule: sink_reach.induct) (auto dest: move_conf)

text \<open>The records the writer has taken from the channel.\<close>

definition taken :: "'s sink \<Rightarrow> nat" where
  "taken s = length (h_flushed s) + length (held (sk_writer s))"

lemma move_takes:
  "sink_do impl cq a s = Some s' \<Longrightarrow> conserve s \<Longrightarrow> taken s' = (if a \<in> receives then Suc (taken s) else taken s)"
  by (cases rule: writer_move_cases)
    (auto simp: taken_def receives_def conserve_def elim!: take_event_cases)

text \<open>Only a receive shortens the channel.\<close>

lemma move_keeps_events:
  "sink_do impl cq a s = Some s' \<Longrightarrow> a \<notin> receives \<Longrightarrow> sk_events s \<noteq> [] \<Longrightarrow> sk_events s' \<noteq> []"
  by (cases rule: writer_move_cases) (auto simp: receives_def)

text \<open>How the writer moves between its phases.\<close>

lemma move_phase:
  assumes "sink_do impl cq a s = Some s'" "conserve s"
  shows "running s \<Longrightarrow> a \<noteq> RunDone \<Longrightarrow> running s'"
    and "running s \<Longrightarrow> a = RunDone \<Longrightarrow> draining s'"
    and "draining s \<Longrightarrow> a \<noteq> DrainEnd \<Longrightarrow> draining s'"
    and "sk_writer s = WriterExit \<Longrightarrow> sk_writer s' = WriterExit"
  by (use assms in \<open>cases rule: writer_move_cases\<close>,
      auto simp: running_def draining_def conserve_def elim!: take_event_cases)+

text \<open>The two moves after which nothing waits in the writer's batch.\<close>

lemma DrainEnd_exits: "sink_do impl cq DrainEnd s = Some s' \<Longrightarrow> sk_writer s' = WriterExit"
  by (auto split: writer.splits if_splits)

lemma DrainEnd_empty: "sink_do impl cq DrainEnd s = Some s' \<Longrightarrow> sk_events s = []"
  by (simp split: writer.splits if_splits)

lemma move_flushes:
  assumes "sink_do impl cq a s = Some s'" "conserve s" "sk_events s = []" "a = RunTick \<or> a = DrainEnd"
  shows "h_flushed s' = h_accepted s"
  using assms by (auto simp: conserve_def split: writer.splits if_splits)

subsection \<open>Along a run\<close>

text \<open>A run of a sink from a state it can reach.\<close>

definition sink_path :: "'s store_impl \<Rightarrow> cq_consts \<Rightarrow> (nat \<Rightarrow> sink_action) \<Rightarrow> (nat \<Rightarrow> 's sink) \<Rightarrow> bool" where
  "sink_path impl cq as ss \<longleftrightarrow> is_run (sink_do impl cq) as ss \<and> sink_inv (ss 0)"

lemma path_move: "sink_path impl cq as ss \<Longrightarrow> sink_do impl cq (as j) (ss j) = Some (ss (Suc j))"
  by (simp add: sink_path_def is_run_def)

lemma path_inv:
  assumes "sink_path impl cq as ss"
  shows "sink_inv (ss j)" and "conserve (ss j)" and "shape (ss j)"
proof -
  show "sink_inv (ss j)"
  proof (rule run_invariant [where i = 0 and P = sink_inv])
    show "sink_inv (ss 0)" using assms by (simp add: sink_path_def)
  qed (use path_move [OF assms] sink_inv_step in blast)+
  then show "conserve (ss j)" "shape (ss j)" by (simp_all add: sink_inv_def)
qed

lemma path_accepts:
  assumes "sink_path impl cq as ss" "i \<le> j"
  shows "\<exists>zs. h_accepted (ss j) = h_accepted (ss i) @ zs"
proof (rule run_invariant [where P = "\<lambda>s. \<exists>zs. h_accepted s = h_accepted (ss i) @ zs", OF assms(2)])
  fix k
  assume "\<exists>zs. h_accepted (ss k) = h_accepted (ss i) @ zs"
  with move_accepts [OF path_move [OF assms(1)], of k]
  show "\<exists>zs. h_accepted (ss (Suc k)) = h_accepted (ss i) @ zs" by fastforce
qed simp

lemma path_conf:
  assumes "sink_path impl cq as ss"
  shows "sk_conf (ss j) = sk_conf (ss 0)"
proof (rule run_invariant [where i = 0 and P = "\<lambda>s. sk_conf s = sk_conf (ss 0)"])
  fix k assume "sk_conf (ss k) = sk_conf (ss 0)"
  with move_conf [OF path_move [OF assms]] show "sk_conf (ss (Suc k)) = sk_conf (ss 0)" by simp
qed simp_all

text \<open>A writer that has stopped receiving, though not exited, is one whose channel is empty.\<close>

lemma settled_empty:
  assumes "sink_path impl cq as ss" "writer_fair impl cq as ss" "\<And>j. k \<le> j \<Longrightarrow> active (ss j)"
    and "\<And>j. k \<le> j \<Longrightarrow> as j \<notin> receives" "k \<le> j"
  shows "sk_events (ss j) = []"
proof (rule ccontr)
  assume full: "sk_events (ss j) \<noteq> []"
  have "enabled (sink_do impl cq) receives (ss l)" if "j \<le> l" for l
  proof (rule enabled_writer(1))
    show "active (ss l)" using assms(3,5) that by simp
    show "sk_events (ss l) \<noteq> []"
    proof (rule run_invariant [where P = "\<lambda>s. sk_events s \<noteq> []" and ss = ss, OF that full])
      fix m assume "j \<le> m" "sk_events (ss m) \<noteq> []"
      with move_keeps_events [OF path_move [OF assms(1)] assms(4)] assms(5)
      show "sk_events (ss (Suc m)) \<noteq> []" by simp
    qed
  qed
  moreover have "weakly_fair (sink_do impl cq) receives as ss" using assms(2) by (simp add: writer_fair_def)
  ultimately obtain l where "j \<le> l" "as l \<in> receives" by (metis fair_fires)
  with assms(4,5) show False by (meson le_trans)
qed

text \<open>A draining writer that no longer receives ends, on a fair run.\<close>

lemma drain_fires:
  assumes "writer_fair impl cq as ss" "\<And>j. k \<le> j \<Longrightarrow> draining (ss j) \<and> sk_events (ss j) = []"
  obtains j where "k \<le> j" "as j = DrainEnd"
proof -
  have "weakly_fair (sink_do impl cq) {DrainEnd} as ss" using assms(1) by (simp add: writer_fair_def)
  then show thesis
    by (rule fair_fires [of _ _ _ _ k]) (use assms(2) enabled_writer(4) that in auto)
qed

lemma tick_fires:
  assumes "writer_fair impl cq as ss" "\<And>j. k \<le> j \<Longrightarrow> running (ss j)"
  obtains j where "k \<le> j" "as j = RunTick"
proof -
  have "weakly_fair (sink_do impl cq) {RunTick} as ss" using assms(1) by (simp add: writer_fair_def)
  then show thesis
    by (rule fair_fires [of _ _ _ _ k]) (use assms(2) enabled_writer(2) that in auto)
qed

lemma RunDone_fires:
  assumes "writer_fair impl cq as ss" "\<And>j. k \<le> j \<Longrightarrow> running (ss j) \<and> sk_done (ss j)"
  obtains j where "k \<le> j" "as j = RunDone"
proof -
  have "weakly_fair (sink_do impl cq) {RunDone} as ss" using assms(1) by (simp add: writer_fair_def)
  then show thesis
    by (rule fair_fires [of _ _ _ _ k]) (use assms(2) enabled_writer(3) that in auto)
qed

text \<open>A writer that never exits either runs for ever or drains for ever from some point on.\<close>

lemma phase_settles:
  assumes "sink_path impl cq as ss" "\<And>j. k \<le> j \<Longrightarrow> active (ss j)" "\<And>j. k \<le> j \<Longrightarrow> as j \<noteq> DrainEnd"
  obtains "\<And>j. k \<le> j \<Longrightarrow> running (ss j)" | m where "k \<le> m" "\<And>j. m \<le> j \<Longrightarrow> draining (ss j)"
proof (cases "\<exists>m\<ge>k. draining (ss m)")
  case True
  then obtain m where m: "k \<le> m" "draining (ss m)" by blast
  have "draining (ss j)" if "m \<le> j" for j
  proof (rule run_invariant [where P = draining and ss = ss, OF that m(2)])
    fix l assume "m \<le> l" "draining (ss l)"
    with move_phase(3) [OF path_move [OF assms(1)] path_inv(2) [OF assms(1)]] assms(3) [of l] m(1)
    show "draining (ss (Suc l))" by simp
  qed
  with m(1) that(2) show thesis by blast
next
  case False
  with assms(2) that(1) show thesis by (auto simp: active_cases)
qed

lemma append_prefix: "xs @ ys = us @ vs \<Longrightarrow> length us \<le> length xs \<Longrightarrow> \<exists>zs. xs = us @ zs"
  by (auto simp: append_eq_append_conv2)

subsection \<open>Accepted records reach the store\<close>

lemma path_active:
  assumes "sink_path impl cq as ss" "active (ss i)" "\<And>j. i \<le> j \<Longrightarrow> as j \<noteq> DrainEnd" "i \<le> j"
  shows "active (ss j)"
proof (rule run_invariant [where P = active and ss = ss, OF assms(4,2)])
  fix k assume "i \<le> k" "active (ss k)"
  then show "active (ss (Suc k))"
    using move_phase [OF path_move [OF assms(1)] path_inv(2) [OF assms(1)], of k] assms(3) [of k]
    by (auto simp: active_cases)
qed

text \<open>
  As long as fewer than \<open>n\<close> records have been flushed, the writer can have taken no more than
  \<open>n\<close> and a batch: its receives come to an end.
\<close>

lemma receives_settle:
  assumes "sink_path impl cq as ss" "\<And>j. i \<le> j \<Longrightarrow> length (h_flushed (ss j)) \<le> n"
  obtains k where "i \<le> k" "\<And>j. k \<le> j \<Longrightarrow> as j \<notin> receives"
proof -
  note move = move_takes [OF path_move [OF assms(1)] path_inv(2) [OF assms(1)]]
  have "taken (ss j) \<le> n + nat (sc_batchSize (sk_conf (ss 0)))" if "i \<le> j" for j
  proof -
    have "int (length (held (sk_writer (ss j)))) < sc_batchSize (sk_conf (ss 0))"
      using path_inv(3) [OF assms(1), of j] path_conf [OF assms(1), of j] by (simp add: shape_def)
    with assms(2) [OF that] show ?thesis by (simp add: taken_def)
  qed
  then obtain k where k: "i \<le> k" "\<And>j. k \<le> j \<Longrightarrow> taken (ss j) = taken (ss k)"
    using growing_settles [of i "\<lambda>j. taken (ss j)"] move by (metis le_Suc_eq le_refl)
  have "as j \<notin> receives" if "k \<le> j" for j
    using move [of j] k(2) [OF that] k(2) [of "Suc j"] that by (auto split: if_splits)
  with k(1) that show thesis by blast
qed

lemma path_flushes:
  assumes "sink_path impl cq as ss" "writer_fair impl cq as ss" "active (ss i)"
  shows "\<exists>j\<ge>i. length (h_accepted (ss i)) \<le> length (h_flushed (ss j))"
proof (rule ccontr)
  assume "\<not> ?thesis"
  then have short: "length (h_flushed (ss j)) < length (h_accepted (ss i))" if "i \<le> j" for j
    using that by (meson not_le)
  have unflushed: "h_flushed (ss (Suc j)) \<noteq> h_accepted (ss j)" if "i \<le> j" for j
    using path_accepts [OF assms(1) that] short [of "Suc j"] that by auto
  note flushes = move_flushes [OF path_move [OF assms(1)] path_inv(2) [OF assms(1)]]
  have on: "as j \<noteq> DrainEnd" if "i \<le> j" for j
    using flushes [of j] unflushed [OF that] path_move [OF assms(1), of j] DrainEnd_empty by metis
  note act = path_active [OF assms(1,3) on]
  obtain k where k: "i \<le> k" "\<And>j. k \<le> j \<Longrightarrow> as j \<notin> receives"
    by (rule receives_settle [OF assms(1) short [THEN less_imp_le], of i]) (assumption, rule that)
  have empty: "sk_events (ss j) = []" if "k \<le> j" for j
    by (rule settled_empty [OF assms(1,2) act k(2) that]) (use k(1) in simp_all)
  have "\<exists>j\<ge>k. as j = RunTick \<or> as j = DrainEnd"
  proof (rule phase_settles [OF assms(1), of k])
    assume "\<And>j. k \<le> j \<Longrightarrow> running (ss j)"
    then show ?thesis using tick_fires [OF assms(2), of k] by metis
  next
    fix m assume "k \<le> m" "\<And>j. m \<le> j \<Longrightarrow> draining (ss j)"
    then show ?thesis using drain_fires [OF assms(2), of m] empty by (metis le_trans)
  qed (use act on k(1) in \<open>meson le_trans\<close>)+
  then obtain j where "k \<le> j" "as j = RunTick \<or> as j = DrainEnd" by blast
  with flushes [of j] empty unflushed [of j] k(1) show False by simp
qed

text \<open>
  C5. Every record the channel accepts is handed to the store in the end. On a run of the
  sink that is fair to its writer, with whatever the callers, the heartbeat, the retention
  loop and Close do in between and however often the store fails, the records accepted up to
  a point where the writer is at work are, from some later point on, a prefix of the records
  flushed, in the same order.
\<close>

theorem accepted_eventually_flushed:
  assumes "sink_reach impl cq (sink_New st now pid opts) (ss 0)"
    and "is_run (sink_do impl cq) as ss" "writer_fair impl cq as ss"
    and "sk_writer (ss i) \<noteq> WriterOff" "sk_writer (ss i) \<noteq> WriterExit"
  shows "\<exists>j\<ge>i. \<exists>zs. h_flushed (ss j) = h_accepted (ss i) @ zs"
proof -
  have path: "sink_path impl cq as ss"
    using assms(1,2) sink_inv_reachable by (auto simp: sink_path_def)
  have "active (ss i)" using assms(4,5) by (simp add: active_def)
  from path_flushes [OF path assms(3) this]
  obtain j where j: "i \<le> j" "length (h_accepted (ss i)) \<le> length (h_flushed (ss j))" by blast
  obtain zs where "h_accepted (ss j) = h_accepted (ss i) @ zs" using path_accepts [OF path j(1)] by blast
  then have "h_flushed (ss j) @ held (sk_writer (ss j)) @ sk_events (ss j) = h_accepted (ss i) @ zs"
    using path_inv(2) [OF path, of j] by (simp add: conserve_def)
  with append_prefix j show ?thesis by blast
qed

subsection \<open>Close returns\<close>

text \<open>
  Once \<open>done\<close> is closed, what can still reach the channel is what its callers had in hand: that
  and the channel's contents only shrink.
\<close>

definition pending :: "'s sink \<Rightarrow> nat" where
  "pending s = length (poised (sk_callers s)) + length (sk_events s)"

lemma move_pending:
  assumes "sink_do impl cq a s = Some s'" "sk_done s"
  shows "pending s' \<le> pending s \<and> (a \<in> receives \<longrightarrow> pending s' < pending s)"
proof (cases a)
  case (Start now now')
  with assms show ?thesis
    by (cases impl now now' s rule: sink_Start_cases) (auto simp: pending_def receives_def)
next
  case (OfferCheck i)
  with assms show ?thesis
    by (auto simp: pending_def receives_def dest!: poised_drop [THEN mset_eq_length] elim!: offer_check_cases)
next
  case (OfferSend i)
  have "length (poised (sk_callers s)) = Suc (length (poised ((sk_callers s)[i := (False, rest)])))"
    if "i < length (sk_callers s)" "sk_callers s ! i = (True, r # rest)" for r rest
    using poised_send [OF that] by (metis size_mset size_add_mset)
  with OfferSend assms show ?thesis by (auto simp: pending_def receives_def elim!: offer_send_cases)
next
  case RunRecv
  with assms show ?thesis by (auto simp: pending_def receives_def split: writer.splits elim!: take_event_cases)
next
  case DrainRecv
  with assms show ?thesis by (auto simp: pending_def receives_def split: writer.splits elim!: take_event_cases)
qed (use assms in \<open>auto simp: pending_def receives_def Let_def split: writer.splits closer.splits if_splits\<close>)

lemma move_closing:
  assumes "sink_do impl cq a s = Some s'" "sk_closer s = CloseWait True"
  shows "if a = CloseReturn then sk_closer s' = CloseReturned True else sk_closer s' = CloseWait True"
proof (cases a)
  case (Start now now')
  with assms show ?thesis by (cases impl now now' s rule: sink_Start_cases) auto
next
  case (OfferCheck i)
  with assms show ?thesis by (auto elim!: offer_check_cases)
next
  case (OfferSend i)
  with assms show ?thesis by (auto elim!: offer_send_cases)
next
  case RunRecv
  with assms show ?thesis by (auto split: writer.splits elim!: take_event_cases)
next
  case DrainRecv
  with assms show ?thesis by (auto split: writer.splits elim!: take_event_cases)
qed (use assms in \<open>auto simp: Let_def split: writer.splits if_splits\<close>)

text \<open>Once \<open>done\<close> is closed, a fair writer exits.\<close>

lemma path_exits:
  assumes "sink_path impl cq as ss" "writer_fair impl cq as ss" "active (ss i)" "\<And>j. i \<le> j \<Longrightarrow> sk_done (ss j)"
  shows "\<exists>j\<ge>i. sk_writer (ss j) = WriterExit"
proof (rule ccontr)
  assume "\<not> ?thesis"
  then have never: "sk_writer (ss j) \<noteq> WriterExit" if "i \<le> j" for j using that by blast
  have on: "as j \<noteq> DrainEnd" if "i \<le> j" for j
    using never [of "Suc j"] that path_move [OF assms(1), of j] DrainEnd_exits by (metis le_SucI)
  note act = path_active [OF assms(1,3) on]
  show False
  proof (rule phase_settles [OF assms(1) act on])
    assume run: "\<And>j. i \<le> j \<Longrightarrow> running (ss j)"
    then obtain j where "i \<le> j" "as j = RunDone" using RunDone_fires [OF assms(2), of i] assms(4) by metis
    with move_phase(2) [OF path_move [OF assms(1)] path_inv(2) [OF assms(1)], of j] run [of j] run [of "Suc j"]
    show False by (auto simp: running_def draining_def)
  next
    fix m assume m: "i \<le> m" "\<And>j. m \<le> j \<Longrightarrow> draining (ss j)"
    note pend = move_pending [OF path_move [OF assms(1)]]
    obtain k where k: "m \<le> k" "\<And>j. k \<le> j \<Longrightarrow> pending (ss j) = pending (ss k)"
      using shrinking_settles [of m "\<lambda>j. pending (ss j)"] pend assms(4) m(1) by (metis le_trans)
    have "as j \<notin> receives" if "k \<le> j" for j
      using pend [of j] assms(4) [of j] k(2) [of j] k(2) [of "Suc j"] that k(1) m(1) by fastforce
    with settled_empty [OF assms(1,2), of k] act k(1) m(1)
    have "sk_events (ss j) = []" if "k \<le> j" for j using that by (meson le_trans)
    then obtain j where "k \<le> j" "as j = DrainEnd"
      using drain_fires [OF assms(2), of k] m(2) k(1) by (metis le_trans)
    with on [of j] k(1) m(1) show False by simp
  qed
qed

text \<open>
  C13. A Close that waits returns. On a run fair to the writer and to the closing caller, from
  the moment \<open>done\<close> is closed and whatever the producers go on offering, the writer drains, exits,
  and Close returns.
\<close>

theorem Close_eventually_returns:
  assumes "sink_reach impl cq (sink_New st now pid opts) (ss 0)"
    and "is_run (sink_do impl cq) as ss" "writer_fair impl cq as ss"
    and "weakly_fair (sink_do impl cq) {CloseReturn} as ss"
    and "sk_closer (ss i) = CloseWait True"
  shows "\<exists>j\<ge>i. sk_closer (ss j) = CloseReturned True \<and> sk_writer (ss j) = WriterExit"
proof -
  have path: "sink_path impl cq as ss"
    using assms(1,2) sink_inv_reachable by (auto simp: sink_path_def)
  have "\<exists>j\<ge>i. sk_closer (ss j) = CloseReturned True"
  proof (rule ccontr)
    assume unreturned: "\<not> ?thesis"
    have wait: "sk_closer (ss j) = CloseWait True" if "i \<le> j" for j
    proof (rule run_invariant [where P = "\<lambda>s. sk_closer s = CloseWait True" and ss = ss, OF that assms(5)])
      fix k assume "i \<le> k" "sk_closer (ss k) = CloseWait True"
      with move_closing [OF path_move [OF path], of k] unreturned show "sk_closer (ss (Suc k)) = CloseWait True"
        by (metis le_SucI)
    qed
    have shaped: "sk_done (ss j)" "sk_writer (ss j) \<noteq> WriterOff" "sk_stopped (ss j) \<longleftrightarrow> sk_writer (ss j) = WriterExit"
      if "i \<le> j" for j
      using path_inv(3) [OF path, of j] wait [OF that] by (auto simp: shape_def)
    obtain k where k: "i \<le> k" "sk_writer (ss k) = WriterExit"
      using path_exits [OF path assms(3), of i] shaped by (auto simp: active_def)
    have "sk_writer (ss j) = WriterExit" if "k \<le> j" for j
      by (rule run_invariant [where P = "\<lambda>s. sk_writer s = WriterExit" and ss = ss, OF that k(2)])
        (use move_phase(4) [OF path_move [OF path] path_inv(2) [OF path]] in metis)
    then have "enabled (sink_do impl cq) {CloseReturn} (ss j)" if "k \<le> j" for j
      using that k(1) wait [of j] shaped [of j] by simp
    then obtain j where "k \<le> j" "as j \<in> {CloseReturn}" by (metis fair_fires [OF assms(4)])
    with move_closing [OF path_move [OF path], of j] wait [of j] unreturned k(1) show False
      by (metis le_SucI le_trans singletonD)
  qed
  then obtain j where "i \<le> j" "sk_closer (ss j) = CloseReturned True" by blast
  with path_inv(3) [OF path, of j] show ?thesis by (auto simp: shape_def)
qed

subsection \<open>The drain ends on every schedule\<close>

lemma move_done: "sink_do impl cq a s = Some s' \<Longrightarrow> sk_done s \<Longrightarrow> sk_done s'"
proof (cases a)
  case (Start now now')
  then show "sink_do impl cq a s = Some s' \<Longrightarrow> sk_done s \<Longrightarrow> sk_done s'"
    by (cases impl now now' s rule: sink_Start_cases) auto
qed (auto simp: Let_def split: writer.splits closer.splits if_splits
    elim!: offer_check_cases offer_send_cases take_event_cases)

lemma move_flushed: "sink_do impl cq a s = Some s' \<Longrightarrow> \<exists>zs. h_flushed s' = h_flushed s @ zs"
  by (cases rule: writer_move_cases) (auto elim!: take_event_cases)

lemma run_flushed: "sink_run impl cq as s = Some s' \<Longrightarrow> \<exists>zs. h_flushed s' = h_flushed s @ zs"
proof (induction as arbitrary: s)
  case (Cons a as)
  then obtain s1 where s1: "sink_do impl cq a s = Some s1" "sink_run impl cq as s1 = Some s'"
    by (auto split: option.splits)
  from move_flushed [OF s1(1)] Cons.IH [OF s1(2)] show ?case by fastforce
qed simp

definition drain_moves :: "sink_action list \<Rightarrow> nat" where
  "drain_moves as = length (filter (\<lambda>a. a \<in> {DrainRecv, DrainEnd}) as)"

lemma drain_moves_simps [simp]:
  "drain_moves [] = 0" "drain_moves (a # as) = (if a \<in> {DrainRecv, DrainEnd} then Suc (drain_moves as) else drain_moves as)"
  by (simp_all add: drain_moves_def)

abbreviation exited :: "'s sink \<Rightarrow> bool" where
  "exited s \<equiv> sk_writer s = WriterExit"

lemma drain_step:
  assumes "sink_do impl cq a s = Some s'" "conserve s" "sk_done s" "draining s \<or> exited s"
  shows "draining s' \<or> exited s'"
    and "drain_moves [a] + pending s' + of_bool (exited s) \<le> pending s + of_bool (exited s')"
    and "draining s \<Longrightarrow> exited s' \<Longrightarrow> h_flushed s' = h_accepted s"
proof -
  note phase = move_phase [OF assms(1,2)] and pend = move_pending [OF assms(1,3)]
  have ends: "a = DrainEnd \<Longrightarrow> draining s \<and> exited s' \<and> sk_events s = []"
    and recv: "a = DrainRecv \<Longrightarrow> draining s"
    using assms(1) by (auto simp: draining_def split: writer.splits if_splits)
  have apart: "draining u \<Longrightarrow> \<not> exited u" for u :: "'a sink" by (auto simp: draining_def)
  show next': "draining s' \<or> exited s'" using phase(3,4) ends assms(4) by blast
  show "drain_moves [a] + pending s' + of_bool (exited s) \<le> pending s + of_bool (exited s')"
    using pend phase(4) ends recv apart [of s] apart [of s'] phase(3) assms(4)
    by (cases "a = DrainEnd"; cases "a = DrainRecv"; cases "exited s") (auto simp: receives_def)
  show "h_flushed s' = h_accepted s" if "draining s" "exited s'"
    using move_flushes [OF assms(1,2)] ends phase(3) that apart [of s'] by blast
qed

lemma drain_run:
  assumes "sink_run impl cq as s = Some s'" "sink_inv s" "sk_done s" "draining s \<or> exited s"
  shows "draining s' \<or> exited s'"
    and "drain_moves as + pending s' + of_bool (exited s) \<le> pending s + of_bool (exited s')"
    and "draining s \<Longrightarrow> exited s' \<Longrightarrow> \<exists>zs. h_flushed s' = h_accepted s @ zs"
  using assms
proof (induction as arbitrary: s)
  case Nil
  { case 1 then show ?case by simp }
  { case 2 then show ?case by simp }
  { case 3 then show ?case by (simp add: draining_def) }
next
  case (Cons a as)
  have split: "\<exists>s1. sink_do impl cq a s = Some s1 \<and> sink_run impl cq as s1 = Some s' \<and> sink_inv s1 \<and> sk_done s1 \<and>
      (draining s1 \<or> exited s1)"
    if "sink_run impl cq (a # as) s = Some s'" "sink_inv s" "sk_done s" "draining s \<or> exited s" for s
    using that sink_inv_step move_done drain_step(1)
    by (simp add: sink_inv_def split: option.splits) blast
  { case 1
    from split [OF 1] obtain s1 where s1: "sink_do impl cq a s = Some s1" "sink_run impl cq as s1 = Some s'" "sink_inv s1"
      "sk_done s1" "draining s1 \<or> exited s1" by blast
    show ?case by (rule Cons.IH(1) [OF s1(2-5)]) }
  { case 2
    with split obtain s1 where s1: "sink_do impl cq a s = Some s1" "sink_run impl cq as s1 = Some s'" "sink_inv s1"
      "sk_done s1" "draining s1 \<or> exited s1" by blast
    have "conserve s" using 2(2) by (simp add: sink_inv_def)
    note step = drain_step(2) [OF s1(1) this 2(3,4)] Cons.IH(2) [OF s1(2-5)]
    have "drain_moves (a # as) = drain_moves [a] + drain_moves as" by simp
    with step show ?case by linarith }
  { case 3
    with split obtain s1 where s1: "sink_do impl cq a s = Some s1" "sink_run impl cq as s1 = Some s'" "sink_inv s1"
      "sk_done s1" "draining s1 \<or> exited s1" by blast
    show ?case
    proof (cases "draining s1")
      case True
      from Cons.IH(3) [OF this 3(2) s1(2-5)] move_accepts [OF s1(1)] show ?thesis by fastforce
    next
      case False
      with s1 3 drain_step(3) [OF s1(1)] have "h_flushed s1 = h_accepted s" by (auto simp: sink_inv_def)
      with run_flushed [OF s1(2)] show ?thesis by simp
    qed }
qed

text \<open>
  C14. The drain of a closing sink ends, whatever the schedule. Once the writer has turned to
  draining, then along every further run, fair or not and with callers still offering, it
  makes at most one receive for each record buffered or in the hand of a caller, and one move
  to end; until it has ended one of the two moves is open to it, the end exactly when the
  channel is empty, so it can neither be stuck nor stop early; and when it has ended
  everything accepted before has been handed to the store, in order.
\<close>

theorem drain_terminates:
  assumes "sink_reach impl cq (sink_New st now pid opts) s" "sk_writer s = WriterDrain batch"
    and "sink_run impl cq as s = Some s'"
  shows "drain_moves as \<le> length (sk_events s) + length (poised (sk_callers s)) + 1 \<and>
    (if sk_writer s' = WriterExit then \<exists>zs. h_flushed s' = h_accepted s @ zs
     else (sink_do impl cq DrainRecv s' \<noteq> None \<longleftrightarrow> sk_events s' \<noteq> []) \<and>
          (sink_do impl cq DrainEnd s' \<noteq> None \<longleftrightarrow> sk_events s' = []))"
proof -
  have inv: "sink_inv s" using sink_inv_reachable [OF assms(1)] .
  then have "sk_done s" using assms(2) by (auto simp: sink_inv_def shape_def)
  note run = drain_run [OF assms(3) inv this]
  have s: "draining s" "\<not> exited s" using assms(2) by (simp_all add: draining_def)
  have "drain_moves as \<le> pending s + 1" using run(2) s by (cases "exited s'") simp_all
  moreover have "draining s' \<Longrightarrow> (sink_do impl cq DrainRecv s' \<noteq> None \<longleftrightarrow> sk_events s' \<noteq> []) \<and>
          (sink_do impl cq DrainEnd s' \<noteq> None \<longleftrightarrow> sk_events s' = [])"
    by (auto simp: draining_def take_event_def Let_def split: list.splits if_splits)
  ultimately show ?thesis using run(1,3) s by (auto simp: pending_def)
qed

text \<open>
  The witness drains with one record in the batch, one in the channel and one in the hand of
  a caller that passed the test of \<open>done\<close> and sends during the drain.
\<close>

theorem drain_terminates_witness:
  "\<exists>s s'. sink_run mem_impl demo_cq
       [Start 5 5, Call (HookCall OnEnqueue demo_event), OfferCheck 0, OfferSend 0, RunRecv,
        Call (HookCall OnEnqueue demo_event), OfferCheck 1, OfferSend 1,
        Call (HookCall OnEnqueue demo_event), OfferCheck 2, CloseEnter, CloseSignal, RunDone] demo_sink = Some s \<and>
     sink_run mem_impl demo_cq [DrainRecv, OfferSend 2, DrainRecv, DrainEnd] s = Some s' \<and>
     drain_moves [DrainRecv, OfferSend 2, DrainRecv, DrainEnd] = length (sk_events s) + length (poised (sk_callers s)) + 1 \<and>
     sk_writer s' = WriterExit \<and> (\<exists>zs. h_flushed s' = h_accepted s @ zs) \<and> length (h_accepted s) = 2"
proof -
  obtain s where run: "sink_run mem_impl demo_cq
       [Start 5 5, Call (HookCall OnEnqueue demo_event), OfferCheck 0, OfferSend 0, RunRecv,
        Call (HookCall OnEnqueue demo_event), OfferCheck 1, OfferSend 1,
        Call (HookCall OnEnqueue demo_event), OfferCheck 2, CloseEnter, CloseSignal, RunDone] demo_sink = Some s"
    and s: "sk_writer s = WriterDrain [hd (h_accepted s)]" "length (sk_events s) = 1"
      "length (poised (sk_callers s)) = 1" "length (h_accepted s) = 2"
      "\<exists>s'. sink_run mem_impl demo_cq [DrainRecv, OfferSend 2, DrainRecv, DrainEnd] s = Some s' \<and> sk_writer s' = WriterExit"
    by (simp add: demo_defs poised_def)
  from s(5) obtain s' where s': "sink_run mem_impl demo_cq [DrainRecv, OfferSend 2, DrainRecv, DrainEnd] s = Some s'"
      "sk_writer s' = WriterExit" by blast
  from drain_terminates [OF sink_run_reach [OF run [unfolded demo_sink_def]] s(1) s'(1)] s' run s(2-4)
  show ?thesis by (intro exI [of _ s] exI [of _ s']) (simp add: drain_moves_def del: sink_run.simps)
qed

subsection \<open>What becomes of a flushed job\<close>

text \<open>
  On the way from \<open>s0\<close> to \<open>s\<close> the store refused a batch with this job in it: the call that wrote the
  batch returned an error, and the move handed that error to the handler.
\<close>

definition refused_job :: "'s store_impl \<Rightarrow> cq_consts \<Rightarrow> 's sink \<Rightarrow> 's sink \<Rightarrow> job \<Rightarrow> bool" where
  "refused_job impl cq s0 s j \<longleftrightarrow>
     (\<exists>s1 a s2 batch err st. sink_reach impl cq s0 s1 \<and> sink_do impl cq a s1 = Some s2 \<and> sink_reach impl cq s2 s \<and>
        j \<in> set batch \<and> si_UpsertJobs impl (sk_store s1) batch = (Some err, st) \<and>
        err \<in> set (drop (length (sk_reported s1)) (sk_reported s2)))"

text \<open>
  On that way the record was dropped for want of room: its caller had passed the test of \<open>done\<close>,
  which was still open, the channel was full, and the send was given up and counted.
\<close>

definition dropped_full :: "'s store_impl \<Rightarrow> cq_consts \<Rightarrow> 's sink \<Rightarrow> 's sink \<Rightarrow> sink_record \<Rightarrow> bool" where
  "dropped_full impl cq s0 s r \<longleftrightarrow>
     (\<exists>s1 i s2 rest. sink_reach impl cq s0 s1 \<and> \<not> sk_done s1 \<and> sk_callers s1 ! i = (True, r # rest) \<and>
        int (length (sk_events s1)) = sc_buffer (sk_conf s1) \<and> offer_send i s1 = Some s2 \<and>
        sk_dropped s2 = sk_dropped s1 + 1 \<and> h_shed s2 = h_shed s1 @ [r] \<and> sink_reach impl cq s2 s)"

lemma refused_job_move:
  "refused_job impl cq s0 s j \<Longrightarrow> sink_do impl cq a s = Some s' \<Longrightarrow> refused_job impl cq s0 s' j"
  unfolding refused_job_def by (metis sink_reach.move)

lemma dropped_full_move:
  "dropped_full impl cq s0 s r \<Longrightarrow> sink_do impl cq a s = Some s' \<Longrightarrow> dropped_full impl cq s0 s' r"
  unfolding dropped_full_def by (metis sink_reach.move)

text \<open>What the store took and what was reported only grows.\<close>

definition grows :: "'s sink \<Rightarrow> 's sink \<Rightarrow> bool" where
  "grows s s' \<longleftrightarrow> set (h_jobs s) \<subseteq> set (h_jobs s') \<and> set (h_shed s) \<subseteq> set (h_shed s') \<and>
     (\<exists>zs. sk_reported s' = sk_reported s @ zs)"

lemma grows_writes:
  "grows s (flush impl b s)" "grows s (sink_beat impl t s)" "grows s (sink_prune impl t s)"
  by (auto simp: grows_def flush_def flush_jobs_def flush_attempts_def sink_beat_def sink_prune_def reportError_def
      split: prod.split option.split sum.split)

lemma grows_refl: "grows s s"
  by (simp add: grows_def)

lemma grows_irrelevant [simp]:
  "grows s (s'\<lparr>sk_writer := w\<rparr>) = grows s s'" "grows s (s'\<lparr>sk_stopped := b\<rparr>) = grows s s'"
  "grows s (s'\<lparr>sk_beater := x\<rparr>) = grows s s'" "grows s (s'\<lparr>sk_retainer := y\<rparr>) = grows s s'"
  "grows (s\<lparr>sk_events := e\<rparr>) s' = grows s s'"
  by (simp_all add: grows_def)

lemma grows_take_event:
  assumes "take_event impl pc b s = Some s'"
  shows "grows s s'"
  using assms
proof (cases rule: take_event_cases)
  case (full r rest)
  with grows_writes(1) [of "s\<lparr>sk_events := rest\<rparr>" impl "b @ [r]"] show ?thesis by simp
qed (simp_all add: grows_def)

lemma move_grows: "sink_do impl cq a s = Some s' \<Longrightarrow> grows s s'"
proof (cases a)
  case (Start now now')
  then show "sink_do impl cq a s = Some s' \<Longrightarrow> grows s s'"
    by (cases impl now now' s rule: sink_Start_cases) (auto simp: grows_def)
next
  case (OfferCheck i)
  then show "sink_do impl cq a s = Some s' \<Longrightarrow> grows s s'"
    by (auto simp: grows_def drop_record_def elim!: offer_check_cases)
next
  case (OfferSend i)
  then show "sink_do impl cq a s = Some s' \<Longrightarrow> grows s s'"
    by (auto simp: grows_def drop_record_def elim!: offer_send_cases)
next
  case (Call c)
  then show "sink_do impl cq a s = Some s' \<Longrightarrow> grows s s'" by (auto simp: grows_def Let_def)
qed (auto simp: grows_writes grows_refl dest: grows_take_event split: writer.splits closer.splits if_splits,
     auto simp: grows_def)

lemma reach_grows: "sink_reach impl cq s0 s \<Longrightarrow> grows s0 s"
proof (induction rule: sink_reach.induct)
  case here
  then show ?case by (simp add: grows_def)
next
  case (move s a s')
  from move.IH move_grows [OF move.hyps(2)] show ?case by (fastforce simp: grows_def)
qed

text \<open>A batch written out: each of its jobs was taken, or the error was reported.\<close>

lemma flush_fate:
  assumes "sc_onError (sk_conf s)" "job_record j \<in> set batch"
  shows "j \<in> set (h_jobs (flush impl batch s)) \<or>
    (\<exists>err st. si_UpsertJobs impl (sk_store s) (batch_jobs batch) = (Some err, st) \<and>
       err \<in> set (drop (length (sk_reported s)) (sk_reported (flush impl batch s))))"
proof -
  have "j \<in> set (batch_jobs batch)" using assms(2) by (force simp: batch_jobs_def job_record_def)
  then show ?thesis
    using assms by (auto simp: flush_def flush_jobs_def flush_attempts_def reportError_def split: prod.split option.split)
qed

lemma move_fate:
  assumes "sink_do impl cq a s = Some s'" "sc_onError (sk_conf s)" "job_record j \<in> set (h_flushed s')"
  shows "job_record j \<in> set (h_flushed s) \<or> j \<in> set (h_jobs s') \<or>
    (\<exists>batch err st. j \<in> set batch \<and> si_UpsertJobs impl (sk_store s) batch = (Some err, st) \<and>
       err \<in> set (drop (length (sk_reported s)) (sk_reported s')))"
proof -
  have wrote: ?thesis
    if "h_flushed s' = h_flushed s @ batch" "h_jobs s' = h_jobs (flush impl batch s0)"
      "sk_reported s' = sk_reported (flush impl batch s0)" "sk_store s0 = sk_store s" "sk_conf s0 = sk_conf s"
      "sk_reported s0 = sk_reported s" for batch s0
  proof (cases "job_record j \<in> set batch")
    case True
    then have "j \<in> set (batch_jobs batch)" by (force simp: batch_jobs_def job_record_def)
    with flush_fate [OF _ True, of s0 impl] assms(2) that show ?thesis by auto
  qed (use assms(3) that in auto)
  have take: ?thesis if "take_event impl pc batch s = Some s'" for pc batch
    using that
  proof (cases rule: take_event_cases)
    case (full r rest)
    then show ?thesis by (intro wrote [of "batch @ [r]" "s\<lparr>sk_events := rest\<rparr>"]) simp_all
  qed (use assms(3) in auto)
  show ?thesis
    using assms(1)
  proof (cases rule: writer_move_cases)
    case (tick batch)
    then show ?thesis by (intro wrote [of batch s]) simp_all
  next
    case (exit batch)
    then show ?thesis by (intro wrote [of batch s]) simp_all
  qed (use assms(3) take in auto)
qed

lemma flushed_fate:
  assumes "sink_reach impl cq s0 s" "sc_onError (sk_conf s0)" "h_flushed s0 = []" "job_record j \<in> set (h_flushed s)"
  shows "j \<in> set (h_jobs s) \<or> refused_job impl cq s0 s j"
  using assms(1,4)
proof (induction rule: sink_reach.induct)
  case here
  with assms(3) show ?case by simp
next
  case (move s a s')
  have "sc_onError (sk_conf s)" using sink_reach_conf [OF move.hyps(1)] assms(2) by simp
  from move_fate [OF move.hyps(2) this move.prems] show ?case
  proof (elim disjE)
    assume "job_record j \<in> set (h_flushed s)"
    with move.IH move_grows [OF move.hyps(2)] refused_job_move [OF _ move.hyps(2)] show ?thesis
      by (auto simp: grows_def)
  next
    assume "\<exists>batch err st. j \<in> set batch \<and> si_UpsertJobs impl (sk_store s) batch = (Some err, st) \<and>
       err \<in> set (drop (length (sk_reported s)) (sk_reported s'))"
    then have "refused_job impl cq s0 s' j"
      unfolding refused_job_def using move.hyps sink_reach.here by blast
    then show ?thesis ..
  qed simp
qed

text \<open>An error handler that was never called has refused nothing.\<close>

lemma refused_reports: "refused_job impl cq s0 s j \<Longrightarrow> sk_reported s \<noteq> []"
  unfolding refused_job_def using reach_grows by (fastforce simp: grows_def)

lemma dropped_sheds: "dropped_full impl cq s0 s r \<Longrightarrow> r \<in> set (h_shed s)"
  unfolding dropped_full_def using reach_grows by (fastforce simp: grows_def)

subsection \<open>A fair run\<close>

text \<open>
  A finite script that leaves the writer gone makes a fair run when the sink idles afterwards: a
  second Start does nothing.
\<close>

definition script_actions :: "sink_action list \<Rightarrow> nat \<Rightarrow> sink_action" where
  "script_actions xs i = (if i < length xs then xs ! i else Start 0 0)"

definition script_states :: "'s store_impl \<Rightarrow> cq_consts \<Rightarrow> sink_action list \<Rightarrow> 's sink \<Rightarrow> nat \<Rightarrow> 's sink" where
  "script_states impl cq xs s i = the (sink_run impl cq (take i xs) s)"

lemma sink_run_take:
  assumes "sink_run impl cq xs s = Some s'"
  shows "sink_run impl cq (take i xs) s = Some (script_states impl cq xs s i)"
  using assms sink_run_append [of impl cq "take i xs" "drop i xs" s]
  by (auto simp: script_states_def split: option.splits)

lemma script_run:
  assumes "sink_run impl cq xs s = Some s'" "sk_started s'"
  shows "is_run (sink_do impl cq) (script_actions xs) (script_states impl cq xs s)"
  unfolding is_run_def
proof
  fix i
  note takes = sink_run_take [OF assms(1)]
  show "sink_do impl cq (script_actions xs i) (script_states impl cq xs s i) = Some (script_states impl cq xs s (Suc i))"
  proof (cases "i < length xs")
    case True
    then have "take (Suc i) xs = take i xs @ [xs ! i]" by (rule take_Suc_conv_app_nth)
    with takes [of i] takes [of "Suc i"] True show ?thesis
      by (auto simp: script_actions_def sink_run_append split: option.splits simp del: sink_do.simps)
  next
    case False
    with assms show ?thesis by (simp add: script_actions_def script_states_def sink_Start_def)
  qed
qed

lemma script_fair:
  assumes "sink_run impl cq xs s = Some s'" "sk_writer s' = WriterExit" "sk_closer s' = CloseReturned b"
  shows "writer_fair impl cq (script_actions xs) (script_states impl cq xs s)"
    and "weakly_fair (sink_do impl cq) {CloseReturn} (script_actions xs) (script_states impl cq xs s)"
proof -
  have late: "script_states impl cq xs s (i + length xs) = s'" for i
    using assms(1) by (simp add: script_states_def)
  have "\<not> enabled (sink_do impl cq) A s'"
    if "A \<in> {receives, {RunTick}, {RunDone}, {DrainEnd}, {CloseReturn}}" for A
    using that assms(2,3) by (auto simp: receives_def)
  then have "weakly_fair (sink_do impl cq) A (script_actions xs) (script_states impl cq xs s)"
    if "A \<in> {receives, {RunTick}, {RunDone}, {DrainEnd}, {CloseReturn}}" for A
    unfolding weakly_fair_recurs using that late by (metis le_add1)
  then show "writer_fair impl cq (script_actions xs) (script_states impl cq xs s)"
    "weakly_fair (sink_do impl cq) {CloseReturn} (script_actions xs) (script_states impl cq xs s)"
    by (simp_all add: writer_fair_def)
qed

definition full_script :: "sink_action list" where
  "full_script = [Start 5 5, Call (HookCall OnEnqueue demo_event), OfferCheck 0, OfferSend 0, RunRecv, RunTick,
     CloseEnter, CloseSignal, RunDone, DrainEnd, CloseReturn]"

definition full_end :: "mem_store sink" where
  "full_end = the (sink_run mem_impl demo_cq full_script demo_sink)"

lemma full_script_run:
  "sink_run mem_impl demo_cq full_script demo_sink = Some full_end" "sk_started full_end"
  "sk_writer full_end = WriterExit" "sk_closer full_end = CloseReturned True"
  by (simp_all add: full_end_def full_script_def demo_defs)

abbreviation full_states :: "nat \<Rightarrow> mem_store sink" where
  "full_states \<equiv> script_states mem_impl demo_cq full_script demo_sink"

lemma full_states:
  "full_states 0 = demo_sink" "sk_writer (full_states 4) = WriterRun []" "length (h_accepted (full_states 4)) = 1"
  "h_flushed (full_states 4) = []" "sk_closer (full_states 8) = CloseWait True"
  by (simp_all add: script_states_def full_script_def demo_defs)

theorem accepted_eventually_flushed_witness:
  "is_run (sink_do mem_impl demo_cq) (script_actions full_script) full_states \<and>
   writer_fair mem_impl demo_cq (script_actions full_script) full_states \<and>
   length (h_accepted (full_states 4)) = 1 \<and> h_flushed (full_states 4) = [] \<and>
   (\<exists>j\<ge>4. \<exists>zs. h_flushed (full_states j) = h_accepted (full_states 4) @ zs)"
  using accepted_eventually_flushed [of mem_impl demo_cq mem_Open 3 4 "[OptBuffer 1, OptBatchSize 2]" full_states
      "script_actions full_script" 4]
    script_run [OF full_script_run(1,2)] script_fair [OF full_script_run(1,3,4)] full_states
  by (simp add: sink_reach.here demo_sink_def [symmetric])

theorem Close_eventually_returns_witness:
  "sk_closer (full_states 8) = CloseWait True \<and>
   weakly_fair (sink_do mem_impl demo_cq) {CloseReturn} (script_actions full_script) full_states \<and>
   (\<exists>j\<ge>8. sk_closer (full_states j) = CloseReturned True \<and> sk_writer (full_states j) = WriterExit)"
  using Close_eventually_returns [of mem_impl demo_cq mem_Open 3 4 "[OptBuffer 1, OptBatchSize 2]" full_states
      "script_actions full_script" 8]
    script_run [OF full_script_run(1,2)] script_fair [OF full_script_run(1,3,4)] full_states
  by (simp add: sink_reach.here demo_sink_def [symmetric])

end
