(* ===== verification/Demo_Run.thy ===== *)
theory Demo_Run
  imports Demo Sink_Liveness
begin

text \<open>
  The life of the demonstration program after its start-up: the two producers, and the main
  goroutine from the signal to its return, interleaved with everything else that moves the
  sink. What \<open>StopDrain\<close> of a cq queue hands back is an argument; that it emits \<open>OnAbandon\<close> for
  each job it hands back, in the goroutine that called it, is documented and is how the model
  goes through them. An error of \<open>StopDrain\<close> is only logged. The HTTP server runs beside all this
  and shares no state with it but the handler; a listener that fails ends the process, which
  cuts a run short.
\<close>

subsection \<open>Producers\<close>

text \<open>
  One pass of a producer's select: \<open>stop\<close> is closed, or the ticker fires and \<open>rand.Intn\<close> draws a
  number. A result of \<open>None\<close> is a panic: of \<open>time.NewTicker\<close>, for a period that is not positive, or
  of an index out of range.
\<close>

datatype producer_event = Stopped | Ticked nat

fun produce_loop :: "(nat \<Rightarrow> demo_job option) \<Rightarrow> producer_event list \<Rightarrow> demo_job list option" where
  "produce_loop submit [] = Some []"
| "produce_loop submit (Stopped # es) = Some []"
| "produce_loop submit (Ticked n # es) =
     (case submit n of
        None \<Rightarrow> None
      | Some j \<Rightarrow> map_option (Cons j) (produce_loop submit es))"

definition produce :: "duration \<Rightarrow> producer_event list \<Rightarrow> demo_job list option" where
  "produce rate es = (if rate \<le> 0 then None else produce_loop produce_tick es)"

definition produceReports :: "duration \<Rightarrow> producer_event list \<Rightarrow> demo_job list option" where
  "produceReports rate es = (if rate \<le> 0 then None else produce_loop (\<lambda>n. Some produceReports_job) es)"

definition demo_producers ::
    "demo_flags \<Rightarrow> producer_event list \<Rightarrow> producer_event list \<Rightarrow> demo_job list option \<times> demo_job list option" where
  "demo_producers fl es es' = (produce (fl_rate fl) es, produceReports (int64 (fl_rate fl * 4)) es')"

subsection \<open>The main goroutine\<close>

text \<open>
  Where it stands: waiting for a signal, going through what a queue handed back (the jobs still
  to be reported), inside \<open>offer\<close> for one of them as the caller at a position, and in the three
  moves of \<open>Close\<close>.
\<close>

datatype demo_queue = DemoQueue | ReportsQueue

datatype main_pc =
    MainServe
  | MainDrain demo_queue "cq_event list"
  | MainOffer nat demo_queue "cq_event list"
  | MainClose
  | MainSignal
  | MainWait
  | MainDone

record 's demo_state =
  ds_pc :: main_pc
  ds_sink :: "'s sink"
  ds_drained :: "cq_event list"

definition main_does ::
    "'s store_impl \<Rightarrow> cq_consts \<Rightarrow> sink_action \<Rightarrow> main_pc \<Rightarrow> 's demo_state \<Rightarrow> 's demo_state option" where
  "main_does impl cq a pc d = map_option (\<lambda>s. d\<lparr>ds_sink := s, ds_pc := pc\<rparr>) (sink_do impl cq a (ds_sink d))"

text \<open>One move of main; \<open>es\<close> is what \<open>StopDrain\<close> hands back where it is called.\<close>

fun main_move :: "'s store_impl \<Rightarrow> cq_consts \<Rightarrow> cq_event list \<Rightarrow> 's demo_state \<Rightarrow> 's demo_state option" where
  "main_move impl cq es d =
     (case ds_pc d of
        MainServe \<Rightarrow> Some (d\<lparr>ds_pc := MainDrain DemoQueue es, ds_drained := es\<rparr>)
      | MainDrain q (e # rest) \<Rightarrow>
          main_does impl cq (Call (HookCall OnAbandon e)) (MainOffer (length (sk_callers (ds_sink d))) q rest) d
      | MainDrain DemoQueue [] \<Rightarrow> Some (d\<lparr>ds_pc := MainDrain ReportsQueue es, ds_drained := ds_drained d @ es\<rparr>)
      | MainDrain ReportsQueue [] \<Rightarrow> Some (d\<lparr>ds_pc := MainClose\<rparr>)
      | MainOffer i q rest \<Rightarrow>
          (case sk_callers (ds_sink d) ! i of
             (tested, []) \<Rightarrow> Some (d\<lparr>ds_pc := MainDrain q rest\<rparr>)
           | (tested, r # rs) \<Rightarrow>
               main_does impl cq (if tested then OfferSend i else OfferCheck i) (MainOffer i q rest) d)
      | MainClose \<Rightarrow> main_does impl cq CloseEnter MainSignal d
      | MainSignal \<Rightarrow> main_does impl cq CloseSignal MainWait d
      | MainWait \<Rightarrow> main_does impl cq CloseReturn MainDone d
      | MainDone \<Rightarrow> None)"

text \<open>The other goroutines neither start nor close the sink, and do not act for main inside \<open>offer\<close>.\<close>

fun others_may :: "main_pc \<Rightarrow> sink_action \<Rightarrow> bool" where
  "others_may pc (Start _ _) = False"
| "others_may pc CloseEnter = False"
| "others_may pc CloseSignal = False"
| "others_may pc CloseReturn = False"
| "others_may (MainOffer i _ _) (OfferCheck j) = (j \<noteq> i)"
| "others_may (MainOffer i _ _) (OfferSend j) = (j \<noteq> i)"
| "others_may pc a = True"

datatype demo_move = Main "cq_event list" | Other sink_action

fun demo_do :: "'s store_impl \<Rightarrow> cq_consts \<Rightarrow> demo_move \<Rightarrow> 's demo_state \<Rightarrow> 's demo_state option" where
  "demo_do impl cq (Main es) d = main_move impl cq es d"
| "demo_do impl cq (Other a) d = (if others_may (ds_pc d) a then main_does impl cq a (ds_pc d) d else None)"

fun demo_run :: "'s store_impl \<Rightarrow> cq_consts \<Rightarrow> demo_move list \<Rightarrow> 's demo_state \<Rightarrow> 's demo_state option" where
  "demo_run impl cq [] d = Some d"
| "demo_run impl cq (m # ms) d =
     (case demo_do impl cq m d of None \<Rightarrow> None | Some d' \<Rightarrow> demo_run impl cq ms d')"

inductive demo_reach :: "'s store_impl \<Rightarrow> cq_consts \<Rightarrow> 's demo_state \<Rightarrow> 's demo_state \<Rightarrow> bool"
  for impl :: "'s store_impl" and cq :: cq_consts and d0 :: "'s demo_state" where
  here: "demo_reach impl cq d0 d0"
| move: "demo_reach impl cq d0 d \<Longrightarrow> demo_do impl cq m d = Some d' \<Longrightarrow> demo_reach impl cq d0 d'"

definition demo_up :: "'s sink \<Rightarrow> 's demo_state" where
  "demo_up sk = \<lparr>ds_pc = MainServe, ds_sink = sk, ds_drained = []\<rparr>"

subsection \<open>Producers submit until they are stopped\<close>

text \<open>The numbers drawn before the producer is stopped.\<close>

fun draws :: "producer_event list \<Rightarrow> nat list" where
  "draws [] = []"
| "draws (Stopped # es) = []"
| "draws (Ticked n # es) = n # draws es"

lemma produce_loop_total:
  "list_all (\<lambda>n. submit n \<noteq> None) (draws es) \<Longrightarrow> produce_loop submit es = Some (map (the \<circ> submit) (draws es))"
  by (induction submit es rule: produce_loop.induct) auto

text \<open>
  With a positive rate whose fourfold fits, neither producer panics, and each submits one job
  per tick until it is stopped; with a rate that is not positive both panic, and nothing in the
  start-up refuses it.
\<close>

lemma producers_run:
  assumes "0 < fl_rate fl" "fl_rate fl * 4 \<le> maxInt64" "list_all (\<lambda>n. n < 5) (draws es)"
  shows "demo_producers fl es es' =
     (Some (map (\<lambda>n. produce_kinds ! n) (draws es)), Some (map (\<lambda>_. produceReports_job) (draws es')))"
proof -
  have "int64 (fl_rate fl * 4) = fl_rate fl * 4" using assms(1,2) by (simp add: int64_id)
  moreover have "list_all (\<lambda>n. produce_tick n \<noteq> None) (draws es)" "map (the \<circ> produce_tick) (draws es) = map ((!) produce_kinds) (draws es)"
    using assms(3) by (auto simp: list_all_iff produce_tick_def produce_kinds_def)
  ultimately show ?thesis
    using assms(1) produce_loop_total [of produce_tick es] produce_loop_total [of "\<lambda>_. Some produceReports_job" es']
    by (simp add: demo_producers_def produce_def produceReports_def list_all_iff comp_def)
qed

lemma producers_need_rate:
  assumes "fl_rate fl \<le> 0" "minInt64 \<le> fl_rate fl * 4"
  shows "demo_producers fl es es' = (None, None)"
proof -
  have "int64 (fl_rate fl * 4) = fl_rate fl * 4" using assms by (simp add: int64_id)
  with assms show ?thesis by (simp add: demo_producers_def produce_def produceReports_def)
qed

subsection \<open>What a shutdown records\<close>

text \<open>
  The records that entered the channel before \<open>done\<close> was closed; with them, those dropped because
  the channel was full then.
\<close>

definition timely :: "'s sink \<Rightarrow> sink_record list" where
  "timely s = take (length (h_accepted s) - length (h_late s)) (h_accepted s)"

definition settled :: "'s store_impl \<Rightarrow> cq_consts \<Rightarrow> 's sink \<Rightarrow> 's sink \<Rightarrow> sink_record set" where
  "settled impl cq s0 s = set (timely s) \<union> {r. dropped_full impl cq s0 s r}"

text \<open>A record is shed at the send only when the channel is full; the shedding is counted.\<close>

lemma offer_send_full:
  assumes "offer_send i s = Some s'" "h_shed s' \<noteq> h_shed s" "sink_inv s"
  shows "int (length (sk_events s)) = sc_buffer (sk_conf s)"
proof -
  have "sc_buffer (sk_conf s) \<le> int (length (sk_events s))"
    using assms(1,2) by (auto simp: offer_send_def split: if_splits prod.splits list.splits bool.splits)
  then show ?thesis using assms(3) by (auto simp: sink_inv_def shape_def)
qed

lemma timely_open: "sink_inv s \<Longrightarrow> \<not> sk_done s \<Longrightarrow> timely s = h_accepted s"
  by (simp add: timely_def sink_inv_def lateness_def)

lemma timely_mono:
  assumes "sink_do impl cq a s = Some s'" "sink_inv s"
  shows "set (timely s) \<subseteq> set (timely s')"
  using assms(1)
proof (cases rule: writer_move_cases)
  case (sent r)
  with assms(2) show ?thesis by (cases "sk_done s") (auto simp: timely_def sink_inv_def lateness_def)
qed (auto simp: timely_def elim!: take_event_cases)

lemma settled_mono:
  assumes "sink_do impl cq a s = Some s'" "sink_inv s"
  shows "settled impl cq s0 s \<subseteq> settled impl cq s0 s'"
  using timely_mono [OF assms] dropped_full_move [OF _ assms(1)] by (auto simp: settled_def)

text \<open>When the writer has exited, what is left in the channel came too late.\<close>

lemma settled_exit:
  assumes "sink_inv s" "sk_writer s = WriterExit"
  shows "settled impl cq s0 s \<subseteq> set (h_flushed s) \<union> {r. dropped_full impl cq s0 s r}"
proof -
  have acc: "h_accepted s = h_flushed s @ sk_events s" using assms by (simp add: sink_inv_def conserve_def)
  have "mset (sk_events s) \<subseteq># mset (h_late s)" using assms by (simp add: sink_inv_def lateness_def)
  then have "length (sk_events s) \<le> length (h_late s)" using size_mset_mono by fastforce
  then have "timely s = take (length (h_accepted s) - length (h_late s)) (h_flushed s)"
    by (simp add: timely_def acc)
  then show ?thesis by (auto simp: settled_def dest: in_set_takeD)
qed

definition abandon_record :: "cq_consts \<Rightarrow> 's sink \<Rightarrow> cq_event \<Rightarrow> sink_record" where
  "abandon_record cq s e = hd (Hooks cq (sk_epoch s) OnAbandon e)"

lemma Hooks_OnAbandon: "Hooks cq (sk_epoch s) OnAbandon e = [abandon_record cq s e]"
  by (simp add: abandon_record_def offerJob_def)

lemma abandon_record_move: "sink_do impl cq' a s = Some s' \<Longrightarrow> abandon_record cq s' = abandon_record cq s"
  by (drule move_conf) (simp add: abandon_record_def fun_eq_iff)

text \<open>The invariant of main: how far Close is, and what has become of each job handed back.\<close>

fun expected_closer :: "main_pc \<Rightarrow> closer" where
  "expected_closer MainSignal = CloseRead True"
| "expected_closer MainWait = CloseWait True"
| "expected_closer MainDone = CloseReturned True"
| "expected_closer pc = CloseOff"

fun outstanding :: "main_pc \<Rightarrow> cq_event list" where
  "outstanding (MainDrain q es) = es"
| "outstanding (MainOffer i q es) = es"
| "outstanding pc = []"

fun in_hand :: "main_pc \<Rightarrow> 's sink \<Rightarrow> sink_record list" where
  "in_hand (MainOffer i q es) s = snd (sk_callers s ! i)"
| "in_hand pc s = []"

definition main_inv :: "'s store_impl \<Rightarrow> cq_consts \<Rightarrow> 's sink \<Rightarrow> 's demo_state \<Rightarrow> bool" where
  "main_inv impl cq s0 d \<longleftrightarrow>
     sink_reach impl cq s0 (ds_sink d) \<and> sink_inv (ds_sink d) \<and> sk_started (ds_sink d) \<and>
     sk_closer (ds_sink d) = expected_closer (ds_pc d) \<and>
     (\<forall>i q es. ds_pc d = MainOffer i q es \<longrightarrow> i < length (sk_callers (ds_sink d))) \<and>
     length (in_hand (ds_pc d) (ds_sink d)) \<le> 1 \<and>
     abandon_record cq (ds_sink d) ` set (ds_drained d) \<subseteq>
       abandon_record cq (ds_sink d) ` set (outstanding (ds_pc d)) \<union>
       settled impl cq s0 (ds_sink d) \<union> set (in_hand (ds_pc d) (ds_sink d))"

text \<open>What the other goroutines leave alone.\<close>

lemma others_keep:
  assumes "sink_do impl cq a s = Some s'" "others_may pc a" "sk_started s"
  shows "sk_closer s' = sk_closer s \<and> sk_started s' \<and> length (sk_callers s) \<le> length (sk_callers s') \<and>
    (\<forall>i q es. pc = MainOffer i q es \<and> i < length (sk_callers s) \<longrightarrow> sk_callers s' ! i = sk_callers s ! i)"
proof (cases a)
  case (OfferCheck j)
  with assms have "offer_check j s = Some s'" by simp
  then show ?thesis using assms(2,3) OfferCheck by (cases rule: offer_check_cases) auto
next
  case (OfferSend j)
  with assms have "offer_send j s = Some s'" by simp
  then show ?thesis using assms(2,3) OfferSend by (cases rule: offer_send_cases) auto
next
  case RunRecv
  with assms show ?thesis by (auto split: writer.splits elim!: take_event_cases)
next
  case DrainRecv
  with assms show ?thesis by (auto split: writer.splits elim!: take_event_cases)
qed (use assms in \<open>auto simp: Let_def nth_append split: writer.splits if_splits\<close>)

text \<open>
  A move of the sink that takes main from \<open>ds_pc d\<close> to \<open>pc\<close>: what has to be said of it is how far
  Close is, what main has in hand, and where the jobs it still had to report or had in hand are.
\<close>

lemma accounted: "D \<subseteq> B \<union> S \<union> H \<Longrightarrow> B \<union> H \<subseteq> B' \<union> S' \<union> H' \<Longrightarrow> S \<subseteq> S' \<Longrightarrow> D \<subseteq> B' \<union> S' \<union> H'"
  by blast

lemma main_inv_does:
  assumes "main_inv impl cq s0 d" "main_does impl cq a pc d = Some d'"
    and "\<And>s'. sink_do impl cq a (ds_sink d) = Some s' \<Longrightarrow>
      sk_started s' \<and> sk_closer s' = expected_closer pc \<and> length (in_hand pc s') \<le> 1 \<and>
      (\<forall>i q es. pc = MainOffer i q es \<longrightarrow> i < length (sk_callers s')) \<and>
      abandon_record cq s' ` set (outstanding (ds_pc d)) \<union> set (in_hand (ds_pc d) (ds_sink d)) \<subseteq>
        abandon_record cq s' ` set (outstanding pc) \<union> settled impl cq s0 s' \<union> set (in_hand pc s')"
  shows "main_inv impl cq s0 d'"
proof -
  obtain s' where s': "sink_do impl cq a (ds_sink d) = Some s'" "d' = d\<lparr>ds_sink := s', ds_pc := pc\<rparr>"
    using assms(2) by (auto simp: main_does_def)
  have inv: "sink_inv (ds_sink d)" and reach: "sink_reach impl cq s0 (ds_sink d)"
    using assms(1) by (simp_all add: main_inv_def)
  let ?rec = "abandon_record cq s'"
  have "?rec ` set (ds_drained d) \<subseteq>
      ?rec ` set (outstanding (ds_pc d)) \<union> settled impl cq s0 (ds_sink d) \<union> set (in_hand (ds_pc d) (ds_sink d))"
    using assms(1) by (simp add: main_inv_def abandon_record_move [OF s'(1)])
  moreover have "?rec ` set (outstanding (ds_pc d)) \<union> set (in_hand (ds_pc d) (ds_sink d)) \<subseteq>
      ?rec ` set (outstanding pc) \<union> settled impl cq s0 s' \<union> set (in_hand pc s')"
    using assms(3) [OF s'(1)] by (elim conjE)
  ultimately have "?rec ` set (ds_drained d) \<subseteq> ?rec ` set (outstanding pc) \<union> settled impl cq s0 s' \<union> set (in_hand pc s')"
    using settled_mono [OF s'(1) inv] by (rule accounted)
  moreover have "ds_sink d' = s'" "ds_pc d' = pc" "ds_drained d' = ds_drained d" by (simp_all add: s'(2))
  ultimately show ?thesis
    using assms(3) [OF s'(1)] sink_inv_step [OF s'(1) inv] sink_reach.move [OF reach s'(1)]
    unfolding main_inv_def by metis
qed

lemma main_inv_other:
  assumes "main_inv impl cq s0 d" "demo_do impl cq (Other a) d = Some d'"
  shows "main_inv impl cq s0 d'"
proof (rule main_inv_does [OF assms(1)])
  show "main_does impl cq a (ds_pc d) d = Some d'" using assms(2) by (simp split: if_splits)
  fix s' assume s': "sink_do impl cq a (ds_sink d) = Some s'"
  have keep: "sk_closer s' = sk_closer (ds_sink d) \<and> sk_started s' \<and>
      length (sk_callers (ds_sink d)) \<le> length (sk_callers s') \<and> in_hand (ds_pc d) s' = in_hand (ds_pc d) (ds_sink d)"
    using others_keep [OF s', of "ds_pc d"] assms by (cases "ds_pc d") (auto simp: main_inv_def split: if_splits)
  with assms(1) show "sk_started s' \<and> sk_closer s' = expected_closer (ds_pc d) \<and> length (in_hand (ds_pc d) s') \<le> 1 \<and>
      (\<forall>i q es. ds_pc d = MainOffer i q es \<longrightarrow> i < length (sk_callers s')) \<and>
      abandon_record cq s' ` set (outstanding (ds_pc d)) \<union> set (in_hand (ds_pc d) (ds_sink d)) \<subseteq>
        abandon_record cq s' ` set (outstanding (ds_pc d)) \<union> settled impl cq s0 s' \<union> set (in_hand (ds_pc d) s')"
    by (auto simp: main_inv_def)
qed

lemma main_inv_call:
  assumes "main_inv impl cq s0 d" "ds_pc d = MainDrain q (e # rest)"
    and "main_does impl cq (Call (HookCall OnAbandon e)) (MainOffer (length (sk_callers (ds_sink d))) q rest) d = Some d'"
  shows "main_inv impl cq s0 d'"
  by (rule main_inv_does [OF assms(1,3)])
    (use assms(1,2) in \<open>auto simp: main_inv_def Let_def Hooks_OnAbandon simp del: Hooks.simps,
       auto simp: abandon_record_def\<close>)

lemma main_inv_offer:
  assumes "main_inv impl cq s0 d" "ds_pc d = MainOffer i q rest" "sk_callers (ds_sink d) ! i = (tested, r # rs)"
    and "main_does impl cq (if tested then OfferSend i else OfferCheck i) (MainOffer i q rest) d = Some d'"
  shows "main_inv impl cq s0 d'"
proof (rule main_inv_does [OF assms(1,4)])
  have inv: "sink_inv (ds_sink d)" and reach: "sink_reach impl cq s0 (ds_sink d)" and here: "i < length (sk_callers (ds_sink d))" "rs = []"
    and closer: "sk_closer (ds_sink d) = CloseOff" "sk_started (ds_sink d)"
    using assms(1-3) by (auto simp: main_inv_def)
  then have running: "\<not> sk_done (ds_sink d)" by (simp add: sink_inv_def shape_def)
  fix s' assume s': "sink_do impl cq (if tested then OfferSend i else OfferCheck i) (ds_sink d) = Some s'"
  show "sk_started s' \<and> sk_closer s' = expected_closer (MainOffer i q rest) \<and> length (in_hand (MainOffer i q rest) s') \<le> 1 \<and>
      (\<forall>j q' es. MainOffer i q rest = MainOffer j q' es \<longrightarrow> j < length (sk_callers s')) \<and>
      abandon_record cq s' ` set (outstanding (ds_pc d)) \<union> set (in_hand (ds_pc d) (ds_sink d)) \<subseteq>
        abandon_record cq s' ` set (outstanding (MainOffer i q rest)) \<union> settled impl cq s0 s' \<union> set (in_hand (MainOffer i q rest) s')"
  proof (cases tested)
    case True
    with s' have "offer_send i (ds_sink d) = Some s'" by simp
    note send = this
    then show ?thesis
    proof (cases rule: offer_send_cases)
      case (sent r' rest')
      then have "timely s' = h_accepted s'" using timely_open [OF sink_inv_step [OF s' inv]] running by simp
      with sent here closer assms(2,3) show ?thesis by (auto simp: settled_def)
    next
      case (shed r' rest')
      have "sink_reach impl cq s0 s'" using reach s' by (rule sink_reach.move)
      moreover have "int (length (sk_events (ds_sink d))) = sc_buffer (sk_conf (ds_sink d))"
        using offer_send_full [OF send _ inv] shed(3) by simp
      ultimately have "dropped_full impl cq s0 s' r'"
        unfolding dropped_full_def using reach running shed send sink_reach.here [of impl cq s']
        by (intro exI [of _ "ds_sink d"] exI [of _ i] exI [of _ s'] exI [of _ rest']) simp
      with shed here closer assms(2,3) show ?thesis by (auto simp: settled_def)
    qed
  next
    case False
    with s' have "offer_check i (ds_sink d) = Some s'" by simp
    then show ?thesis
      using here closer running assms(2,3) False by (cases rule: offer_check_cases) auto
  qed
qed

lemma main_inv_close:
  assumes "main_inv impl cq s0 d" "main_does impl cq a pc d = Some d'"
    and "(ds_pc d, a, pc) \<in> {(MainClose, CloseEnter, MainSignal), (MainSignal, CloseSignal, MainWait),
           (MainWait, CloseReturn, MainDone)}"
  shows "main_inv impl cq s0 d'"
  by (rule main_inv_does [OF assms(1,2)]) (use assms(1,3) in \<open>auto simp: main_inv_def split: if_splits\<close>)

text \<open>A move of main that does not touch the sink.\<close>

lemma accounted_image: "f ` D \<subseteq> f ` B \<union> S \<Longrightarrow> B \<subseteq> B' \<Longrightarrow> D' \<subseteq> D \<union> B' \<Longrightarrow> f ` D' \<subseteq> f ` B' \<union> S"
  by blast

lemma main_inv_goes:
  assumes "main_inv impl cq s0 d" "ds_sink d' = ds_sink d" "expected_closer (ds_pc d') = expected_closer (ds_pc d)"
    and "\<And>i q es. ds_pc d' \<noteq> MainOffer i q es" "in_hand (ds_pc d) (ds_sink d) = []"
    and "set (outstanding (ds_pc d)) \<subseteq> set (outstanding (ds_pc d'))"
    and "set (ds_drained d') \<subseteq> set (ds_drained d) \<union> set (outstanding (ds_pc d'))"
  shows "main_inv impl cq s0 d'"
proof -
  have "in_hand (ds_pc d') (ds_sink d) = []" using assms(4) by (cases "ds_pc d'") auto
  moreover have "abandon_record cq (ds_sink d) ` set (ds_drained d') \<subseteq>
      abandon_record cq (ds_sink d) ` set (outstanding (ds_pc d')) \<union> settled impl cq s0 (ds_sink d)"
    by (rule accounted_image [OF _ assms(6,7)]) (use assms(1,5) in \<open>simp add: main_inv_def\<close>)
  ultimately show ?thesis using assms(1-5) by (simp add: main_inv_def)
qed

lemma main_inv_step:
  assumes "main_inv impl cq s0 d" "demo_do impl cq m d = Some d'"
  shows "main_inv impl cq s0 d'"
proof (cases m)
  case (Other a)
  with assms show ?thesis by (metis main_inv_other)
next
  case (Main es)
  with assms(2) have move: "main_move impl cq es d = Some d'" by simp
  show ?thesis
  proof (cases "ds_pc d")
    case MainServe
    with move main_inv_goes [OF assms(1)] show ?thesis by auto
  next
    case (MainDrain q rest)
    with move main_inv_goes [OF assms(1)] show ?thesis
      by (cases rest; cases q) (auto dest: main_inv_call [OF assms(1)])
  next
    case (MainOffer i q rest)
    obtain tested rs where "sk_callers (ds_sink d) ! i = (tested, rs)" by fastforce
    with move MainOffer main_inv_goes [OF assms(1)] show ?thesis
      by (cases rs) (auto dest: main_inv_offer [OF assms(1) MainOffer])
  qed (use move main_inv_close [OF assms(1)] in auto)
qed

lemma main_inv_reach: "demo_reach impl cq d0 d \<Longrightarrow> main_inv impl cq s0 d0 \<Longrightarrow> main_inv impl cq s0 d"
  by (induction rule: demo_reach.induct) (auto intro: main_inv_step)

text \<open>What has started is a run of the sink from its start.\<close>

lemma demo_sink_moves:
  "demo_do impl cq m d = Some d' \<Longrightarrow> sink_reach impl cq (ds_sink d) (ds_sink d')"
  by (cases m)
    (auto simp: main_does_def split: if_splits main_pc.splits list.splits demo_queue.splits prod.splits
      intro: sink_reach.intros simp del: sink_do.simps)

lemma demo_sink_reach:
  "demo_reach impl cq d0 d \<Longrightarrow> sink_reach impl cq (ds_sink d0) (ds_sink d)"
  by (induction rule: demo_reach.induct) (auto intro: sink_reach.here sink_reach_trans demo_sink_moves)

lemma demo_booted:
  assumes "demo_boot dd impl ops t now now' pid queue reports sched fl = Inr (n, sk, h)"
  obtains st where "sink_reach impl cq (sink_New st t pid (demo_sink_options fl)) sk"
    and "main_inv impl cq sk (demo_up sk)" and "sc_onError (sk_conf sk)" and "h_flushed sk = []"
proof -
  obtain st where start: "sink_Start impl now now' (sink_New st t pid (demo_sink_options fl)) = (Inr n, sk)"
    using assms by (auto simp: demo_boot_def split: sum.splits prod.splits)
  have fresh: "\<not> sk_started (sink_New st t pid (demo_sink_options fl))" by (simp add: sink_New_def)
  have reach: "sink_reach impl cq (sink_New st t pid (demo_sink_options fl)) sk"
    by (rule sink_reach.move [OF sink_reach.here, of _ _ "Start now now'"]) (simp add: start)
  obtain st' where sk: "sk = (sink_New st t pid (demo_sink_options fl))\<lparr>sk_store := st', sk_started := True,
      sk_writer := WriterRun [], sk_beater := BeatRun,
      sk_retainer := (if sc_retentionAge (sk_conf (sink_New st t pid (demo_sink_options fl))) > 0
                      then RetainFirst else RetainOff)\<rparr>"
    using sink_Start_success [OF start fresh] by metis
  have "main_inv impl cq sk (demo_up sk)"
    using sink_inv_reachable [OF reach] by (simp add: main_inv_def demo_up_def sk sink_New_def sink_reach.here)
  moreover have "sc_onError (sk_conf sk)" "h_flushed sk = []"
    by (simp_all add: sk sink_New_def demo_sink_options_def WithErrorHandler_def WithRetention_def)
  ultimately show thesis using reach that by blast
qed

text \<open>
  C37. A shutdown accounts for every job it hands back. Started with any flags over any store, and
  whatever the queues, the writer and the other goroutines do in the meantime, when main returns
  the sink is closed and its writer gone, and for each job that either \<open>StopDrain\<close> handed back one
  of three things has happened to the record of its abandonment: the store took it, in a call
  that returned no error; or the store refused a batch that held it, and the error was handed to
  the error handler; or the channel was full at the moment of the send, with \<open>done\<close> still open, and
  the record was dropped and counted. It is never lost because the sink was closed too early.
\<close>

theorem demo_shutdown_records:
  assumes "demo_boot dd impl ops t now now' pid queue reports sched fl = Inr (n, sk, h)"
    and "demo_reach impl cq (demo_up sk) d" "ds_pc d = MainDone" "e \<in> set (ds_drained d)"
  shows "\<exists>j. offerJob cq (sk_epoch (ds_sink d)) e StateAbandoned = [job_record j] \<and>
     sk_writer (ds_sink d) = WriterExit \<and>
     (j \<in> set (h_jobs (ds_sink d)) \<or> refused_job impl cq sk (ds_sink d) j \<or>
      dropped_full impl cq sk (ds_sink d) (job_record j))"
proof -
  let ?s = "ds_sink d"
  obtain st where boot: "sink_reach impl cq (sink_New st t pid (demo_sink_options fl)) sk"
      "main_inv impl cq sk (demo_up sk)" "sc_onError (sk_conf sk)" "h_flushed sk = []"
    using demo_booted [OF assms(1)] by metis
  have moves: "sink_reach impl cq sk ?s" using demo_sink_reach [OF assms(2)] by (simp add: demo_up_def)
  have inv: "main_inv impl cq sk d" by (rule main_inv_reach [OF assms(2) boot(2)])
  then have closed: "sink_inv ?s" "sk_closer ?s = CloseReturned True" using assms(3) by (simp_all add: main_inv_def)
  then have exit: "sk_writer ?s = WriterExit" by (auto simp: sink_inv_def shape_def)
  obtain j where j: "abandon_record cq ?s e = job_record j" "offerJob cq (sk_epoch ?s) e StateAbandoned = [job_record j]"
    by (simp add: abandon_record_def offerJob_def)
  have "job_record j \<in> settled impl cq sk ?s" using inv assms(3,4) j(1) by (auto simp: main_inv_def)
  with settled_exit [OF closed(1) exit]
  have "job_record j \<in> set (h_flushed ?s) \<or> dropped_full impl cq sk ?s (job_record j)" by blast
  with flushed_fate [OF moves boot(3,4)] exit j(2) show ?thesis by blast
qed

lemma demo_run_reach:
  "demo_run impl cq ms d = Some d' \<Longrightarrow> demo_reach impl cq d0 d \<Longrightarrow> demo_reach impl cq d0 d'"
  by (induction ms arbitrary: d) (auto split: option.splits intro: demo_reach.move simp del: demo_do.simps)

definition toy_sink :: "mem_store sink" where
  "toy_sink = snd (sink_Start mem_impl 5 5 (sink_New mem_Open 3 4 (demo_sink_options toy_flags)))"

definition toy_shutdown :: "demo_move list" where
  "toy_shutdown = [Main [demo_event], Main [], Main [], Main [], Main [], Main [], Main [], Main [], Main [],
     Other RunDone, Other DrainRecv, Other DrainEnd, Main []]"

lemma toy_boots:
  "\<exists>h. demo_boot toy_drivers mem_impl toy_ops 3 5 5 4 False False 0 toy_flags = Inr (0, toy_sink, h)"
proof -
  obtain sk h where boot: "demo_boot toy_drivers mem_impl toy_ops 3 5 5 4 False False 0 toy_flags = Inr (0, sk, h)"
    using demo_boots by blast
  moreover have "openStore toy_drivers (fl_db toy_flags) (fl_pg toy_flags) = Inr mem_Open"
    by (simp add: openStore_def toy_drivers_def toy_flags_def demo_default_flags_def sqlite_Open_def)
  ultimately have "sk = toy_sink" by (auto simp: demo_boot_def toy_sink_def split: sum.splits prod.splits)
  with boot show ?thesis by blast
qed

lemma toy_shutdown_run:
  "\<exists>d. demo_run mem_impl demo_cq toy_shutdown (demo_up toy_sink) = Some d \<and> ds_pc d = MainDone \<and>
     ds_drained d = [demo_event] \<and> sk_reported (ds_sink d) = [] \<and> h_shed (ds_sink d) = []"
  by (simp add: toy_shutdown_def demo_up_def toy_sink_def main_does_def demo_defs demo_sink_options_def
      WithErrorHandler_def WithRetention_def toy_flags_def demo_default_flags_def)

theorem demo_shutdown_records_witness:
  "\<exists>h d j. demo_boot toy_drivers mem_impl toy_ops 3 5 5 4 False False 0 toy_flags = Inr (0, toy_sink, h) \<and>
     demo_run mem_impl demo_cq toy_shutdown (demo_up toy_sink) = Some d \<and>
     offerJob demo_cq (sk_epoch (ds_sink d)) demo_event StateAbandoned = [job_record j] \<and>
     sk_writer (ds_sink d) = WriterExit \<and> j \<in> set (h_jobs (ds_sink d))"
proof -
  obtain h where boot: "demo_boot toy_drivers mem_impl toy_ops 3 5 5 4 False False 0 toy_flags = Inr (0, toy_sink, h)"
    using toy_boots by blast
  obtain d where run: "demo_run mem_impl demo_cq toy_shutdown (demo_up toy_sink) = Some d" "ds_pc d = MainDone"
      "ds_drained d = [demo_event]" "sk_reported (ds_sink d) = []" "h_shed (ds_sink d) = []"
    using toy_shutdown_run by blast
  from demo_shutdown_records [OF boot demo_run_reach [OF run(1) demo_reach.here] run(2), of demo_event] run boot
  show ?thesis by (auto dest: refused_reports dropped_sheds)
qed

end
