(* ===== verification/Web_Sql.thy ===== *)
theory Web_Sql
  imports Web_Listing_Laws Sql_Backends
begin

text \<open>
  Listings over the SQL backends: the queries a page makes satisfy the contract
  \<open>listing_reads\<close>, so its laws hold of SQLite and Postgres as they do of the in-memory store.
\<close>

text \<open>How an error of the backend is worded is the parameter \<open>wording\<close>.\<close>

definition sql_reads :: "(sql_error \<Rightarrow> string) \<Rightarrow> sql_dialect \<Rightarrow> go_unicode \<Rightarrow> driver \<Rightarrow> sql_db \<Rightarrow> store_reads" where
  "sql_reads wording d uc dr db =
     \<lparr>sr_CountJobs = (\<lambda>f. map_sum wording id (sql_CountJobs d uc dr db f)),
      sr_Jobs = (\<lambda>f. map_sum wording id (sql_Jobs d uc dr db f)),
      sr_AttributeKeys = (\<lambda>n. map_sum wording id (sql_AttributeKeys d dr db n))\<rparr>"

text \<open>The jobs a filter selects, in the order of the listing.\<close>

definition sql_hits :: "sql_dialect \<Rightarrow> go_unicode \<Rightarrow> sql_db \<Rightarrow> job_filter \<Rightarrow> job list" where
  "sql_hits d uc db f = map (scan d) (sort_slice row_newer (rev (sql_matching d uc db f)))"

lemma sql_matching_paging_free: "sql_matching d uc db (f\<lparr>f_Limit := a, f_Offset := b\<rparr>) = sql_matching d uc db f"
  by (simp add: sql_matching_def predicate_def cong: filter_cong)

interpretation sql_pages: listing_reads "sql_reads wording d uc quiet db" "sql_hits d uc db" for wording d uc db
proof
  have dr: "answers quiet" by (simp add: answers_def quiet_def)
  show "sr_CountJobs (sql_reads wording d uc quiet db) f = Inr (length (sql_hits d uc db f))" for f
    by (simp add: sql_reads_def sql_CountJobs_def quiet_def sql_hits_def)
  show "sr_Jobs (sql_reads wording d uc quiet db) f = Inr (take (nat (f_Limit f)) (drop (nat (f_Offset f)) (sql_hits d uc db f)))"
    if "0 < f_Limit f" "f_Limit f \<le> 500" "0 \<le> f_Offset f" for f
    using that by (simp add: sql_reads_def sql_Jobs_def sql_query_answers [OF dr] sql_hits_def clamp_limit_def
        take_map drop_map)
  show "sql_hits d uc db (f\<lparr>f_Limit := a, f_Offset := b\<rparr>) = sql_hits d uc db f" for f a b
    by (simp add: sql_hits_def sql_matching_paging_free)
  show "\<exists>ks. sr_AttributeKeys (sql_reads wording d uc quiet db) n = Inr ks" for n
    by (simp add: sql_reads_def sql_AttributeKeys_def sql_query_answers [OF dr] Let_def)
qed

text \<open>
  What a listing depends on: the keys and enqueue times of the rows selected, in the order they
  were inserted. The other columns of a row are shown, but do not move it.
\<close>

definition listed :: "sql_dialect \<Rightarrow> go_unicode \<Rightarrow> sql_db \<Rightarrow> job_filter \<Rightarrow> (string \<times> int) list" where
  "listed d uc db f = map (\<lambda>(k, r). (k, jr_enqueued_at r)) (sql_matching d uc db f)"

lemma keys_sql_hits:
  "map job_Key (sql_hits d uc db f) = map fst (sort_slice (\<lambda>a b. snd a > snd b) (rev (listed d uc db f)))"
proof -
  let ?g = "\<lambda>(k, r). (k, jr_enqueued_at r)"
  have "sort_slice (\<lambda>a b. snd a > snd b) (map ?g (rev (sql_matching d uc db f))) =
      map ?g (sort_slice row_newer (rev (sql_matching d uc db f)))"
    by (rule sort_slice_map) (simp add: row_newer_def split: prod.split)
  moreover have "job_Key \<circ> scan d = fst" "fst \<circ> ?g = fst" by (simp_all add: fun_eq_iff scanJob_def)
  ultimately show ?thesis by (simp add: sql_hits_def listed_def rev_map)
qed

lemma length_sql_hits: "length (sql_hits d uc db f) = length (listed d uc db f)"
  by (simp add: sql_hits_def listed_def)

lemma distinct_sql_hits:
  assumes "wf_map (db_jobs db)"
  shows "distinct (map job_Key (sql_hits d uc db f))"
proof -
  have "job_Key \<circ> scan d = fst" by (simp add: fun_eq_iff scanJob_def)
  moreover have "wf_map (sql_matching d uc db f)" using assms by (simp add: sql_matching_def)
  ultimately show ?thesis by (simp add: sql_hits_def flip: rev_map)
qed

subsection \<open>What a write does to a listing\<close>

lemma filter_AList_update:
  assumes "map_of m k = Some v" "h v' = h v"
  shows "map (\<lambda>(k, r). (k, h r)) (filter (\<lambda>(_, r). P (h r)) (AList.update k v' m)) =
         map (\<lambda>(k, r). (k, h r)) (filter (\<lambda>(_, r). P (h r)) m)"
  using assms by (induction m) auto

lemma AList_update_new: "map_of m k = None \<Longrightarrow> AList.update k v m = m @ [(k, v)]"
  by (induction m) (auto split: if_splits)

text \<open>
  Without filters, a job enqueued after the window and any later event of a job already stored
  leave the listing of the window as it was.
\<close>

lemma later_writes_keep_listing:
  assumes "b \<noteq> zeroTime" "\<And>k r. map_of (db_jobs db) k = Some r \<Longrightarrow> jr_enqueued_at r \<noteq> 0"
    and "map_of (db_jobs db) (record_key j) = None \<Longrightarrow> unix b < unix (job_EnqueuedAt j)"
  shows "listed d uc (db\<lparr>db_jobs := upsert_exec j (db_jobs db)\<rparr>) (zero_filter\<lparr>f_Before := b\<rparr>) =
         listed d uc db (zero_filter\<lparr>f_Before := b\<rparr>)"
proof -
  have sel: "predicate d uc (zero_filter\<lparr>f_Before := b\<rparr>) r \<longleftrightarrow> jr_enqueued_at r \<le> unix b" for r
    using assms(1) by (simp add: predicate_def zero_filter_def IsZero_def Fields_def ascii_def)
  show ?thesis
  proof (cases "map_of (db_jobs db) (record_key j)")
    case None
    with assms(3) show ?thesis
      by (simp add: listed_def sql_matching_def sel upsert_exec_def record_key_def [symmetric] AList_update_new
          sql_values_def)
  next
    case (Some r)
    with assms(2) have "jr_enqueued_at (upsert_set r (sql_values j)) = jr_enqueued_at r"
      by (simp add: upsert_set_def)
    from filter_AList_update [OF Some this, of "\<lambda>t. t \<le> unix b"] Some show ?thesis
      by (simp add: listed_def sql_matching_def sel upsert_exec_def record_key_def [symmetric])
  qed
qed

text \<open>
  The window is not frozen against a job enqueued within it and stored late, as by a sink that
  has not flushed yet: it comes first in the listing, and shifts every other job by one.
\<close>

lemma sort_slice_first:
  assumes "\<forall>y \<in> set ys. \<not> lt y x"
  shows "sort_slice lt (x # ys) = x # sort_slice lt ys"
proof -
  have "foldl (\<lambda>acc y. sift lt y acc) (acc @ [x]) ys = foldl (\<lambda>acc y. sift lt y acc) acc ys @ [x]" for acc
    using assms
  proof (induction ys arbitrary: acc)
    case (Cons y ys)
    then have "sift lt y (acc @ [x]) = sift lt y acc @ [x]" by (induction acc) auto
    with Cons show ?case by simp
  qed simp
  from this [of "[]"] show ?thesis by (simp add: sort_slice_def)
qed

lemma late_write_shifts_listing:
  assumes "map_of (db_jobs db) (record_key j) = None" "predicate d uc f (sql_values j)"
    and "\<forall>(k, r) \<in> set (db_jobs db). jr_enqueued_at r \<le> unix (job_EnqueuedAt j)"
  shows "sql_hits d uc (db\<lparr>db_jobs := upsert_exec j (db_jobs db)\<rparr>) f =
         scan d (record_key j, sql_values j) # sql_hits d uc db f"
proof -
  have "sql_matching d uc (db\<lparr>db_jobs := upsert_exec j (db_jobs db)\<rparr>) f =
      sql_matching d uc db f @ [(record_key j, sql_values j)]"
    using assms(1,2) by (simp add: sql_matching_def upsert_exec_def record_key_def [symmetric] AList_update_new)
  moreover have "\<forall>y \<in> set (rev (sql_matching d uc db f)). \<not> row_newer y (record_key j, sql_values j)"
    using assms(3) by (auto simp: sql_matching_def row_newer_def sql_values_def)
  ultimately show ?thesis by (simp add: sql_hits_def sort_slice_first)
qed

subsection \<open>Paging\<close>

text \<open>
  C27. Paging over a database shows every selected job once, while the selection stands still.
  Follow the pages of a listing over SQLite or Postgres with the same \<open>before\<close>, each page read
  from another state of the database. If the rows the filters select up to \<open>before\<close> have the same
  keys and enqueue times in all of them (their other columns may change, and rows outside the
  selection may come and go), then the pages put together name the selected jobs of the window
  in the order of the listing, each once, and each page shows its jobs as they were stored
  when it was read. (A job that enters or leaves the selection in between does shift the pages:
  one enqueued within the window but written after it was opened, or one that takes on or leaves
  a state the filter asks for.)
\<close>

theorem sql_pages_partition_window:
  fixes micros r f uc db lay now h path d dbs wording
  defines "g \<equiv> f\<lparr>f_Before := time_UnixMicro micros\<rparr>"
  defines "n \<equiv> (length (sql_hits d uc db g) + 49) div 50"
    and "page \<equiv> \<lambda>i. li_Jobs (projr (list_page lay (sql_reads wording d uc quiet (dbs i)) (now i) h (page_request r i) f path))"
  assumes "wf_map (db_jobs db)" "Query_Get r ''before'' = FormatInt micros"
    and "minInt64 \<le> micros" "micros \<le> maxInt64"
    and "length (sql_hits d uc db g) \<le> 4000000000000000000"
    and "\<And>i. listed d uc (dbs i) g = listed d uc db g"
  shows "map job_Key (concat (map page [0..<n])) = map job_Key (sql_hits d uc db g) \<and>
    distinct (map job_Key (sql_hits d uc db g)) \<and>
    (\<forall>i<n. page i = take 50 (drop (i * 50) (sql_hits d uc (dbs i) g)))"
proof -
  have keys: "map job_Key (sql_hits d uc (dbs i) g) = map job_Key (sql_hits d uc db g)" for i
    by (simp add: keys_sql_hits assms(9))
  then have same: "length (sql_hits d uc (dbs i) g) = length (sql_hits d uc db g)" for i
    by (metis length_map)
  have slice: "page i = take 50 (drop (i * 50) (sql_hits d uc (dbs i) g))" if "i < n" for i
    using sql_pages.page_slice [OF assms(5-7), of d uc "dbs i" f i] assms(8) that
    unfolding g_def [symmetric] same n_def page_def by blast
  have "concat (map (\<lambda>i. map job_Key (page i)) [0..<n]) = map job_Key (sql_hits d uc db g)"
    by (rule concat_pages) (simp_all add: slice n_def take_map [symmetric] drop_map [symmetric] keys)
  then show ?thesis
    using slice distinct_sql_hits [OF assms(4), of d uc g] by (simp add: map_concat comp_def)
qed

text \<open>
  Fifty-one jobs make two pages. Between them, a job of the second page completes and a new job
  arrives after the window.
\<close>

definition page_job :: "nat \<Rightarrow> job" where
  "page_job i = zero_job\<lparr>job_ID := replicate i (CHR ''x''), job_EnqueuedAt := 4000\<rparr>"

definition page_table :: "nat \<Rightarrow> (string, job_row) gomap" where
  "page_table n = map (\<lambda>i. (record_key (page_job i), sql_values (page_job i))) [0..<n]"

definition page_rows :: sql_db where
  "page_rows = sql_New\<lparr>db_jobs := page_table 51\<rparr>"

definition page_rows' :: sql_db where
  "page_rows' = page_rows\<lparr>db_jobs := upsert_exec (zero_job\<lparr>job_ID := ''new'', job_EnqueuedAt := 6000\<rparr>)
     (upsert_exec ((page_job 0)\<lparr>job_State := StateCompleted\<rparr>) (db_jobs page_rows))\<rparr>"

lemma page_unix [simp]: "unix 4000 = 4" "unix 5000 = 5" "unix 6000 = 6"
  by (simp_all add: unix_eq)

lemma page_table_wf: "wf_map (page_table n)"
  by (simp add: page_table_def comp_def distinct_map inj_on_def page_job_def record_key_def KeyFor_def)

lemma page_table_within:
  "filter (\<lambda>(_, r). predicate d uc (zero_filter\<lparr>f_Before := 5000\<rparr>) r) (page_table n) = page_table n"
  by (rule filter_True)
    (auto simp: page_table_def page_job_def predicate_def zero_filter_def IsZero_def Fields_def ascii_def sql_values_def
      zero_job_def zeroTime_def)

lemma page_table_enqueued: "map_of (page_table n) k = Some r \<Longrightarrow> jr_enqueued_at r \<noteq> 0"
  by (auto simp: page_table_def sql_values_def page_job_def dest!: map_of_SomeD)

lemma page_table_first: "0 < n \<Longrightarrow> map_of (page_table n) (record_key (page_job 0)) \<noteq> None"
proof -
  assume "0 < n"
  then have "(record_key (page_job 0), sql_values (page_job 0)) \<in> set (page_table n)" by (auto simp: page_table_def)
  then show ?thesis by (metis weak_map_of_SomeI option.distinct(1))
qed

lemma page_rows_wf: "wf_map (db_jobs page_rows)"
  by (simp add: page_rows_def page_table_wf)

lemma page_rows_listed: "length (listed d uc page_rows (zero_filter\<lparr>f_Before := 5000\<rparr>)) = 51"
  by (simp add: listed_def sql_matching_def page_rows_def page_table_within) (simp add: page_table_def del: upt_rec_numeral)

lemma upsert_exec_enqueued:
  assumes "\<And>k r. map_of tbl k = Some r \<Longrightarrow> jr_enqueued_at r \<noteq> 0" "unix (job_EnqueuedAt j) \<noteq> 0"
    and "map_of (upsert_exec j tbl) k = Some r"
  shows "jr_enqueued_at r \<noteq> 0"
proof -
  have "jr_enqueued_at (upsert_set r' (sql_values j)) = jr_enqueued_at r'" if "jr_enqueued_at r' \<noteq> 0" for r'
    using that by (simp add: upsert_set_def)
  moreover have "jr_enqueued_at (sql_values j) \<noteq> 0" using assms(2) by (simp add: sql_values_def)
  moreover have "map_of tbl k = Some r \<or> r = sql_values j \<or> (\<exists>k' r'. map_of tbl k' = Some r' \<and> r = upsert_set r' (sql_values j))"
    using assms(3) by (simp add: upsert_exec_def Let_def update_conv' split: if_splits option.splits) blast+
  ultimately show ?thesis using assms(1) by auto
qed

lemma page_rows_same:
  "listed d uc page_rows' (zero_filter\<lparr>f_Before := 5000\<rparr>) = listed d uc page_rows (zero_filter\<lparr>f_Before := 5000\<rparr>)"
proof -
  let ?done = "(page_job 0)\<lparr>job_State := StateCompleted\<rparr>"
  let ?db = "page_rows\<lparr>db_jobs := upsert_exec ?done (db_jobs page_rows)\<rparr>"
  have "record_key ?done = record_key (page_job 0)" by (simp add: record_key_def)
  then have stored: "map_of (db_jobs page_rows) (record_key ?done) \<noteq> None"
    using page_table_first [of 51] by (simp add: page_rows_def)
  have "unix (job_EnqueuedAt ?done) \<noteq> 0" by (simp add: page_job_def)
  then have enqueued: "map_of (db_jobs ?db) k = Some r \<Longrightarrow> jr_enqueued_at r \<noteq> 0" for k r
    using upsert_exec_enqueued [of "page_table 51" ?done k r] page_table_enqueued [of 51] by (simp add: page_rows_def)
  have "listed d uc (?db\<lparr>db_jobs := upsert_exec (zero_job\<lparr>job_ID := ''new'', job_EnqueuedAt := 6000\<rparr>) (db_jobs ?db)\<rparr>)
      (zero_filter\<lparr>f_Before := 5000\<rparr>) = listed d uc ?db (zero_filter\<lparr>f_Before := 5000\<rparr>)"
    by (rule later_writes_keep_listing) (use enqueued in \<open>simp_all add: zeroTime_def\<close>)
  moreover have "listed d uc ?db (zero_filter\<lparr>f_Before := 5000\<rparr>) = listed d uc page_rows (zero_filter\<lparr>f_Before := 5000\<rparr>)"
    by (rule later_writes_keep_listing) (use page_table_enqueued [of 51] stored in \<open>simp_all add: zeroTime_def page_rows_def\<close>)
  ultimately show ?thesis by (simp add: page_rows'_def)
qed

theorem sql_pages_partition_window_witness:
  "let dbs = (\<lambda>i. if i = 0 then page_rows else page_rows');
       page = (\<lambda>i. li_Jobs (projr (list_page demo_layouts (sql_reads (\<lambda>_. []) (sqlite demo_engine) demo_unicode quiet (dbs i))
         0 (blank_handler [] :: bool handler) (page_request demo_page i) zero_filter ''/jobs'')))
   in map job_Key (page 0 @ page 1) =
        map job_Key (sql_hits (sqlite demo_engine) demo_unicode page_rows (zero_filter\<lparr>f_Before := 5000\<rparr>)) \<and>
      length (page 0 @ page 1) = 51 \<and>
      page 1 = drop 50 (sql_hits (sqlite demo_engine) demo_unicode page_rows' (zero_filter\<lparr>f_Before := 5000\<rparr>))"
proof -
  let ?d = "sqlite demo_engine" and ?g = "zero_filter\<lparr>f_Before := 5000\<rparr>"
  have g: "zero_filter\<lparr>f_Before := time_UnixMicro 5\<rparr> = ?g" by (simp add: time_UnixMicro_def)
  have q: "Query_Get demo_page ''before'' = FormatInt 5"
    by (simp add: demo_page_def Query_Get_def values_Get_def values_all_def FormatInt_5)
  have len: "length (sql_hits ?d demo_unicode page_rows ?g) = 51"
    by (simp add: length_sql_hits page_rows_listed)
  then have len': "length (sql_hits ?d demo_unicode page_rows' ?g) = 51"
    by (simp add: length_sql_hits page_rows_same)
  have same: "listed ?d demo_unicode (if i = (0::nat) then page_rows else page_rows') ?g = listed ?d demo_unicode page_rows ?g" for i
    by (simp add: page_rows_same)
  have two: "[0..<2] = [0, 1::nat]" by (simp add: upt_rec)
  note pages = sql_pages_partition_window [where micros = 5 and f = zero_filter and db = page_rows and r = demo_page
      and uc = demo_unicode and d = ?d and lay = demo_layouts and now = "\<lambda>_. 0" and wording = "\<lambda>_. []"
      and h = "blank_handler [] :: bool handler" and path = "''/jobs''"
      and dbs = "\<lambda>i. if i = 0 then page_rows else page_rows'", unfolded g, OF page_rows_wf q _ _ _ same]
  let ?page = "\<lambda>i. li_Jobs (projr (list_page demo_layouts (sql_reads (\<lambda>_. []) ?d demo_unicode quiet
      (if i = 0 then page_rows else page_rows')) 0 (blank_handler [] :: bool handler) (page_request demo_page i) zero_filter ''/jobs''))"
  have keys: "map job_Key (?page 0 @ ?page 1) = map job_Key (sql_hits ?d demo_unicode page_rows ?g)"
    using pages by (simp add: len two)
  have "i < 2 \<Longrightarrow> ?page i = take 50 (drop (i * 50) (sql_hits ?d demo_unicode (if i = 0 then page_rows else page_rows') ?g))" for i
    using pages by (simp add: len)
  from this [of 1] have page1: "?page 1 = take 50 (drop 50 (sql_hits ?d demo_unicode page_rows' ?g))" by simp
  have "length (?page 0 @ ?page 1) = 51" using arg_cong [OF keys, of length] len by simp
  with keys page1 len' show ?thesis by (simp add: Let_def)
qed

end
