(* ===== verification/Spec2Isabelle.thy ===== *)
theory Spec2Isabelle
  imports Demo_Run Web_Sql
begin

text \<open>
  A verification development of the dashboard for cq queues (Go module
  \<open>github.com/gnikyt/cq-dashboard\<close>).

  \<^bold>\<open>The program.\<close> A \<^emph>\<open>sink\<close> (\<open>src/sink\<close>) listens to the hooks of cq queues and writes what happens
  to jobs into a \<^emph>\<open>store\<close> (\<open>src/store\<close>), without ever blocking a worker: records go through a
  bounded channel to one writer, which batches them. Three backends implement the store: in
  memory (\<open>src/store/memory\<close>), SQLite (\<open>src/store/sqlite\<close>) and Postgres (\<open>src/store/postgres\<close>).
  Several processes may share one; each process run is an \<^emph>\<open>epoch\<close> that beats, and whoever
  starts takes over the work of epochs that fell silent. A \<^emph>\<open>web handler\<close> (\<open>src/web\<close>) shows the
  store and the live queues, behind a login with signed cookies, and offers three write
  actions on queues. A demonstration program (\<open>src/cmd/demo\<close>) puts them together, and a
  conformance suite (\<open>src/store/storetest\<close>) says what every backend must do.

  \<^bold>\<open>Theories and the code they model.\<close>

  \<^item> \<open>Prelude\<close>, \<open>Go_Strings\<close>, \<open>Go_Sort\<close>, \<open>Go_Encoding\<close>, \<open>Go_Crypto\<close>, \<open>Go_URL\<close>, \<open>Go_Float\<close>: what the program uses
    of Go and its standard library. Instants and durations, 64-bit integers and their
    division, maps as association lists; \<open>strings\<close>, \<open>strconv\<close>, \<open>sort.Slice\<close>, hexadecimal,
    base64, SHA-256 and HMAC, \<open>url.Parse\<close>, query escaping, \<open>path.Clean\<close>, the segments of a path as
    \<open>http.ServeMux\<close> matches them; \<open>float64\<close> as rationals rounded to
    53 bits, with the error of a rounding and the values on which counting in units is exact.
  \<^item> \<open>Store_Types\<close>, \<open>Normalize\<close>: \<open>store.go\<close> and \<open>normalize.go\<close>. States and ranks, jobs, attempts,
    filters, the row key \<open>KeyFor\<close>, and the masking of job names.
  \<^item> \<open>Memory_Store\<close> (writes), \<open>Memory_Query\<close> (reads): \<open>memory.go\<close>, operation by operation. The store
    is a record of three maps. \<open>Memory_Laws\<close>, \<open>Query_Laws\<close>, \<open>Aggregate_Laws\<close> prove that merging is
    associative, idempotent and never loses progress, what reconciliation and pruning touch,
    the invariant of the maps, and what each query returns.
  \<^item> \<open>Store_Contract\<close>, \<open>Memory_Impl\<close>: the interface \<open>store.Store\<close> as a record of operations and the
    locale \<open>store_contract\<close> of what its clients may rely on, up to the form in which a backend keeps
    times; interpreted on the in-memory store here and on the SQL backends in \<open>Sink_Sql\<close>.
  \<^item> \<open>Sql_Store\<close>, \<open>Sql_Query\<close>: the SQL backends. Tables are association lists in insertion order,
    statements are the functions on tables they denote, and each call to the driver may fail.
    What SQLite and Postgres do differently is the record \<open>sql_dialect\<close>; \<open>Sql_Backends\<close> names the
    Postgres operations. \<open>Sql_Laws\<close> and \<open>Sql_Refine\<close> prove the simulation by the in-memory store,
    \<open>Sql_Reads\<close> and \<open>Sql_Backends\<close> that the queries agree; the locale \<open>sql_matching_laws\<close> is what a
    dialect promises of search terms and attribute keys, interpreted on both.
  \<^item> \<open>Sink\<close> (options, hooks), \<open>Sink_Steps\<close>: \<open>sink.go\<close>. Callers of hooks, the writer, the heartbeat,
    the retention loop and Close are the moves of a transition system over the record \<open>sink\<close>;
    history fields (\<open>h_\<close>) record what went where and are read by no move. \<open>Sink_Laws\<close> proves
    conservation, bounds and the behaviour of Close, \<open>Sink_History\<close> what reaches the store, and
    \<open>Sink_Sql\<close> what reaches a database whose driver fails at will. \<open>Sink_Liveness\<close>, over the runs and
    the weak fairness of \<open>Fair_Runs\<close>, proves what eventually happens (accepted records reach the
    store, and Close returns), that the drain of a closing sink ends on every schedule, fair or
    not, and what can become of a record on its way.
  \<^item> \<open>Conformance_Suite\<close>: \<open>storetest.go\<close>, its builders, its helpers and its twenty-one cases as functions
    from an implementation of the store interface to a verdict. \<open>Conformance_Laws\<close> is the contract
    \<open>faithful_store\<close> the suite tests, \<open>Conformance_Cases\<close> proves that it passes each case, and
    \<open>Conformance_Stores\<close> that the three backends satisfy it.
  \<^item> \<open>Web_Http\<close> (requests, responses), \<open>Web_Session\<close> (\<open>login.go\<close>: signing, revocation, limiter),
    \<open>Web_Handler\<close> (\<open>handler.go\<close>, \<open>auth.go\<close>: options, New, identities, CSRF, the gate, routes),
    \<open>Web_Login\<close> (\<open>login.go\<close>: handlers), \<open>Web_Controls\<close> (\<open>controls.go\<close>, and \<open>serve\<close>, the whole handler
    on one request). \<open>Web_Laws\<close> and \<open>Web_Login_Laws\<close> prove the invariant of the handler along all
    requests, that strangers see nothing, that queues change only through judged and audited
    controls, and what a login grants.
  \<^item> \<open>Web_Status\<close> (\<open>status.go\<close>), \<open>Web_Listing\<close> (filters, listings, pagers), \<open>Web_Views\<close> (the other
    pages), \<open>Web_Json\<close> (\<open>json.go\<close>); \<open>Web_Listing_Laws\<close> and \<open>Web_View_Laws\<close> prove that pages
    partition a frozen window, that pager links parse back, and that figures add up;
    \<open>Web_Sql\<close> carries the paging over to the SQL backends.
  \<^item> \<open>Web_Format\<close>: the template helpers (\<open>funcs\<close>, \<open>compactDuration\<close>) and how accurate they are.
    \<open>Web_Site\<close>: the views behind their routes and over a sink; what every answer of the whole
    handler satisfies, and that the overview admits the gaps of the history.
  \<^item> \<open>Demo\<close>, \<open>Demo_Run\<close>: \<open>cmd/demo\<close>. Flags, choice of the database, options, start-up, mux and jobs; that the
    flags decide who may change a queue. The producers, and the main goroutine from the signal to its
    return as moves interleaved with those of the sink; what becomes of the jobs a shutdown hands back.

  \<^bold>\<open>Conventions.\<close> Definitions keep the names of the code, prefixed where two packages share one
  (\<open>mem_\<close>, \<open>sql_\<close>, \<open>pg_\<close>, \<open>sink_\<close>) or suffixed where Isabelle has the name. Methods take the
  receiver as an argument and return it changed. Clock readings, random bytes and the answers
  of a database driver are arguments. Errors are values of sum types, panics are values of
  \<open>go_panic\<close> among them. Nothing here needs fuel: every loop of the code runs over a list, and
  the goroutines are moves, of which a run takes any number in any order. Only the two liveness
  properties of \<open>Sink_Liveness\<close> restrict the order, by weak fairness to the cases of the writer's select loop and to
  the goroutine that waits in Close, as Go's scheduler and its random choice among ready cases give it.

  \<^bold>\<open>Parameters.\<close> Not part of the repository, and so arguments of the definitions: cq's queues,
  submissions and schedules (\<open>queue_ops\<close>, \<open>live\<close>), the Unicode tables behind \<open>ToLower\<close> and \<open>Fields\<close>
  beyond ASCII (\<open>go_unicode\<close>), textual time layouts (\<open>go_layouts\<close>, \<open>fmt\<close>), what a database does with
  text beyond ASCII, unusual JSON paths and JSON text (\<open>sql_engine\<close>), the application's password
  check and authorizers, and the templates. So is whatever order the code leaves open: in which a Go
  map yields the groups an unstable sort then ranks (\<open>ord\<close>, through \<open>range_order\<close>), and in which a
  database comes upon the groups of a \<open>GROUP BY\<close> (in \<open>sql_engine\<close>). What the mux answers itself (a
  redirect to a cleaned path, 404, 405) is a function of the request.

  \<^bold>\<open>Routes.\<close> \<open>mux_route\<close> follows \<open>http.ServeMux\<close> of the Go version the module asks for: it matches the
  escaped path (\<open>URL_EscapedPath\<close>, which is computed from the path and the raw path of the request)
  segment by segment, each unescaped, and routes no path that is not clean.

  \<^bold>\<open>Composition.\<close> The sink is proved against \<open>store_contract\<close>, so its history theorems rest on the
  laws of the store alone; the conformance suite against \<open>faithful_store\<close>; the listing theorems
  against \<open>listing_reads\<close>; \<open>sort.Slice\<close> users against \<open>slice_order\<close>; sessions against \<open>session_signer\<close>.
  Each locale is interpreted on the definitions of the components that provide it, the first
  three on the in-memory store and on both SQL backends. The SQL backends are tied to the
  in-memory store by simulation, through which its laws hold of them.

  \<^bold>\<open>Not modelled.\<close> The HTML of the embedded templates, which is a parameter of the views; in
  \<open>cmd/demo\<close> the parsing of the command line, logging, and the listening and shutdown of the HTTP
  server, which are calls into other packages (what \<open>StopDrain\<close> hands back and when the ticker and the
  signal come are arguments); closing a store, which closes its handle. Locks and contexts do not
  appear: each store operation holds its lock throughout and is one step, and no operation is
  cancelled. A function that reads the clock twice for one session takes one reading, and a page
  takes one snapshot of the sink's counters. Signatures are computed, and theorems about them say what verifies; that no one
  can guess one is not a theorem of this development.
\<close>

end
